(* ===== verification/Dbos_Prelude.thy ===== *)
theory Dbos_Prelude
  imports Main "HOL-Library.Product_Lexorder" "HOL-Library.Word"
begin

text \<open>
  Shared vocabulary of the development: the effect type of a database operation
  (\<open>Result<T, E>\<close> together with the database it leaves behind), SQL's table operations on
  lists of rows with SQL's treatment of NULL, the helpers of \<open>Option\<close> that the Rust code uses,
  decimal rendering of integers, and the two interfaces several components share: a round-trip
  encoding (\<open>codec\<close>) and an operation that keeps an invariant (\<open>invariant_op\<close>).
\<close>

named_theorems eff_simps \<open>unfolding of effectful code\<close>
named_theorems table_simps \<open>rewriting of table operations\<close>

subsection \<open>Results with a state\<close>

text \<open>
  A fallible operation on a state. An error does not undo the state by itself: code that runs in
  a database transaction is wrapped in \<open>transaction\<close>, which rolls back on an error, as dropping
  an uncommitted transaction does.
\<close>

type_synonym ('s, 'e, 'a) eff = "'s \<Rightarrow> ('e + 'a) \<times> 's"

definition ret :: "'a \<Rightarrow> ('s, 'e, 'a) eff" where
  "ret a s = (Inr a, s)"

definition throw :: "'e \<Rightarrow> ('s, 'e, 'a) eff" where
  "throw e s = (Inl e, s)"

text \<open>The \<open>?\<close> operator: stop at the first error, otherwise go on with the value.\<close>

definition andthen :: "('s, 'e, 'a) eff \<Rightarrow> ('a \<Rightarrow> ('s, 'e, 'b) eff) \<Rightarrow> ('s, 'e, 'b) eff" where
  "andthen m k s = (case m s of (Inl e, s') \<Rightarrow> (Inl e, s') | (Inr a, s') \<Rightarrow> k a s')"

definition transaction :: "('s, 'e, 'a) eff \<Rightarrow> ('s, 'e, 'a) eff" where
  "transaction m s = (case m s of (Inl e, _) \<Rightarrow> (Inl e, s) | (Inr a, s') \<Rightarrow> (Inr a, s'))"

text \<open>A read of the state that changes nothing.\<close>

definition query :: "('s \<Rightarrow> 'e + 'a) \<Rightarrow> ('s, 'e, 'a) eff" where
  "query f s = (f s, s)"

lemma andthen_apply [eff_simps]:
  "andthen m k s = (case m s of (Inl e, s') \<Rightarrow> (Inl e, s') | (Inr a, s') \<Rightarrow> k a s')"
  by (simp add: andthen_def)

lemmas [eff_simps] = ret_def throw_def query_def

lemma transaction_Inl: "transaction m s = (Inl e, s') \<Longrightarrow> s' = s"
  by (auto simp: transaction_def split: prod.splits sum.splits)

lemma transaction_Inr: "transaction m s = (Inr a, s') \<longleftrightarrow> m s = (Inr a, s')"
  by (auto simp: transaction_def split: prod.splits sum.splits)

lemma fst_transaction: "fst (transaction m s) = fst (m s)"
  by (auto simp: transaction_def split: prod.splits sum.splits)

lemma andthen_InrE:
  assumes "andthen m k s = (Inr b, s')"
  obtains a s1 where "m s = (Inr a, s1)" and "k a s1 = (Inr b, s')"
  using assms by (auto simp: andthen_def split: prod.splits sum.splits)

text \<open>The state component of a composition: used to push an invariant through \<open>?\<close>.\<close>

lemma snd_andthen:
  "snd (andthen m k s) = (case fst (m s) of Inl e \<Rightarrow> snd (m s) | Inr a \<Rightarrow> snd (k a (snd (m s))))"
  by (auto simp: andthen_def split: prod.splits sum.splits)

lemma snd_transaction:
  "snd (transaction m s) = (case fst (m s) of Inl e \<Rightarrow> s | Inr a \<Rightarrow> snd (m s))"
  by (auto simp: transaction_def split: prod.splits sum.splits)

definition preserves :: "('s \<Rightarrow> bool) \<Rightarrow> ('s, 'e, 'a) eff \<Rightarrow> bool" where
  "preserves I m \<longleftrightarrow> (\<forall>s. I s \<longrightarrow> I (snd (m s)))"

lemma preservesI: "(\<And>s. I s \<Longrightarrow> I (snd (m s))) \<Longrightarrow> preserves I m"
  by (simp add: preserves_def)

lemma preservesD: "preserves I m \<Longrightarrow> I s \<Longrightarrow> I (snd (m s))"
  by (simp add: preserves_def)

lemma preserves_ret [intro, simp]: "preserves I (ret a)"
  by (simp add: preserves_def ret_def)

lemma preserves_throw [intro, simp]: "preserves I (throw e)"
  by (simp add: preserves_def throw_def)

lemma preserves_query [intro, simp]: "preserves I (query f)"
  by (simp add: preserves_def query_def)

lemma preserves_andthen [intro]:
  "preserves I m \<Longrightarrow> (\<And>a. preserves I (k a)) \<Longrightarrow> preserves I (andthen m k)"
  by (auto simp: preserves_def snd_andthen split: sum.splits)

lemma preserves_transaction [intro]: "preserves I m \<Longrightarrow> preserves I (transaction m)"
  by (auto simp: preserves_def snd_transaction split: sum.splits)

lemma preserves_if [intro]:
  "preserves I m \<Longrightarrow> preserves I n \<Longrightarrow> preserves I (if b then m else n)"
  by simp

lemma preserves_option [intro]:
  "preserves I m \<Longrightarrow> (\<And>a. preserves I (k a)) \<Longrightarrow> preserves I (case x of None \<Rightarrow> m | Some a \<Rightarrow> k a)"
  by (cases x) simp_all

lemma preserves_sum [intro]:
  "(\<And>e. preserves I (m e)) \<Longrightarrow> (\<And>a. preserves I (k a)) \<Longrightarrow>
   preserves I (case x of Inl e \<Rightarrow> m e | Inr a \<Rightarrow> k a)"
  by (cases x) simp_all

lemma preserves_conj:
  "preserves I m \<Longrightarrow> preserves J m \<Longrightarrow> preserves (\<lambda>s. I s \<and> J s) m"
  by (simp add: preserves_def)

subsection \<open>SQL: conditions on nullable columns\<close>

text \<open>
  A WHERE clause keeps the rows whose condition is TRUE; a comparison with NULL is not TRUE.
\<close>

definition sql_eq :: "'a option \<Rightarrow> 'a \<Rightarrow> bool" where
  "sql_eq col v \<longleftrightarrow> col = Some v"

definition sql_le :: "int option \<Rightarrow> int \<Rightarrow> bool" where
  "sql_le col v = (case col of None \<Rightarrow> False | Some x \<Rightarrow> x \<le> v)"

definition sql_gt :: "int option \<Rightarrow> int \<Rightarrow> bool" where
  "sql_gt col v = (case col of None \<Rightarrow> False | Some x \<Rightarrow> x > v)"

definition sql_any :: "'a option \<Rightarrow> 'a list \<Rightarrow> bool" where
  "sql_any col vs = (case col of None \<Rightarrow> False | Some x \<Rightarrow> x \<in> set vs)"

lemma sql_eq_iff [simp]: "sql_eq (Some x) v \<longleftrightarrow> x = v" "\<not> sql_eq None v"
  by (auto simp: sql_eq_def)

lemma sql_any_iff [simp]: "sql_any (Some x) vs \<longleftrightarrow> x \<in> set vs" "\<not> sql_any None vs"
  by (auto simp: sql_any_def)

subsection \<open>SQL: statements on a table\<close>

definition sql_select :: "('r \<Rightarrow> bool) \<Rightarrow> 'r list \<Rightarrow> 'r list" where
  "sql_select P t = filter P t"

definition sql_update :: "('r \<Rightarrow> bool) \<Rightarrow> ('r \<Rightarrow> 'r) \<Rightarrow> 'r list \<Rightarrow> 'r list" where
  "sql_update P f t = map (\<lambda>r. if P r then f r else r) t"

definition sql_delete :: "('r \<Rightarrow> bool) \<Rightarrow> 'r list \<Rightarrow> 'r list" where
  "sql_delete P t = filter (\<lambda>r. \<not> P r) t"

definition sql_count :: "('r \<Rightarrow> bool) \<Rightarrow> 'r list \<Rightarrow> int" where
  "sql_count P t = int (length (filter P t))"

definition sql_exists :: "('r \<Rightarrow> bool) \<Rightarrow> 'r list \<Rightarrow> bool" where
  "sql_exists P t = list_ex P t"

text \<open>LIMIT with the count as the code computes it: a count of at most zero selects no row.\<close>

definition sql_limit :: "int \<Rightarrow> 'r list \<Rightarrow> 'r list" where
  "sql_limit n t = take (nat n) t"

lemmas [table_simps] = sql_select_def sql_delete_def sql_exists_def sql_limit_def

lemma sql_exists_iff: "sql_exists P t \<longleftrightarrow> (\<exists>r \<in> set t. P r)"
  by (simp add: sql_exists_def list_ex_iff)

lemma set_sql_update: "set (sql_update P f t) = (\<lambda>r. if P r then f r else r) ` set t"
  by (simp add: sql_update_def)

lemma sql_update_memberE:
  assumes "x \<in> set (sql_update P f t)"
  obtains y where "y \<in> set t" and "x = (if P y then f y else y)"
  using assms unfolding set_sql_update by (rule imageE) (rule that)

lemma length_sql_update [simp]: "length (sql_update P f t) = length t"
  by (simp add: sql_update_def)

lemma sql_update_Nil [simp]: "sql_update P f [] = []"
  by (simp add: sql_update_def)

lemma sql_update_Cons [simp]:
  "sql_update P f (r # t) = (if P r then f r else r) # sql_update P f t"
  by (simp add: sql_update_def)

lemma sql_update_append [simp]:
  "sql_update P f (t @ u) = sql_update P f t @ sql_update P f u"
  by (simp add: sql_update_def)

lemma map_sql_update:
  "(\<And>r. r \<in> set t \<Longrightarrow> P r \<Longrightarrow> g (f r) = g r) \<Longrightarrow> map g (sql_update P f t) = map g t"
  by (induction t) auto

lemma sql_update_no_match: "(\<And>r. r \<in> set t \<Longrightarrow> \<not> P r) \<Longrightarrow> sql_update P f t = t"
  by (induction t) auto

lemma sql_count_nonneg [simp]: "0 \<le> sql_count P t"
  by (simp add: sql_count_def)

lemma sql_count_append [simp]: "sql_count P (t @ u) = sql_count P t + sql_count P u"
  by (simp add: sql_count_def)

lemma sql_count_Nil [simp]: "sql_count P [] = 0"
  by (simp add: sql_count_def)

lemma sql_count_Cons [simp]: "sql_count P (r # t) = (if P r then 1 else 0) + sql_count P t"
  by (simp add: sql_count_def)

lemma sql_count_mono: "(\<And>r. r \<in> set t \<Longrightarrow> P r \<Longrightarrow> Q r) \<Longrightarrow> sql_count P t \<le> sql_count Q t"
  by (induction t) auto

subsection \<open>Rows found by their key\<close>

text \<open>
  A primary-key lookup on a table. The lemmas hold for tables whose keys are distinct, which the
  schema's primary keys enforce.
\<close>

definition find_key :: "('r \<Rightarrow> 'k) \<Rightarrow> 'k \<Rightarrow> 'r list \<Rightarrow> 'r option" where
  "find_key key k t = find (\<lambda>r. key r = k) t"

lemma find_key_Nil [simp]: "find_key key k [] = None"
  by (simp add: find_key_def)

lemma find_key_Cons [simp]:
  "find_key key k (r # t) = (if key r = k then Some r else find_key key k t)"
  by (simp add: find_key_def)

lemma find_key_None: "find_key key k t = None \<longleftrightarrow> k \<notin> key ` set t"
  by (induction t) auto

lemma find_key_SomeD: "find_key key k t = Some r \<Longrightarrow> r \<in> set t \<and> key r = k"
  by (induction t) (auto split: if_splits)

lemma find_key_append:
  "find_key key k (t @ u) =
     (case find_key key k t of None \<Rightarrow> find_key key k u | Some r \<Rightarrow> Some r)"
  by (induction t) auto

lemma find_key_distinct:
  "distinct (map key t) \<Longrightarrow> r \<in> set t \<Longrightarrow> key r = k \<Longrightarrow> find_key key k t = Some r"
  by (induction t) (auto simp: image_iff)

lemma find_key_update:
  assumes "\<And>r. r \<in> set t \<Longrightarrow> P r \<Longrightarrow> key (f r) = key r"
  shows "find_key key k (sql_update P f t) =
     map_option (\<lambda>r. if P r then f r else r) (find_key key k t)"
  using assms by (induction t) auto

lemma find_key_delete:
  "distinct (map key t) \<Longrightarrow>
   find_key key k (sql_delete P t) =
     (case find_key key k t of None \<Rightarrow> None | Some r \<Rightarrow> if P r then None else Some r)"
  by (induction t)
    (auto simp: sql_delete_def find_key_None split: option.splits dest!: find_key_SomeD)

lemma distinct_map_sql_delete: "distinct (map key t) \<Longrightarrow> distinct (map key (sql_delete P t))"
  by (simp add: sql_delete_def distinct_map_filter)

lemma distinct_map_sql_update:
  "distinct (map key t) \<Longrightarrow> (\<And>r. r \<in> set t \<Longrightarrow> P r \<Longrightarrow> key (f r) = key r) \<Longrightarrow>
   distinct (map key (sql_update P f t))"
  by (simp add: map_sql_update)

text \<open>\<open>INSERT ... ON CONFLICT (key) DO UPDATE\<close>: change the row with the key, or append a new one.\<close>

definition sql_upsert :: "('r \<Rightarrow> 'k) \<Rightarrow> ('r \<Rightarrow> 'r) \<Rightarrow> 'r \<Rightarrow> 'r list \<Rightarrow> 'r list" where
  "sql_upsert key f r t =
     (if sql_exists (\<lambda>x. key x = key r) t then sql_update (\<lambda>x. key x = key r) f t else t @ [r])"

lemma find_key_upsert:
  assumes "\<And>x. key x = key r \<Longrightarrow> key (f x) = key x"
  shows "find_key key k (sql_upsert key f r t) =
    (if k = key r then Some (case find_key key k t of None \<Rightarrow> r | Some x \<Rightarrow> f x)
     else find_key key k t)"
proof (cases "find_key key (key r) t")
  case None
  then have "\<not> sql_exists (\<lambda>x. key x = key r) t"
    by (auto simp: sql_exists_iff find_key_None image_iff)
  with None show ?thesis by (auto simp: sql_upsert_def find_key_append split: option.splits)
next
  case (Some x)
  then have ex: "sql_exists (\<lambda>x. key x = key r) t" and x: "key x = key r"
    by (auto simp: sql_exists_iff dest: find_key_SomeD)
  have upd: "find_key key k (sql_update (\<lambda>x. key x = key r) f t) =
      map_option (\<lambda>r'. if key r' = key r then f r' else r') (find_key key k t)"
    by (rule find_key_update) (rule assms)
  show ?thesis
  proof (cases "k = key r")
    case True
    with Some x ex upd show ?thesis by (simp add: sql_upsert_def)
  next
    case False
    then have "map_option (\<lambda>r'. if key r' = key r then f r' else r') (find_key key k t) =
        find_key key k t"
      by (cases "find_key key k t") (auto dest: find_key_SomeD)
    with False ex upd show ?thesis by (simp add: sql_upsert_def)
  qed
qed

lemma distinct_sql_upsert:
  assumes "distinct (map key t)" and "\<And>x. key x = key r \<Longrightarrow> key (f x) = key x"
  shows "distinct (map key (sql_upsert key f r t))"
proof (cases "sql_exists (\<lambda>x. key x = key r) t")
  case True
  have "distinct (map key (sql_update (\<lambda>x. key x = key r) f t))"
    using assms(1) by (rule distinct_map_sql_update) (rule assms(2))
  with True show ?thesis by (simp add: sql_upsert_def)
next
  case False
  then have "key r \<notin> key ` set t" by (auto simp: sql_exists_iff)
  with False assms(1) show ?thesis by (simp add: sql_upsert_def)
qed

lemma keys_sql_upsert:
  assumes "\<And>x. key x = key r \<Longrightarrow> g (f x) = g x"
  shows "g ` set (sql_upsert key f r t) \<subseteq> insert (g r) (g ` set t)"
  using assms by (auto simp: sql_upsert_def set_sql_update)

subsection \<open>Rows in order\<close>

text \<open>A row that is not earlier than any other comes last, after the rows it ties with.\<close>

lemma insort_key_snoc: "f y \<le> f x \<Longrightarrow> insort_key f y (l @ [x]) = insort_key f y l @ [x]"
  by (induction l) auto

lemma sort_key_snoc: "(\<And>y. y \<in> set xs \<Longrightarrow> f y \<le> f x) \<Longrightarrow> sort_key f (xs @ [x]) = sort_key f xs @ [x]"
  by (induction xs) (auto simp: insort_key_snoc)

lemma sort_key_filter: "sort_key f (filter P xs) = filter P (sort_key f xs)"
  by (simp add: filter_sort)

subsection \<open>The first element of a list with a property\<close>

lemma ex_split_Cons:
  "(\<exists>pre y post. x # xs = pre @ y # post \<and> list_all P pre \<and> Q y) \<longleftrightarrow>
     Q x \<or> P x \<and> (\<exists>pre y post. xs = pre @ y # post \<and> list_all P pre \<and> Q y)" (is "?l \<longleftrightarrow> ?r")
proof
  assume ?l
  then obtain pre y post where *: "x # xs = pre @ y # post" "list_all P pre" "Q y" by blast
  then show ?r by (cases pre) auto
next
  assume ?r
  then show ?l
  proof
    assume "Q x"
    then have "x # xs = [] @ x # xs \<and> list_all P [] \<and> Q x" by simp
    then show ?l by blast
  next
    assume "P x \<and> (\<exists>pre y post. xs = pre @ y # post \<and> list_all P pre \<and> Q y)"
    then obtain pre y post where "x # xs = (x # pre) @ y # post" "list_all P (x # pre)" "Q y"
      by auto
    then show ?l by blast
  qed
qed

subsection \<open>Option helpers of the Rust standard library\<close>

definition unwrap_or :: "'a option \<Rightarrow> 'a \<Rightarrow> 'a" where
  "unwrap_or x d = (case x of None \<Rightarrow> d | Some v \<Rightarrow> v)"

definition opt_filter :: "('a \<Rightarrow> bool) \<Rightarrow> 'a option \<Rightarrow> 'a option" where
  "opt_filter P x = (case x of None \<Rightarrow> None | Some v \<Rightarrow> if P v then Some v else None)"

definition opt_or :: "'a option \<Rightarrow> 'a option \<Rightarrow> 'a option" where
  "opt_or x y = (case x of None \<Rightarrow> y | Some v \<Rightarrow> Some v)"

lemma unwrap_or_simps [simp]: "unwrap_or None d = d" "unwrap_or (Some v) d = v"
  by (simp_all add: unwrap_or_def)

lemma opt_filter_simps [simp]:
  "opt_filter P None = None" "opt_filter P (Some v) = (if P v then Some v else None)"
  by (simp_all add: opt_filter_def)

lemma opt_or_simps [simp]: "opt_or None y = y" "opt_or (Some v) y = Some v"
  by (simp_all add: opt_or_def)

lemma opt_filter_eq_Some: "opt_filter P x = Some v \<longleftrightarrow> x = Some v \<and> P v"
  by (cases x) auto

subsection \<open>Integers\<close>

text \<open>Rust's \<open>as i32\<close> and \<open>as i64\<close> on a wider integer keep the low bits, read as signed.\<close>

definition cast_i32 :: "int \<Rightarrow> int" where
  "cast_i32 x = signed_take_bit 31 x"

definition cast_i64 :: "int \<Rightarrow> int" where
  "cast_i64 x = signed_take_bit 63 x"

lemma cast_i32_id: "- (2 ^ 31) \<le> x \<Longrightarrow> x < 2 ^ 31 \<Longrightarrow> cast_i32 x = x"
  by (simp add: cast_i32_def signed_take_bit_int_eq_self)

lemma cast_i64_id: "- (2 ^ 63) \<le> x \<Longrightarrow> x < 2 ^ 63 \<Longrightarrow> cast_i64 x = x"
  by (simp add: cast_i64_def signed_take_bit_int_eq_self)

text \<open>Decimal rendering, as \<open>format!("{}", n)\<close> prints an integer.\<close>

definition digit_char :: "nat \<Rightarrow> char" where
  "digit_char d = char_of (48 + d)"

fun show_nat :: "nat \<Rightarrow> string" where
  "show_nat n = (if n < 10 then [digit_char n] else show_nat (n div 10) @ [digit_char (n mod 10)])"

declare show_nat.simps [simp del]

definition show_int :: "int \<Rightarrow> string" where
  "show_int i = (if i < 0 then CHR ''-'' # show_nat (nat (- i)) else show_nat (nat i))"

lemma digit_char_inject: "a < 10 \<Longrightarrow> b < 10 \<Longrightarrow> digit_char a = digit_char b \<longleftrightarrow> a = b"
  by (simp add: digit_char_def)

lemma digit_char_neq_minus: "d < 10 \<Longrightarrow> digit_char d \<noteq> CHR ''-''"
proof
  assume "d < 10" and "digit_char d = CHR ''-''"
  then have "of_char (digit_char d) = (of_char (CHR ''-'') :: nat)" by simp
  with \<open>d < 10\<close> show False by (simp add: digit_char_def)
qed

lemma show_nat_nonempty [simp]: "show_nat n \<noteq> []"
  by (subst show_nat.simps) simp

lemma show_nat_digits: "c \<in> set (show_nat n) \<Longrightarrow> \<exists>d < 10. c = digit_char d"
proof (induction n rule: show_nat.induct)
  case (1 n)
  show ?case
  proof (cases "n < 10")
    case True
    with "1.prems" show ?thesis by (auto simp: show_nat.simps [of n])
  next
    case False
    with "1.prems" have "c \<in> set (show_nat (n div 10)) \<or> c = digit_char (n mod 10)"
      by (auto simp: show_nat.simps [of n])
    moreover have "n mod 10 < 10" by simp
    ultimately show ?thesis using "1.IH" False by blast
  qed
qed

lemma show_nat_inject: "show_nat m = show_nat n \<longleftrightarrow> m = n"
proof
  show "show_nat m = show_nat n \<Longrightarrow> m = n"
  proof (induction m arbitrary: n rule: show_nat.induct)
    case (1 m)
    show ?case
    proof (cases "m < 10")
      case True
      then have m: "show_nat m = [digit_char m]" by (simp add: show_nat.simps [of m])
      have "n < 10"
      proof (rule ccontr)
        assume "\<not> n < 10"
        with "1.prems" m have "show_nat (n div 10) = []" by (simp add: show_nat.simps [of n])
        then show False by simp
      qed
      with True m "1.prems" show ?thesis by (simp add: show_nat.simps [of n] digit_char_inject)
    next
      case False
      have "\<not> n < 10"
      proof
        assume "n < 10"
        with "1.prems" False have "show_nat (m div 10) = []"
          by (simp add: show_nat.simps [of n] show_nat.simps [of m])
        then show False by simp
      qed
      with False "1.prems" have "show_nat (m div 10) = show_nat (n div 10)"
        and "digit_char (m mod 10) = digit_char (n mod 10)"
        by (simp_all add: show_nat.simps [of m] show_nat.simps [of n])
      then have "m div 10 = n div 10" and "m mod 10 = n mod 10"
        using "1.IH" False by (simp_all add: digit_char_inject)
      then show ?thesis by (metis div_mult_mod_eq)
    qed
  qed
qed simp

lemma minus_notin_show_nat: "CHR ''-'' \<notin> set (show_nat n)"
  using show_nat_digits digit_char_neq_minus by metis

lemma show_int_inject: "show_int i = show_int j \<longleftrightarrow> i = j"
proof -
  have hd: "hd (show_nat n) \<noteq> CHR ''-''" for n
    using minus_notin_show_nat [of n] by (metis hd_in_set show_nat_nonempty)
  then have "CHR ''-'' # xs \<noteq> show_nat n" "show_nat n \<noteq> CHR ''-'' # xs" for n xs
    by (metis list.sel(1))+
  then show ?thesis by (auto simp: show_int_def show_nat_inject)
qed

subsection \<open>Text: white space\<close>

definition is_whitespace :: "char \<Rightarrow> bool" where
  "is_whitespace c \<longleftrightarrow> of_char c \<in> {9::nat, 10, 11, 12, 13, 32}"

definition trim :: "string \<Rightarrow> string" where
  "trim s = rev (dropWhile is_whitespace (rev (dropWhile is_whitespace s)))"

lemma trim_eq_Nil: "trim s = [] \<longleftrightarrow> (\<forall>c \<in> set s. is_whitespace c)"
  by (simp add: trim_def dropWhile_eq_Nil_conv) (metis set_dropWhileD set_takeWhileD takeWhile_dropWhile_id Un_iff set_append)

subsection \<open>Text: prefixes, substrings, lower case\<close>

fun starts_with :: "string \<Rightarrow> string \<Rightarrow> bool" where
  "starts_with [] s = True"
| "starts_with (p # ps) [] = False"
| "starts_with (p # ps) (c # cs) = (p = c \<and> starts_with ps cs)"

fun str_contains :: "string \<Rightarrow> string \<Rightarrow> bool" where
  "str_contains [] pat = (pat = [])"
| "str_contains (c # cs) pat = (starts_with pat (c # cs) \<or> str_contains cs pat)"

lemma starts_with_iff: "starts_with p s \<longleftrightarrow> (\<exists>r. s = p @ r)"
  by (induction p s rule: starts_with.induct) auto

lemma starts_with_append [simp]: "starts_with p (p @ s)"
  by (auto simp: starts_with_iff)

lemma starts_with_self [simp]: "starts_with p p"
  using starts_with_append [of p "[]"] by simp

lemma str_contains_iff: "str_contains s p \<longleftrightarrow> (\<exists>a b. s = a @ p @ b)"
proof (induction s)
  case (Cons c s)
  have "(\<exists>a b. c # s = a @ p @ b) \<longleftrightarrow> (\<exists>b. c # s = p @ b) \<or> (\<exists>a b. s = a @ p @ b)"
    by (auto simp: Cons_eq_append_conv)
  then show ?case using Cons by (simp add: starts_with_iff)
qed auto

definition lower_char :: "char \<Rightarrow> char" where
  "lower_char c = (let n = of_char c :: nat in if 65 \<le> n \<and> n \<le> 90 then char_of (n + 32) else c)"

definition to_lowercase :: "string \<Rightarrow> string" where
  "to_lowercase s = map lower_char s"

definition is_ascii_alphabetic :: "char \<Rightarrow> bool" where
  "is_ascii_alphabetic c \<longleftrightarrow> (let n = of_char c :: nat in 65 \<le> n \<and> n \<le> 90 \<or> 97 \<le> n \<and> n \<le> 122)"

definition is_ascii_alphanumeric :: "char \<Rightarrow> bool" where
  "is_ascii_alphanumeric c \<longleftrightarrow> is_ascii_alphabetic c \<or> (let n = of_char c :: nat in 48 \<le> n \<and> n \<le> 57)"

subsection \<open>Interface: an encoding with its decoder\<close>

locale codec =
  fixes enc :: "'a \<Rightarrow> 'b" and dec :: "'b \<Rightarrow> 'a option"
  assumes dec_enc: "dec (enc x) = Some x"
begin

lemma enc_inject: "enc x = enc y \<longleftrightarrow> x = y"
  by (metis dec_enc option.inject)

lemma enc_inj: "inj enc"
  by (simp add: inj_def enc_inject)

lemma dec_image: "dec ` range enc = range Some"
  by (auto simp: dec_enc image_image)

end

text \<open>A decoder that accepts nothing but encodings.\<close>

locale exact_codec = codec +
  assumes dec_only: "dec y = Some x \<Longrightarrow> y = enc x"
begin

lemma dec_iff: "dec y = Some x \<longleftrightarrow> y = enc x"
  using dec_only dec_enc by auto

lemma dec_defined: "dec y \<noteq> None \<longleftrightarrow> y \<in> range enc"
  using dec_iff by auto

end

subsection \<open>Interface: operations that keep an invariant\<close>

text \<open>
  A family of operations, indexed by their arguments, on a shared state. What the family keeps
  holds after any sequence of its operations.
\<close>

locale invariant_op =
  fixes step :: "'i \<Rightarrow> 's \<Rightarrow> 's" and inv :: "'s \<Rightarrow> bool"
  assumes step_inv: "inv s \<Longrightarrow> inv (step i s)"
begin

lemma run_inv: "inv s \<Longrightarrow> inv (fold step is s)"
  by (induction "is" arbitrary: s) (auto intro: step_inv)

lemma run_prefix_inv: "inv s \<Longrightarrow> inv (fold step (take n is) s)"
  by (rule run_inv)

end

end
