(* ===== verification/Dbos_Error.thy ===== *)
theory Dbos_Error
  imports Dbos_Prelude
begin

text \<open>
  The error taxonomy of \<open>crates/dbos/src/error.rs\<close>: the numeric codes, the context attached to
  an error, the constructors with their exact messages, the Display form (which is what the
  system database stores), and the SQLSTATE classifiers that choose control flow.
\<close>

datatype DbosErrorCode =
    Unspecified
  | ConflictingId
  | Initialization
  | NonExistentWorkflow
  | ConflictingWorkflow
  | WorkflowCancelled
  | UnexpectedStep
  | AwaitedWorkflowCancelled
  | ConflictingRegistration
  | WorkflowUnexpectedType
  | WorkflowExecution
  | StepExecution
  | DeadLetterQueue
  | MaxStepRetriesExceeded
  | QueueDeduplicated
  | PatchingNotEnabled
  | Timeout
  | NoApplicationVersions

fun as_i32 :: "DbosErrorCode \<Rightarrow> int" where
  "as_i32 Unspecified = 0"
| "as_i32 ConflictingId = 1"
| "as_i32 Initialization = 2"
| "as_i32 NonExistentWorkflow = 3"
| "as_i32 ConflictingWorkflow = 4"
| "as_i32 WorkflowCancelled = 5"
| "as_i32 UnexpectedStep = 6"
| "as_i32 AwaitedWorkflowCancelled = 7"
| "as_i32 ConflictingRegistration = 8"
| "as_i32 WorkflowUnexpectedType = 9"
| "as_i32 WorkflowExecution = 10"
| "as_i32 StepExecution = 11"
| "as_i32 DeadLetterQueue = 12"
| "as_i32 MaxStepRetriesExceeded = 13"
| "as_i32 QueueDeduplicated = 14"
| "as_i32 PatchingNotEnabled = 15"
| "as_i32 Timeout = 16"
| "as_i32 NoApplicationVersions = 17"

instantiation DbosErrorCode :: enum
begin

definition enum_DbosErrorCode :: "DbosErrorCode list" where
  "enum_DbosErrorCode =
     [Unspecified, ConflictingId, Initialization, NonExistentWorkflow, ConflictingWorkflow,
      WorkflowCancelled, UnexpectedStep, AwaitedWorkflowCancelled, ConflictingRegistration,
      WorkflowUnexpectedType, WorkflowExecution, StepExecution, DeadLetterQueue,
      MaxStepRetriesExceeded, QueueDeduplicated, PatchingNotEnabled, Timeout,
      NoApplicationVersions]"

definition enum_all_DbosErrorCode :: "(DbosErrorCode \<Rightarrow> bool) \<Rightarrow> bool" where
  "enum_all_DbosErrorCode P = list_all P enum_class.enum"

definition enum_ex_DbosErrorCode :: "(DbosErrorCode \<Rightarrow> bool) \<Rightarrow> bool" where
  "enum_ex_DbosErrorCode P = list_ex P enum_class.enum"

instance
proof
  have all: "c \<in> set (enum_class.enum :: DbosErrorCode list)" for c
    by (cases c) (simp_all add: enum_DbosErrorCode_def)
  then show "(UNIV :: DbosErrorCode set) = set enum_class.enum" by blast
  show "distinct (enum_class.enum :: DbosErrorCode list)" by (simp add: enum_DbosErrorCode_def)
  show "enum_class.enum_all P \<longleftrightarrow> Ball UNIV P" for P :: "DbosErrorCode \<Rightarrow> bool"
    using all by (auto simp: enum_all_DbosErrorCode_def list_all_iff)
  show "enum_class.enum_ex P \<longleftrightarrow> Bex UNIV P" for P :: "DbosErrorCode \<Rightarrow> bool"
    using all by (auto simp: enum_ex_DbosErrorCode_def list_ex_iff)
qed

end

text \<open>The wire codes: consecutive from zero, so no two kinds share one.\<close>

lemma error_codes: "map as_i32 enum_class.enum = map int [0..<18]"
  by (simp add: enum_DbosErrorCode_def upt_rec)

lemma as_i32_inject: "as_i32 c = as_i32 d \<longleftrightarrow> c = d"
proof -
  have "distinct (map as_i32 enum_class.enum)" by (simp only: error_codes) (simp add: distinct_map)
  then have "inj_on as_i32 UNIV" by (simp add: distinct_map enum_UNIV)
  then show ?thesis by (rule inj_eq)
qed

record ErrorContext =
  ec_workflow_id :: "string option"
  ec_destination_id :: "string option"
  ec_step_name :: "string option"
  ec_queue_name :: "string option"
  ec_deduplication_id :: "string option"
  ec_step_id :: "int option"
  ec_expected_name :: "string option"
  ec_recorded_name :: "string option"
  ec_max_retries :: "int option"

definition default_context :: ErrorContext where
  "default_context = \<lparr>ec_workflow_id = None, ec_destination_id = None, ec_step_name = None,
     ec_queue_name = None, ec_deduplication_id = None, ec_step_id = None,
     ec_expected_name = None, ec_recorded_name = None, ec_max_retries = None\<rparr>"

text \<open>
  The underlying error of a wrapped failure. A database error carries the SQLSTATE that Postgres
  reports, if any, and its text; every other sqlx error has no SQLSTATE.
\<close>

datatype sqlx_error = Database "string option" string | OtherSqlx string

datatype source_error = SqlxSource sqlx_error | SerdeSource string | Base64Source string

record DbosError =
  err_code :: DbosErrorCode
  err_message :: string
  err_context :: "ErrorContext option"
  err_source :: "source_error option"

definition new_error :: "DbosErrorCode \<Rightarrow> string \<Rightarrow> DbosError" where
  "new_error code message =
     \<lparr>err_code = code, err_message = message, err_context = None, err_source = None\<rparr>"

text \<open>Writing through \<open>e.ctx()\<close> creates the context on first use.\<close>

definition ctx :: "(ErrorContext \<Rightarrow> ErrorContext) \<Rightarrow> DbosError \<Rightarrow> DbosError" where
  "ctx f e = e\<lparr>err_context := Some (f (unwrap_or (err_context e) default_context))\<rparr>"

definition code :: "DbosError \<Rightarrow> int" where
  "code e = as_i32 (err_code e)"

definition is_error :: "DbosError \<Rightarrow> DbosErrorCode \<Rightarrow> bool" where
  "is_error e c \<longleftrightarrow> c \<noteq> Unspecified \<and> err_code e = c"

definition is_code :: "DbosError \<Rightarrow> int \<Rightarrow> bool" where
  "is_code e c \<longleftrightarrow> c \<noteq> 0 \<and> as_i32 (err_code e) = c"

definition with_source :: "source_error \<Rightarrow> DbosError \<Rightarrow> DbosError" where
  "with_source src e = e\<lparr>err_source := Some src\<rparr>"

subsection \<open>SQLSTATE classifiers\<close>

fun sqlstate :: "sqlx_error \<Rightarrow> string option" where
  "sqlstate (Database st _) = st"
| "sqlstate (OtherSqlx _) = None"

definition is_unique_violation :: "sqlx_error \<Rightarrow> bool" where
  "is_unique_violation e \<longleftrightarrow> sqlstate e = Some ''23505''"

definition is_foreign_key_violation :: "sqlx_error \<Rightarrow> bool" where
  "is_foreign_key_violation e \<longleftrightarrow> sqlstate e = Some ''23503''"

definition is_contention :: "sqlx_error \<Rightarrow> bool" where
  "is_contention e \<longleftrightarrow> sqlstate e = Some ''40001'' \<or> sqlstate e = Some ''40P01''"

definition is_lock_not_available :: "sqlx_error \<Rightarrow> bool" where
  "is_lock_not_available e \<longleftrightarrow> sqlstate e = Some ''55P03''"

definition source_sqlx :: "DbosError \<Rightarrow> sqlx_error option" where
  "source_sqlx e = (case err_source e of Some (SqlxSource s) \<Rightarrow> Some s | _ \<Rightarrow> None)"

definition is_db_contention :: "DbosError \<Rightarrow> bool" where
  "is_db_contention e =
     (case source_sqlx e of None \<Rightarrow> False | Some s \<Rightarrow> is_contention s \<or> is_lock_not_available s)"

definition is_db_unique_violation :: "DbosError \<Rightarrow> bool" where
  "is_db_unique_violation e =
     (case source_sqlx e of None \<Rightarrow> False | Some s \<Rightarrow> is_unique_violation s)"

text \<open>Display of a sqlx error, as the crate's documentation of \<open>sqlx::Error\<close> gives it.\<close>

fun sqlx_display :: "sqlx_error \<Rightarrow> string" where
  "sqlx_display (Database _ m) = ''error returned from database: '' @ m"
| "sqlx_display (OtherSqlx m) = m"

text \<open>The accessors of the context.\<close>

definition err_workflow_id :: "DbosError \<Rightarrow> string option" where
  "err_workflow_id e = Option.bind (err_context e) ec_workflow_id"

definition err_destination_id :: "DbosError \<Rightarrow> string option" where
  "err_destination_id e = Option.bind (err_context e) ec_destination_id"

definition err_step_name :: "DbosError \<Rightarrow> string option" where
  "err_step_name e = Option.bind (err_context e) ec_step_name"

definition err_queue_name :: "DbosError \<Rightarrow> string option" where
  "err_queue_name e = Option.bind (err_context e) ec_queue_name"

definition err_deduplication_id :: "DbosError \<Rightarrow> string option" where
  "err_deduplication_id e = Option.bind (err_context e) ec_deduplication_id"

definition err_step_id :: "DbosError \<Rightarrow> int option" where
  "err_step_id e = Option.bind (err_context e) ec_step_id"

definition err_expected_name :: "DbosError \<Rightarrow> string option" where
  "err_expected_name e = Option.bind (err_context e) ec_expected_name"

definition err_recorded_name :: "DbosError \<Rightarrow> string option" where
  "err_recorded_name e = Option.bind (err_context e) ec_recorded_name"

definition err_max_retries :: "DbosError \<Rightarrow> int option" where
  "err_max_retries e = Option.bind (err_context e) ec_max_retries"

definition from_sqlx :: "sqlx_error \<Rightarrow> DbosError" where
  "from_sqlx e =
     with_source (SqlxSource e) (new_error Unspecified (''database error: '' @ sqlx_display e))"

definition from_serde :: "string \<Rightarrow> DbosError" where
  "from_serde e =
     with_source (SerdeSource e) (new_error Unspecified (''serialization error: '' @ e))"

definition from_base64 :: "string \<Rightarrow> DbosError" where
  "from_base64 e =
     with_source (Base64Source e) (new_error Unspecified (''base64 decode error: '' @ e))"

subsection \<open>Constructors\<close>

definition conflicting_id :: "string \<Rightarrow> DbosError" where
  "conflicting_id w =
     ctx (ec_workflow_id_update (\<lambda>_. Some w))
       (new_error ConflictingId (''Conflicting workflow ID '' @ w))"

definition initialization :: "string \<Rightarrow> DbosError" where
  "initialization m = new_error Initialization (''Error initializing DBOS Transact: '' @ m)"

definition non_existent_workflow :: "string \<Rightarrow> DbosError" where
  "non_existent_workflow w =
     ctx (ec_destination_id_update (\<lambda>_. Some w))
       (new_error NonExistentWorkflow (''workflow '' @ w @ '' does not exist''))"

definition conflicting_workflow :: "string \<Rightarrow> string \<Rightarrow> DbosError" where
  "conflicting_workflow w detail =
     (let message = ''Conflicting workflow invocation with the same ID ('' @ w @ '')'' @
                    (if detail \<noteq> [] then '': '' @ detail else [])
      in ctx (ec_workflow_id_update (\<lambda>_. Some w)) (new_error ConflictingWorkflow message))"

definition workflow_cancelled :: "string \<Rightarrow> DbosError" where
  "workflow_cancelled w = new_error WorkflowCancelled (''Workflow '' @ w @ '' was cancelled'')"

definition unexpected_step :: "string \<Rightarrow> int \<Rightarrow> string \<Rightarrow> string \<Rightarrow> DbosError" where
  "unexpected_step w step_id expected recorded =
     ctx (\<lambda>c. c\<lparr>ec_workflow_id := Some w, ec_step_id := Some step_id,
               ec_expected_name := Some expected, ec_recorded_name := Some recorded\<rparr>)
       (new_error UnexpectedStep
         (''During execution of workflow '' @ w @ '' step '' @ show_int step_id @
          '', function '' @ recorded @ '' was recorded when '' @ expected @
          '' was expected. Check that your workflow is deterministic.''))"

definition awaited_workflow_cancelled :: "string \<Rightarrow> DbosError" where
  "awaited_workflow_cancelled w =
     ctx (ec_workflow_id_update (\<lambda>_. Some w))
       (new_error AwaitedWorkflowCancelled (''Awaited workflow '' @ w @ '' was cancelled''))"

definition conflicting_registration :: "string \<Rightarrow> DbosError" where
  "conflicting_registration name =
     new_error ConflictingRegistration (name @ '' is already registered'')"

definition workflow_unexpected_result_type :: "string \<Rightarrow> string \<Rightarrow> string \<Rightarrow> DbosError" where
  "workflow_unexpected_result_type w expected actual =
     ctx (ec_workflow_id_update (\<lambda>_. Some w))
       (new_error WorkflowUnexpectedType
         (''Workflow '' @ w @ '' returned unexpected result type: expected '' @ expected @
          '', got '' @ actual))"

definition workflow_unexpected_input_type :: "string \<Rightarrow> string \<Rightarrow> string \<Rightarrow> DbosError" where
  "workflow_unexpected_input_type name expected actual =
     new_error WorkflowUnexpectedType
       (''Workflow '' @ name @ '' received unexpected input type: expected '' @ expected @
        '', got '' @ actual)"

definition workflow_execution :: "string \<Rightarrow> string \<Rightarrow> DbosError" where
  "workflow_execution w err =
     ctx (ec_workflow_id_update (\<lambda>_. Some w))
       (new_error WorkflowExecution (''Workflow '' @ w @ '' execution error: '' @ err))"

definition step_execution :: "string \<Rightarrow> string \<Rightarrow> string \<Rightarrow> DbosError" where
  "step_execution w step err =
     ctx (\<lambda>c. c\<lparr>ec_workflow_id := Some w, ec_step_name := Some step\<rparr>)
       (new_error StepExecution
         (''Step '' @ step @ '' in workflow '' @ w @ '' execution error: '' @ err))"

definition dead_letter_queue :: "string \<Rightarrow> int \<Rightarrow> DbosError" where
  "dead_letter_queue w max_retries =
     ctx (\<lambda>c. c\<lparr>ec_workflow_id := Some w, ec_max_retries := Some max_retries\<rparr>)
       (new_error DeadLetterQueue
         (''Workflow '' @ w @ '' has been moved to the dead-letter queue after exceeding the '' @
          ''maximum of '' @ show_int max_retries @ '' retries''))"

definition max_step_retries_exceeded :: "string \<Rightarrow> string \<Rightarrow> int \<Rightarrow> string \<Rightarrow> DbosError" where
  "max_step_retries_exceeded w step max_retries err =
     ctx (\<lambda>c. c\<lparr>ec_workflow_id := Some w, ec_step_name := Some step,
               ec_max_retries := Some max_retries\<rparr>)
       (new_error MaxStepRetriesExceeded
         (''Step '' @ step @ '' has exceeded its maximum of '' @ show_int max_retries @
          '' retries: '' @ err))"

definition awaited_max_step_retries :: "string \<Rightarrow> DbosError" where
  "awaited_max_step_retries w =
     ctx (ec_workflow_id_update (\<lambda>_. Some w))
       (new_error MaxStepRetriesExceeded
         (''Awaited workflow '' @ w @ '' has exceeded the maximum number of step retries''))"

definition queue_deduplicated :: "string \<Rightarrow> string \<Rightarrow> string \<Rightarrow> DbosError" where
  "queue_deduplicated w queue dedup =
     ctx (\<lambda>c. c\<lparr>ec_workflow_id := Some w, ec_queue_name := Some queue,
               ec_deduplication_id := Some dedup\<rparr>)
       (new_error QueueDeduplicated
         (''Workflow '' @ w @ '' was deduplicated due to an existing workflow in queue '' @ queue @
          '' with deduplication ID '' @ dedup))"

definition patching_not_enabled :: DbosError where
  "patching_not_enabled =
     new_error PatchingNotEnabled
       (''Patching system is not enabled. Set EnablePatching to true in the DBOS context '' @
        ''configuration to use Patch and DeprecatePatch'')"

definition no_application_versions :: DbosError where
  "no_application_versions =
     new_error NoApplicationVersions ''No application versions are registered''"

definition timeout :: "string \<Rightarrow> string \<Rightarrow> string \<Rightarrow> DbosError" where
  "timeout w step extra =
     (let msg0 = (if step = [] then ''Operation timed out'' else ''Step '' @ step @ '' timed out'');
          msg1 = (if w \<noteq> [] then msg0 @ '' in workflow '' @ w else msg0);
          msg2 = (if extra \<noteq> [] then msg1 @ '': '' @ extra else msg1);
          e0 = new_error Timeout msg2;
          e1 = (if w \<noteq> [] then ctx (ec_workflow_id_update (\<lambda>_. Some w)) e0 else e0)
      in if step \<noteq> [] then ctx (ec_step_name_update (\<lambda>_. Some step)) e1 else e1)"

definition other :: "string \<Rightarrow> DbosError" where
  "other m = new_error Unspecified m"

definition display :: "DbosError \<Rightarrow> string" where
  "display e =
     (if err_code e = Unspecified then err_message e
      else ''DBOS Error '' @ show_int (as_i32 (err_code e)) @ '': '' @ err_message e)"

subsection \<open>Facts about codes and classifiers\<close>

lemma as_i32_range: "0 \<le> as_i32 c \<and> as_i32 c \<le> 17"
proof -
  have "as_i32 c \<in> set (map as_i32 enum_class.enum)" by (simp add: enum_UNIV)
  then show ?thesis by (simp only: error_codes) auto
qed

lemma as_i32_eq_0: "as_i32 c = 0 \<longleftrightarrow> c = Unspecified"
  by (cases c) simp_all

lemma err_code_ctx [simp]: "err_code (ctx f e) = err_code e"
  and err_message_ctx [simp]: "err_message (ctx f e) = err_message e"
  and err_source_ctx [simp]: "err_source (ctx f e) = err_source e"
  by (simp_all add: ctx_def)

lemma new_error_simps [simp]:
  "err_code (new_error c m) = c" "err_message (new_error c m) = m"
  "err_context (new_error c m) = None" "err_source (new_error c m) = None"
  by (simp_all add: new_error_def)

lemma with_source_simps [simp]:
  "err_code (with_source s e) = err_code e" "err_message (with_source s e) = err_message e"
  "err_source (with_source s e) = Some s"
  by (simp_all add: with_source_def)

lemmas error_constructor_defs =
  conflicting_id_def initialization_def non_existent_workflow_def conflicting_workflow_def
  workflow_cancelled_def unexpected_step_def awaited_workflow_cancelled_def
  conflicting_registration_def workflow_unexpected_result_type_def
  workflow_unexpected_input_type_def workflow_execution_def step_execution_def
  dead_letter_queue_def max_step_retries_exceeded_def awaited_max_step_retries_def
  queue_deduplicated_def patching_not_enabled_def no_application_versions_def timeout_def
  other_def

lemma other_simps [simp]:
  "err_code (other m) = Unspecified" "err_message (other m) = m"
  "err_context (other m) = None" "err_source (other m) = None"
  by (simp_all add: other_def)

lemma constructor_codes [simp]:
  "err_code (conflicting_id w) = ConflictingId"
  "err_code (non_existent_workflow w) = NonExistentWorkflow"
  "err_code (conflicting_workflow w d) = ConflictingWorkflow"
  "err_code (workflow_cancelled w) = WorkflowCancelled"
  "err_code (unexpected_step w i n r) = UnexpectedStep"
  "err_code (step_execution w st d) = StepExecution"
  "err_code (dead_letter_queue w k) = DeadLetterQueue"
  "err_code (max_step_retries_exceeded w st k d) = MaxStepRetriesExceeded"
  "err_code (queue_deduplicated w q d) = QueueDeduplicated"
  "err_code (awaited_workflow_cancelled w) = AwaitedWorkflowCancelled"
  "err_code (from_sqlx e) = Unspecified"
  by (simp_all add: error_constructor_defs from_sqlx_def Let_def)

lemma display_other [simp]: "display (other m) = m"
  by (simp add: display_def)

lemma source_sqlx_from_sqlx [simp]: "source_sqlx (from_sqlx e) = Some e"
  by (simp add: source_sqlx_def from_sqlx_def)

lemma is_db_unique_violation_from_sqlx [simp]:
  "is_db_unique_violation (from_sqlx e) = is_unique_violation e"
  by (simp add: is_db_unique_violation_def)

lemma coded_error_no_sqlx [simp]:
  "is_db_unique_violation (conflicting_workflow w d) = False"
  by (simp add: is_db_unique_violation_def source_sqlx_def conflicting_workflow_def Let_def)

lemma plain_error_eq_other:
  "err_code e = Unspecified \<Longrightarrow> err_context e = None \<Longrightarrow> err_source e = None \<Longrightarrow>
   other (display e) = e"
  by (simp add: display_def other_def new_error_def)

text \<open>
  Matching an error by code and by number agree, and neither ever matches an uncoded error.
\<close>

lemma is_code_iff_is_error: "is_code e (as_i32 c) \<longleftrightarrow> is_error e c"
  by (auto simp: is_code_def is_error_def as_i32_inject as_i32_eq_0)

end
