(* ===== verification/Dbos_Schema.thy ===== *)
theory Dbos_Schema
  imports Dbos_Error
begin

text \<open>
  The system database: one record per table of the schema that
  \<open>crates/dbos/migrations\<close> installs, the rows the Rust code reads and writes, and the
  constraints Postgres enforces on them (primary keys, the partial unique index on
  \<open>(queue_name, deduplication_id)\<close>, foreign keys into \<open>workflow_status\<close>). The invariant
  \<open>db_wf\<close> collects the constraints; the lemmas say which shapes of statement keep it.

  Columns that every INSERT of the crate fills and no UPDATE sets to NULL
  (\<open>status\<close>, \<open>name\<close>, \<open>recovery_attempts\<close> and the NOT NULL columns) are not optional here.
  BIGINT and INTEGER columns are integers. Row order in a list is not observable to the
  statements except where SQL leaves ties unspecified.
\<close>

subsection \<open>Tables\<close>

record workflow_row =
  ws_workflow_uuid :: string
  ws_status :: string
  ws_name :: string
  ws_queue_name :: "string option"
  ws_authenticated_user :: "string option"
  ws_assumed_role :: "string option"
  ws_authenticated_roles :: "string option"
  ws_executor_id :: "string option"
  ws_application_version :: "string option"
  ws_application_id :: "string option"
  ws_created_at :: int
  ws_updated_at :: int
  ws_recovery_attempts :: int
  ws_workflow_timeout_ms :: "int option"
  ws_workflow_deadline_epoch_ms :: "int option"
  ws_inputs :: "string option"
  ws_output :: "string option"
  ws_error :: "string option"
  ws_started_at_epoch_ms :: "int option"
  ws_completed_at :: "int option"
  ws_deduplication_id :: "string option"
  ws_priority :: int
  ws_queue_partition_key :: "string option"
  ws_owner_xid :: "string option"
  ws_parent_workflow_id :: "string option"
  ws_class_name :: "string option"
  ws_config_name :: "string option"
  ws_serialization :: "string option"
  ws_delay_until_epoch_ms :: "int option"
  ws_rate_limited :: bool
  ws_forked_from :: "string option"
  ws_was_forked_from :: bool

record operation_row =
  oo_workflow_uuid :: string
  oo_function_id :: int
  oo_function_name :: string
  oo_output :: "string option"
  oo_error :: "string option"
  oo_child_workflow_id :: "string option"
  oo_started_at_epoch_ms :: "int option"
  oo_completed_at_epoch_ms :: "int option"
  oo_serialization :: "string option"

record notification_row =
  nt_destination_uuid :: string
  nt_topic :: string
  nt_message :: string
  nt_serialization :: "string option"
  nt_message_uuid :: string
  nt_created_at_epoch_ms :: int
  nt_consumed :: bool

record event_row =
  ev_workflow_uuid :: string
  ev_key :: string
  ev_value :: string
  ev_serialization :: "string option"

record event_history_row =
  eh_workflow_uuid :: string
  eh_function_id :: int
  eh_key :: string
  eh_value :: string
  eh_serialization :: "string option"

record stream_row =
  st_workflow_uuid :: string
  st_key :: string
  st_value :: string
  st_offset :: int
  st_function_id :: int
  st_serialization :: "string option"

record sysdb =
  workflow_status :: "workflow_row list"
  operation_outputs :: "operation_row list"
  notifications :: "notification_row list"
  workflow_events :: "event_row list"
  workflow_events_history :: "event_history_row list"
  streams :: "stream_row list"

type_synonym 'a db_op = "(sysdb, DbosError, 'a) eff"

definition empty_db :: sysdb where
  "empty_db = \<lparr>workflow_status = [], operation_outputs = [], notifications = [],
     workflow_events = [], workflow_events_history = [], streams = []\<rparr>"

subsection \<open>Keys and constraints\<close>

abbreviation op_key :: "operation_row \<Rightarrow> string \<times> int" where
  "op_key r \<equiv> (oo_workflow_uuid r, oo_function_id r)"

abbreviation event_key :: "event_row \<Rightarrow> string \<times> string" where
  "event_key r \<equiv> (ev_workflow_uuid r, ev_key r)"

abbreviation history_key :: "event_history_row \<Rightarrow> string \<times> int \<times> string" where
  "history_key r \<equiv> (eh_workflow_uuid r, eh_function_id r, eh_key r)"

abbreviation stream_key :: "stream_row \<Rightarrow> string \<times> string \<times> int" where
  "stream_key r \<equiv> (st_workflow_uuid r, st_key r, st_offset r)"

definition find_workflow :: "sysdb \<Rightarrow> string \<Rightarrow> workflow_row option" where
  "find_workflow db w = find_key ws_workflow_uuid w (workflow_status db)"

definition find_operation :: "sysdb \<Rightarrow> string \<Rightarrow> int \<Rightarrow> operation_row option" where
  "find_operation db w fid = find_key op_key (w, fid) (operation_outputs db)"

definition find_event :: "sysdb \<Rightarrow> string \<Rightarrow> string \<Rightarrow> event_row option" where
  "find_event db w k = find_key event_key (w, k) (workflow_events db)"

definition workflow_exists :: "sysdb \<Rightarrow> string \<Rightarrow> bool" where
  "workflow_exists db w \<longleftrightarrow> find_workflow db w \<noteq> None"

text \<open>
  The entry of a row in the partial unique index \<open>uq_workflow_status_dedup_id\<close>: only rows with
  a deduplication id are indexed, and NULL queue names never collide.
\<close>

definition dedup_entry :: "workflow_row \<Rightarrow> (string \<times> string) option" where
  "dedup_entry r = (case (ws_queue_name r, ws_deduplication_id r) of
       (Some q, Some d) \<Rightarrow> Some (q, d) | _ \<Rightarrow> None)"

definition dedup_index :: "workflow_row list \<Rightarrow> (string \<times> string) list" where
  "dedup_index t = List.map_filter dedup_entry t"

definition unique_violation :: "string \<Rightarrow> sqlx_error" where
  "unique_violation constraint =
     Database (Some ''23505'') (''duplicate key value violates unique constraint '' @ constraint)"

definition foreign_key_violation :: "string \<Rightarrow> sqlx_error" where
  "foreign_key_violation constraint =
     Database (Some ''23503'') (''insert or update violates foreign key constraint '' @ constraint)"

lemma violation_classes [simp]:
  "is_unique_violation (unique_violation c)" "\<not> is_foreign_key_violation (unique_violation c)"
  "is_foreign_key_violation (foreign_key_violation c)"
  "\<not> is_unique_violation (foreign_key_violation c)"
  by (simp_all add: is_unique_violation_def is_foreign_key_violation_def unique_violation_def
      foreign_key_violation_def)

subsection \<open>The constraint invariant\<close>

definition uuids :: "sysdb \<Rightarrow> string set" where
  "uuids db = ws_workflow_uuid ` set (workflow_status db)"

definition refs_ok :: "string set \<Rightarrow> sysdb \<Rightarrow> bool" where
  "refs_ok U db \<longleftrightarrow>
     oo_workflow_uuid ` set (operation_outputs db) \<subseteq> U \<and>
     nt_destination_uuid ` set (notifications db) \<subseteq> U \<and>
     ev_workflow_uuid ` set (workflow_events db) \<subseteq> U \<and>
     eh_workflow_uuid ` set (workflow_events_history db) \<subseteq> U \<and>
     st_workflow_uuid ` set (streams db) \<subseteq> U"

definition keys_ok :: "sysdb \<Rightarrow> bool" where
  "keys_ok db \<longleftrightarrow>
     distinct (map op_key (operation_outputs db)) \<and>
     distinct (map nt_message_uuid (notifications db)) \<and>
     distinct (map event_key (workflow_events db)) \<and>
     distinct (map history_key (workflow_events_history db)) \<and>
     distinct (map stream_key (streams db))"

definition workflows_ok :: "workflow_row list \<Rightarrow> bool" where
  "workflows_ok t \<longleftrightarrow> distinct (map ws_workflow_uuid t) \<and> distinct (dedup_index t)"

definition db_wf :: "sysdb \<Rightarrow> bool" where
  "db_wf db \<longleftrightarrow> workflows_ok (workflow_status db) \<and> keys_ok db \<and> refs_ok (uuids db) db"

lemma db_wf_empty [simp]: "db_wf empty_db"
  by (simp add: db_wf_def workflows_ok_def keys_ok_def refs_ok_def uuids_def empty_db_def
      dedup_index_def map_filter_simps)

lemma workflow_exists_iff: "workflow_exists db w \<longleftrightarrow> w \<in> uuids db"
  by (auto simp: workflow_exists_def find_workflow_def uuids_def find_key_None)

lemma dedup_index_simps [simp]:
  "dedup_index [] = []"
  "dedup_index (r # t) = (case dedup_entry r of None \<Rightarrow> dedup_index t | Some p \<Rightarrow> p # dedup_index t)"
  "dedup_index (t @ u) = dedup_index t @ dedup_index u"
  by (simp_all add: dedup_index_def map_filter_def split: option.splits)

lemma set_dedup_index: "set (dedup_index t) = {p. \<exists>r \<in> set t. dedup_entry r = Some p}"
  by (induction t) (auto split: option.splits)

text \<open>
  An UPDATE keeps the constraints of \<open>workflow_status\<close> when it keeps the primary key and either
  leaves a row's entry in the deduplication index alone or removes it.
\<close>

lemma dedup_index_update:
  assumes "\<And>r. P r \<Longrightarrow> dedup_entry (f r) = None \<or> dedup_entry (f r) = dedup_entry r"
  shows "set (dedup_index (sql_update P f t)) \<subseteq> set (dedup_index t)
    \<and> (distinct (dedup_index t) \<longrightarrow> distinct (dedup_index (sql_update P f t)))"
proof (induction t)
  case Nil
  then show ?case by simp
next
  case (Cons r t)
  show ?case
  proof (cases "P r")
    case True
    with assms [of r] Cons show ?thesis by (auto split: option.splits)
  next
    case False
    with Cons show ?thesis by (auto split: option.splits)
  qed
qed

lemma workflows_ok_update:
  assumes "workflows_ok t"
    and "\<And>r. P r \<Longrightarrow> ws_workflow_uuid (f r) = ws_workflow_uuid r"
    and "\<And>r. P r \<Longrightarrow> dedup_entry (f r) = None \<or> dedup_entry (f r) = dedup_entry r"
  shows "workflows_ok (sql_update P f t)"
  using assms dedup_index_update [of P f t]
  by (auto simp: workflows_ok_def distinct_map_sql_update)

lemma uuids_update:
  assumes "\<And>r. P r \<Longrightarrow> ws_workflow_uuid (f r) = ws_workflow_uuid r"
  shows "uuids (db\<lparr>workflow_status := sql_update P f (workflow_status db)\<rparr>) = uuids db"
proof -
  have "map ws_workflow_uuid (sql_update P f (workflow_status db)) =
        map ws_workflow_uuid (workflow_status db)"
    by (rule map_sql_update) (rule assms)
  then show ?thesis by (simp add: uuids_def) (metis set_map)
qed

lemma refs_ok_frame [simp]: "refs_ok U (db\<lparr>workflow_status := t\<rparr>) = refs_ok U db"
  by (simp add: refs_ok_def)

lemma keys_ok_frame [simp]: "keys_ok (db\<lparr>workflow_status := t\<rparr>) = keys_ok db"
  by (simp add: keys_ok_def)

lemma refs_ok_mono: "refs_ok U db \<Longrightarrow> U \<subseteq> V \<Longrightarrow> refs_ok V db"
  by (auto simp: refs_ok_def)

lemma db_wf_update_workflows:
  assumes "db_wf db"
    and "\<And>r. P r \<Longrightarrow> ws_workflow_uuid (f r) = ws_workflow_uuid r"
    and "\<And>r. P r \<Longrightarrow> dedup_entry (f r) = None \<or> dedup_entry (f r) = dedup_entry r"
  shows "db_wf (db\<lparr>workflow_status := sql_update P f (workflow_status db)\<rparr>)"
  using assms uuids_update [of P f db] workflows_ok_update [of "workflow_status db" P f]
  by (simp add: db_wf_def)

text \<open>An INSERT keeps them when the key is new and the index has no equal entry.\<close>

lemma db_wf_insert_workflow:
  assumes "db_wf db" and "ws_workflow_uuid r \<notin> uuids db"
    and "\<And>p. dedup_entry r = Some p \<Longrightarrow> p \<notin> set (dedup_index (workflow_status db))"
  shows "db_wf (db\<lparr>workflow_status := workflow_status db @ [r]\<rparr>)"
proof -
  have "uuids (db\<lparr>workflow_status := workflow_status db @ [r]\<rparr>) =
        insert (ws_workflow_uuid r) (uuids db)"
    by (auto simp: uuids_def)
  moreover have "workflows_ok (workflow_status db @ [r])"
    using assms by (auto simp: db_wf_def workflows_ok_def uuids_def split: option.splits)
  ultimately show ?thesis
    using assms by (auto simp: db_wf_def intro: refs_ok_mono)
qed

subsection \<open>Deletion with cascades\<close>

text \<open>
  \<open>DELETE FROM workflow_status\<close>: every child table references it with ON DELETE CASCADE.
\<close>

definition cascade_delete :: "(workflow_row \<Rightarrow> bool) \<Rightarrow> sysdb \<Rightarrow> sysdb" where
  "cascade_delete P db =
     (let keep = sql_delete P (workflow_status db);
          live = (\<lambda>w. w \<in> ws_workflow_uuid ` set keep)
      in \<lparr>workflow_status = keep,
          operation_outputs = filter (\<lambda>r. live (oo_workflow_uuid r)) (operation_outputs db),
          notifications = filter (\<lambda>r. live (nt_destination_uuid r)) (notifications db),
          workflow_events = filter (\<lambda>r. live (ev_workflow_uuid r)) (workflow_events db),
          workflow_events_history =
            filter (\<lambda>r. live (eh_workflow_uuid r)) (workflow_events_history db),
          streams = filter (\<lambda>r. live (st_workflow_uuid r)) (streams db)\<rparr>)"

lemma dedup_index_filter:
  "set (dedup_index (filter P t)) \<subseteq> set (dedup_index t)
   \<and> (distinct (dedup_index t) \<longrightarrow> distinct (dedup_index (filter P t)))"
  by (induction t) (auto split: option.splits)

lemma db_wf_cascade_delete: "db_wf db \<Longrightarrow> db_wf (cascade_delete P db)"
  using dedup_index_filter [of "\<lambda>r. \<not> P r" "workflow_status db"]
  by (auto simp: db_wf_def workflows_ok_def keys_ok_def refs_ok_def uuids_def cascade_delete_def
      sql_delete_def Let_def distinct_map_filter)

subsection \<open>Child-table inserts\<close>

lemma db_wf_insert_operation:
  assumes "db_wf db" and "oo_workflow_uuid r \<in> uuids db"
    and "find_operation db (oo_workflow_uuid r) (oo_function_id r) = None"
  shows "db_wf (db\<lparr>operation_outputs := operation_outputs db @ [r]\<rparr>)"
  using assms
  by (auto simp: db_wf_def keys_ok_def refs_ok_def uuids_def find_operation_def find_key_None)

lemma db_wf_insert_notification:
  assumes "db_wf db" and "nt_destination_uuid r \<in> uuids db"
    and "nt_message_uuid r \<notin> nt_message_uuid ` set (notifications db)"
  shows "db_wf (db\<lparr>notifications := notifications db @ [r]\<rparr>)"
  using assms by (auto simp: db_wf_def keys_ok_def refs_ok_def uuids_def)

lemma db_wf_insert_stream:
  assumes "db_wf db" and "st_workflow_uuid r \<in> uuids db"
    and "stream_key r \<notin> stream_key ` set (streams db)"
  shows "db_wf (db\<lparr>streams := streams db @ [r]\<rparr>)"
  using assms by (auto simp: db_wf_def keys_ok_def refs_ok_def uuids_def)

text \<open>Replacing a child table: its own key and the foreign key are all there is to check.\<close>

lemma uuids_frame [simp]:
  "uuids (db\<lparr>operation_outputs := o'\<rparr>) = uuids db"
  "uuids (db\<lparr>notifications := n\<rparr>) = uuids db"
  "uuids (db\<lparr>workflow_events := e\<rparr>) = uuids db"
  "uuids (db\<lparr>workflow_events_history := h\<rparr>) = uuids db"
  "uuids (db\<lparr>streams := s\<rparr>) = uuids db"
  by (simp_all add: uuids_def)

lemma db_wf_replace:
  assumes "db_wf db"
  shows "distinct (map op_key o') \<Longrightarrow> oo_workflow_uuid ` set o' \<subseteq> uuids db \<Longrightarrow>
      db_wf (db\<lparr>operation_outputs := o'\<rparr>)"
    and "distinct (map event_key e) \<Longrightarrow> ev_workflow_uuid ` set e \<subseteq> uuids db \<Longrightarrow>
      db_wf (db\<lparr>workflow_events := e\<rparr>)"
    and "distinct (map history_key h) \<Longrightarrow> eh_workflow_uuid ` set h \<subseteq> uuids db \<Longrightarrow>
      db_wf (db\<lparr>workflow_events_history := h\<rparr>)"
    and "distinct (map stream_key s) \<Longrightarrow> st_workflow_uuid ` set s \<subseteq> uuids db \<Longrightarrow>
      db_wf (db\<lparr>streams := s\<rparr>)"
  using assms by (simp_all add: db_wf_def keys_ok_def refs_ok_def)

lemma db_wf_child_uuids:
  assumes "db_wf db"
  shows "oo_workflow_uuid ` set (operation_outputs db) \<subseteq> uuids db"
    and "ev_workflow_uuid ` set (workflow_events db) \<subseteq> uuids db"
    and "eh_workflow_uuid ` set (workflow_events_history db) \<subseteq> uuids db"
    and "st_workflow_uuid ` set (streams db) \<subseteq> uuids db"
  using assms by (simp_all add: db_wf_def refs_ok_def)

lemma db_wf_distinct_ids: "db_wf db \<Longrightarrow> distinct (map ws_workflow_uuid (workflow_status db))"
  by (simp add: db_wf_def workflows_ok_def)

lemma find_workflow_update:
  assumes "\<And>r. P r \<Longrightarrow> ws_workflow_uuid (f r) = ws_workflow_uuid r"
  shows "find_workflow (db\<lparr>workflow_status := sql_update P f (workflow_status db)\<rparr>) w =
    map_option (\<lambda>r. if P r then f r else r) (find_workflow db w)"
  using assms by (simp add: find_workflow_def find_key_update)

lemma find_workflow_member:
  "db_wf db \<Longrightarrow> r \<in> set (workflow_status db) \<Longrightarrow> find_workflow db (ws_workflow_uuid r) = Some r"
  by (simp add: find_workflow_def find_key_distinct db_wf_distinct_ids)

lemma find_workflow_SomeD:
  "find_workflow db w = Some r \<Longrightarrow> r \<in> set (workflow_status db) \<and> ws_workflow_uuid r = w"
  by (auto simp: find_workflow_def dest: find_key_SomeD)

lemma find_workflow_frame [simp]:
  "find_workflow (db\<lparr>operation_outputs := o'\<rparr>) w = find_workflow db w"
  "find_workflow (db\<lparr>notifications := n\<rparr>) w = find_workflow db w"
  "find_workflow (db\<lparr>workflow_events := e\<rparr>) w = find_workflow db w"
  "find_workflow (db\<lparr>workflow_events_history := h\<rparr>) w = find_workflow db w"
  "find_workflow (db\<lparr>streams := s\<rparr>) w = find_workflow db w"
  by (simp_all add: find_workflow_def)

lemma find_operation_frame [simp]:
  "find_operation (db\<lparr>workflow_status := t\<rparr>) w i = find_operation db w i"
  "find_operation (db\<lparr>notifications := n\<rparr>) w i = find_operation db w i"
  "find_operation (db\<lparr>workflow_events := e\<rparr>) w i = find_operation db w i"
  "find_operation (db\<lparr>workflow_events_history := h\<rparr>) w i = find_operation db w i"
  "find_operation (db\<lparr>streams := s\<rparr>) w i = find_operation db w i"
  by (simp_all add: find_operation_def)

lemma workflow_exists_frame [simp]:
  "workflow_exists (db\<lparr>operation_outputs := o'\<rparr>) w = workflow_exists db w"
  "workflow_exists (db\<lparr>notifications := n\<rparr>) w = workflow_exists db w"
  "workflow_exists (db\<lparr>workflow_events := e\<rparr>) w = workflow_exists db w"
  "workflow_exists (db\<lparr>workflow_events_history := h\<rparr>) w = workflow_exists db w"
  "workflow_exists (db\<lparr>streams := s\<rparr>) w = workflow_exists db w"
  by (simp_all add: workflow_exists_def)

end
