(* ===== verification/Dbos_Status.thy ===== *)
theory Dbos_Status
  imports Dbos_Schema
begin

text \<open>
  \<open>workflow_status\<close> operations of \<open>crates/dbos/src/db/status.rs\<close>: the upsert that starts or
  re-attaches to a workflow (idempotency and dead-letter handling), outcome recording, result
  polling, the list query of crash recovery. Each statement is written over the tables of
  \<open>Dbos_Schema\<close>; the clock is an argument.
\<close>

subsection \<open>Status values\<close>

datatype WorkflowStatusType =
    Pending
  | Enqueued
  | Delayed
  | Success
  | Error
  | Cancelled
  | MaxRecoveryAttemptsExceeded

fun as_str :: "WorkflowStatusType \<Rightarrow> string" where
  "as_str Pending = ''PENDING''"
| "as_str Enqueued = ''ENQUEUED''"
| "as_str Delayed = ''DELAYED''"
| "as_str Success = ''SUCCESS''"
| "as_str Error = ''ERROR''"
| "as_str Cancelled = ''CANCELLED''"
| "as_str MaxRecoveryAttemptsExceeded = ''MAX_RECOVERY_ATTEMPTS_EXCEEDED''"

definition from_str :: "string \<Rightarrow> WorkflowStatusType option" where
  "from_str s =
     (if s = ''PENDING'' then Some Pending
      else if s = ''ENQUEUED'' then Some Enqueued
      else if s = ''DELAYED'' then Some Delayed
      else if s = ''SUCCESS'' then Some Success
      else if s = ''ERROR'' then Some Error
      else if s = ''CANCELLED'' then Some Cancelled
      else if s = ''MAX_RECOVERY_ATTEMPTS_EXCEEDED'' then Some MaxRecoveryAttemptsExceeded
      else None)"

fun is_terminal :: "WorkflowStatusType \<Rightarrow> bool" where
  "is_terminal Success = True"
| "is_terminal Error = True"
| "is_terminal Cancelled = True"
| "is_terminal MaxRecoveryAttemptsExceeded = True"
| "is_terminal Pending = False"
| "is_terminal Enqueued = False"
| "is_terminal Delayed = False"

instantiation WorkflowStatusType :: enum
begin

definition enum_WorkflowStatusType :: "WorkflowStatusType list" where
  "enum_WorkflowStatusType =
     [Pending, Enqueued, Delayed, Success, Error, Cancelled, MaxRecoveryAttemptsExceeded]"

definition enum_all_WorkflowStatusType :: "(WorkflowStatusType \<Rightarrow> bool) \<Rightarrow> bool" where
  "enum_all_WorkflowStatusType P = list_all P enum_class.enum"

definition enum_ex_WorkflowStatusType :: "(WorkflowStatusType \<Rightarrow> bool) \<Rightarrow> bool" where
  "enum_ex_WorkflowStatusType P = list_ex P enum_class.enum"

instance
proof
  have all: "s \<in> set (enum_class.enum :: WorkflowStatusType list)" for s
    by (cases s) (simp_all add: enum_WorkflowStatusType_def)
  then show "(UNIV :: WorkflowStatusType set) = set enum_class.enum" by blast
  show "distinct (enum_class.enum :: WorkflowStatusType list)" by (simp add: enum_WorkflowStatusType_def)
  show "enum_class.enum_all P \<longleftrightarrow> Ball UNIV P" for P :: "WorkflowStatusType \<Rightarrow> bool"
    using all by (auto simp: enum_all_WorkflowStatusType_def list_all_iff)
  show "enum_class.enum_ex P \<longleftrightarrow> Bex UNIV P" for P :: "WorkflowStatusType \<Rightarrow> bool"
    using all by (auto simp: enum_ex_WorkflowStatusType_def list_ex_iff)
qed

end

interpretation status_codec: exact_codec as_str from_str
proof
  show "from_str (as_str s) = Some s" for s
    by (cases s) (simp_all add: from_str_def)
  show "from_str s = Some t \<Longrightarrow> s = as_str t" for s t
    by (auto simp: from_str_def split: if_splits)
qed

lemmas as_str_inject [simp] = status_codec.enc_inject
lemmas from_str_as_str [simp] = status_codec.dec_enc
lemmas from_str_SomeD = status_codec.dec_only
lemmas from_str_iff = status_codec.dec_iff

text \<open>The texts a status column can hold.\<close>

lemma status_texts: "from_str s \<noteq> None \<longleftrightarrow> s \<in> set (map as_str enum_class.enum)"
  using status_codec.dec_defined [of s] by (simp flip: enum_UNIV)

declare as_str.simps [simp del]

lemma as_str_literals [simp]:
  "as_str t = ''PENDING'' \<longleftrightarrow> t = Pending" "as_str t = ''ENQUEUED'' \<longleftrightarrow> t = Enqueued"
  "as_str t = ''DELAYED'' \<longleftrightarrow> t = Delayed" "as_str t = ''SUCCESS'' \<longleftrightarrow> t = Success"
  "as_str t = ''ERROR'' \<longleftrightarrow> t = Error" "as_str t = ''CANCELLED'' \<longleftrightarrow> t = Cancelled"
  by (cases t; simp add: as_str.simps)+

lemma as_str_nonempty [simp]: "as_str t \<noteq> []"
  by (cases t) (simp_all add: as_str.simps)

subsection \<open>Insert or touch a workflow row\<close>

record InsertWorkflowInput =
  in_workflow_id :: string
  in_status :: string
  in_name :: string
  in_queue_name :: "string option"
  in_authenticated_user :: "string option"
  in_assumed_role :: "string option"
  in_authenticated_roles :: "string option"
  in_executor_id :: string
  in_application_version :: "string option"
  in_application_id :: "string option"
  in_created_at :: int
  in_updated_at :: int
  in_recovery_attempts :: int
  in_workflow_timeout_ms :: "int option"
  in_workflow_deadline_epoch_ms :: "int option"
  in_inputs :: "string option"
  in_deduplication_id :: "string option"
  in_priority :: int
  in_queue_partition_key :: "string option"
  in_owner_xid :: string
  in_parent_workflow_id :: "string option"
  in_class_name :: "string option"
  in_config_name :: "string option"
  in_serialization :: "string option"
  in_delay_until_epoch_ms :: "int option"
  in_increment :: int

definition default_insert_input :: InsertWorkflowInput where
  "default_insert_input = \<lparr>in_workflow_id = [], in_status = [], in_name = [],
     in_queue_name = None, in_authenticated_user = None, in_assumed_role = None,
     in_authenticated_roles = None, in_executor_id = [], in_application_version = None,
     in_application_id = None, in_created_at = 0, in_updated_at = 0, in_recovery_attempts = 0,
     in_workflow_timeout_ms = None, in_workflow_deadline_epoch_ms = None, in_inputs = None,
     in_deduplication_id = None, in_priority = 0, in_queue_partition_key = None,
     in_owner_xid = [], in_parent_workflow_id = None, in_class_name = None,
     in_config_name = None, in_serialization = None, in_delay_until_epoch_ms = None,
     in_increment = 0\<rparr>"

record InsertResult =
  ir_recovery_attempts :: int
  ir_status :: string
  ir_name :: string
  ir_queue_name :: "string option"
  ir_owner_xid :: "string option"
  ir_dlq_triggered :: bool

text \<open>The VALUES of the INSERT; columns it does not name take the schema's defaults.\<close>

definition fresh_row :: "InsertWorkflowInput \<Rightarrow> workflow_row" where
  "fresh_row i = \<lparr>ws_workflow_uuid = in_workflow_id i, ws_status = in_status i,
     ws_name = in_name i, ws_queue_name = in_queue_name i,
     ws_authenticated_user = in_authenticated_user i, ws_assumed_role = in_assumed_role i,
     ws_authenticated_roles = in_authenticated_roles i, ws_executor_id = Some (in_executor_id i),
     ws_application_version = in_application_version i, ws_application_id = in_application_id i,
     ws_created_at = in_created_at i, ws_updated_at = in_updated_at i,
     ws_recovery_attempts = in_recovery_attempts i,
     ws_workflow_timeout_ms = in_workflow_timeout_ms i,
     ws_workflow_deadline_epoch_ms = in_workflow_deadline_epoch_ms i, ws_inputs = in_inputs i,
     ws_output = None, ws_error = None, ws_started_at_epoch_ms = None, ws_completed_at = None,
     ws_deduplication_id = in_deduplication_id i, ws_priority = in_priority i,
     ws_queue_partition_key = in_queue_partition_key i, ws_owner_xid = Some (in_owner_xid i),
     ws_parent_workflow_id = in_parent_workflow_id i, ws_class_name = in_class_name i,
     ws_config_name = in_config_name i, ws_serialization = in_serialization i,
     ws_delay_until_epoch_ms = in_delay_until_epoch_ms i, ws_rate_limited = False,
     ws_forked_from = None, ws_was_forked_from = False\<rparr>"

text \<open>The DO UPDATE SET of the ON CONFLICT clause.\<close>

definition on_conflict_row :: "InsertWorkflowInput \<Rightarrow> workflow_row \<Rightarrow> workflow_row" where
  "on_conflict_row i r =
     (let queued = in_status i \<in> {as_str Enqueued, as_str Delayed}
      in r\<lparr>ws_recovery_attempts :=
             (if \<not> queued then ws_recovery_attempts r + in_increment i
              else ws_recovery_attempts r),
           ws_updated_at := in_updated_at i,
           ws_executor_id := (if queued then ws_executor_id r else Some (in_executor_id i))\<rparr>)"

text \<open>
  The upsert with its RETURNING row. The arbiter index is the primary key: the deduplication
  index is consulted only when a row is really inserted.
\<close>

definition upsert_workflow :: "InsertWorkflowInput \<Rightarrow> sysdb \<Rightarrow> sqlx_error + workflow_row \<times> sysdb" where
  "upsert_workflow i db =
     (case find_workflow db (in_workflow_id i) of
        Some r \<Rightarrow>
          Inr (on_conflict_row i r,
               db\<lparr>workflow_status :=
                    sql_update (\<lambda>r. ws_workflow_uuid r = in_workflow_id i) (on_conflict_row i)
                      (workflow_status db)\<rparr>)
      | None \<Rightarrow>
          (let r = fresh_row i
           in if (case dedup_entry r of None \<Rightarrow> False
                  | Some p \<Rightarrow> p \<in> set (dedup_index (workflow_status db)))
              then Inl (unique_violation ''uq_workflow_status_dedup_id'')
              else Inr (r, db\<lparr>workflow_status := workflow_status db @ [r]\<rparr>)))"

definition dlq_update :: "string \<Rightarrow> sysdb \<Rightarrow> sysdb" where
  "dlq_update w db =
     db\<lparr>workflow_status :=
          sql_update (\<lambda>r. ws_workflow_uuid r = w \<and> ws_status r = as_str Pending)
            (\<lambda>r. r\<lparr>ws_status := as_str MaxRecoveryAttemptsExceeded, ws_deduplication_id := None,
                   ws_started_at_epoch_ms := None, ws_queue_name := None\<rparr>)
            (workflow_status db)\<rparr>"

definition dead_letter :: "string \<Rightarrow> int \<Rightarrow> int \<Rightarrow> bool" where
  "dead_letter status attempts max_retries \<longleftrightarrow>
     status \<noteq> as_str Success \<and> status \<noteq> as_str Error \<and>
     max_retries > 0 \<and> attempts > max_retries + 1"

text \<open>The tail of the function: the dead-letter check and the result.\<close>

definition finish_insert :: "InsertWorkflowInput \<Rightarrow> int \<Rightarrow> workflow_row \<Rightarrow> InsertResult db_op" where
  "finish_insert i max_retries row db =
     (let dlq = dead_letter (ws_status row) (ws_recovery_attempts row) max_retries
      in (Inr \<lparr>ir_recovery_attempts = ws_recovery_attempts row, ir_status = ws_status row,
               ir_name = ws_name row, ir_queue_name = ws_queue_name row,
               ir_owner_xid = ws_owner_xid row, ir_dlq_triggered = dlq\<rparr>,
          if dlq then dlq_update (in_workflow_id i) db else db))"

definition insert_workflow_status :: "InsertWorkflowInput \<Rightarrow> int \<Rightarrow> InsertResult db_op" where
  "insert_workflow_status i max_retries db =
     (case upsert_workflow i db of
        Inl e \<Rightarrow> (Inl (from_sqlx e), db)
      | Inr (row, db1) \<Rightarrow>
          if in_name i \<noteq> [] \<and> ws_name row \<noteq> in_name i then
            (Inl (conflicting_workflow (in_workflow_id i)
               (''it already exists with a different name ('' @ ws_name row @ '')'')), db1)
          else (case (in_queue_name i, ws_queue_name row) of
            (Some want, Some have) \<Rightarrow>
              if want \<noteq> have then
                (Inl (conflicting_workflow (in_workflow_id i)
                   (''it already exists in a different queue ('' @ have @ '')'')), db1)
              else finish_insert i max_retries row db1
          | _ \<Rightarrow> finish_insert i max_retries row db1))"

subsection \<open>Outcome, status and result polling\<close>

definition update_workflow_outcome ::
  "int \<Rightarrow> string \<Rightarrow> WorkflowStatusType \<Rightarrow> string option \<Rightarrow> string option \<Rightarrow> sysdb \<Rightarrow> sysdb" where
  "update_workflow_outcome now w status output err db =
     db\<lparr>workflow_status :=
          sql_update
            (\<lambda>r. ws_workflow_uuid r = w \<and>
                 \<not> (ws_status r = as_str Cancelled \<and>
                    as_str status \<in> {as_str Success, as_str Error}))
            (\<lambda>r. r\<lparr>ws_status := as_str status, ws_output := output, ws_error := err,
                   ws_updated_at := now, ws_completed_at := Some now,
                   ws_deduplication_id := None\<rparr>)
            (workflow_status db)\<rparr>"

definition get_status :: "sysdb \<Rightarrow> string \<Rightarrow> string option" where
  "get_status db w = map_option ws_status (find_workflow db w)"

datatype AwaitOutcome =
    AwaitSuccess "string option" "string option"
  | AwaitError "string option" "string option"
  | AwaitCancelled
  | AwaitDeadLetter int

text \<open>One round of the poll: \<open>None\<close> means sleep and look again.\<close>

definition poll_workflow_result :: "sysdb \<Rightarrow> string \<Rightarrow> AwaitOutcome option" where
  "poll_workflow_result db w =
     (case find_workflow db w of
        None \<Rightarrow> None
      | Some r \<Rightarrow>
          (case from_str (ws_status r) of
             Some Success \<Rightarrow> Some (AwaitSuccess (ws_output r) (ws_serialization r))
           | Some Error \<Rightarrow> Some (AwaitError (ws_error r) (ws_serialization r))
           | Some Cancelled \<Rightarrow> Some AwaitCancelled
           | Some MaxRecoveryAttemptsExceeded \<Rightarrow> Some (AwaitDeadLetter (ws_recovery_attempts r))
           | _ \<Rightarrow> None))"

text \<open>
  The poll loop over the successive states of the database it observes; \<open>None\<close> when it has not
  returned after the observed states.
\<close>

fun await_workflow_result :: "sysdb list \<Rightarrow> string \<Rightarrow> AwaitOutcome option" where
  "await_workflow_result [] w = None"
| "await_workflow_result (db # dbs) w =
     (case poll_workflow_result db w of
        Some out \<Rightarrow> Some out
      | None \<Rightarrow> await_workflow_result dbs w)"

subsection \<open>Recovery listing\<close>

record RecoverableWorkflow =
  rw_id :: string
  rw_name :: string
  rw_inputs :: "string option"
  rw_serialization :: "string option"
  rw_queue_name :: "string option"
  rw_authenticated_user :: "string option"
  rw_assumed_role :: "string option"
  rw_authenticated_roles :: "string option"
  rw_config_name :: "string option"

definition recoverable :: "workflow_row \<Rightarrow> RecoverableWorkflow" where
  "recoverable r = \<lparr>rw_id = ws_workflow_uuid r, rw_name = ws_name r, rw_inputs = ws_inputs r,
     rw_serialization = ws_serialization r, rw_queue_name = ws_queue_name r,
     rw_authenticated_user = ws_authenticated_user r, rw_assumed_role = ws_assumed_role r,
     rw_authenticated_roles = ws_authenticated_roles r, rw_config_name = ws_config_name r\<rparr>"

definition list_pending_for_recovery ::
  "string list \<Rightarrow> string \<Rightarrow> sysdb \<Rightarrow> RecoverableWorkflow list" where
  "list_pending_for_recovery executor_ids application_version db =
     map recoverable
       (sql_select (\<lambda>r. ws_status r = as_str Pending \<and> sql_any (ws_executor_id r) executor_ids \<and>
                        sql_eq (ws_application_version r) application_version)
          (workflow_status db))"

subsection \<open>Facts: the upsert\<close>

lemma on_conflict_row_frame [simp]:
  "ws_workflow_uuid (on_conflict_row i r) = ws_workflow_uuid r"
  "ws_status (on_conflict_row i r) = ws_status r"
  "ws_name (on_conflict_row i r) = ws_name r"
  "ws_queue_name (on_conflict_row i r) = ws_queue_name r"
  "ws_deduplication_id (on_conflict_row i r) = ws_deduplication_id r"
  "ws_owner_xid (on_conflict_row i r) = ws_owner_xid r"
  "ws_inputs (on_conflict_row i r) = ws_inputs r"
  "ws_output (on_conflict_row i r) = ws_output r"
  "ws_error (on_conflict_row i r) = ws_error r"
  "ws_created_at (on_conflict_row i r) = ws_created_at r"
  "ws_started_at_epoch_ms (on_conflict_row i r) = ws_started_at_epoch_ms r"
  "ws_application_version (on_conflict_row i r) = ws_application_version r"
  by (simp_all add: on_conflict_row_def Let_def)

lemma dedup_entry_on_conflict [simp]: "dedup_entry (on_conflict_row i r) = dedup_entry r"
  by (simp add: dedup_entry_def)

lemma fresh_row_simps [simp]:
  "ws_workflow_uuid (fresh_row i) = in_workflow_id i"
  "ws_status (fresh_row i) = in_status i"
  "ws_name (fresh_row i) = in_name i"
  "ws_queue_name (fresh_row i) = in_queue_name i"
  "ws_deduplication_id (fresh_row i) = in_deduplication_id i"
  "ws_owner_xid (fresh_row i) = Some (in_owner_xid i)"
  "ws_recovery_attempts (fresh_row i) = in_recovery_attempts i"
  "ws_inputs (fresh_row i) = in_inputs i"
  "ws_executor_id (fresh_row i) = Some (in_executor_id i)"
  "ws_application_version (fresh_row i) = in_application_version i"
  by (simp_all add: fresh_row_def)

lemma upsert_existing:
  assumes "find_workflow db (in_workflow_id i) = Some r"
  shows "upsert_workflow i db = Inr (on_conflict_row i r,
    db\<lparr>workflow_status := sql_update (\<lambda>r. ws_workflow_uuid r = in_workflow_id i)
          (on_conflict_row i) (workflow_status db)\<rparr>)"
  using assms by (simp add: upsert_workflow_def)

lemma upsert_find:
  assumes "upsert_workflow i db = Inr (row, db1)"
  shows "find_workflow db1 (in_workflow_id i) = Some row"
    and "ws_workflow_uuid row = in_workflow_id i"
  using assms
  by (auto simp: upsert_workflow_def Let_def find_workflow_update find_workflow_def
      find_key_append find_key_update split: option.splits if_splits dest: find_key_SomeD)

lemma upsert_other:
  assumes "upsert_workflow i db = Inr (row, db1)" and "w \<noteq> in_workflow_id i"
  shows "find_workflow db1 w = find_workflow db w"
proof (cases "find_workflow db (in_workflow_id i)")
  case None
  with assms show ?thesis
    by (auto simp: upsert_workflow_def Let_def find_workflow_def find_key_append
        split: if_splits option.splits)
next
  case (Some r)
  have "map_option (\<lambda>r. if ws_workflow_uuid r = in_workflow_id i then on_conflict_row i r else r)
      (find_workflow db w) = find_workflow db w"
    using assms(2) by (cases "find_workflow db w") (auto dest: find_workflow_SomeD)
  with Some assms(1) show ?thesis by (auto simp: upsert_existing find_workflow_update)
qed

lemma upsert_db_wf: "db_wf db \<Longrightarrow> upsert_workflow i db = Inr (row, db1) \<Longrightarrow> db_wf db1"
  by (auto simp: upsert_workflow_def Let_def workflow_exists_iff [symmetric] workflow_exists_def
      split: option.splits if_splits intro!: db_wf_update_workflows db_wf_insert_workflow)

lemma dlq_update_db_wf: "db_wf db \<Longrightarrow> db_wf (dlq_update w db)"
  unfolding dlq_update_def by (rule db_wf_update_workflows) (auto simp: dedup_entry_def)

lemma find_workflow_dlq_update:
  "find_workflow (dlq_update w db) v =
     map_option (\<lambda>r. if ws_workflow_uuid r = w \<and> ws_status r = as_str Pending
       then r\<lparr>ws_status := as_str MaxRecoveryAttemptsExceeded, ws_deduplication_id := None,
              ws_started_at_epoch_ms := None, ws_queue_name := None\<rparr> else r)
       (find_workflow db v)"
  unfolding dlq_update_def by (rule find_workflow_update) simp

lemma insert_workflow_status_preserves: "preserves db_wf (insert_workflow_status i m)"
proof (rule preservesI)
  fix db assume wf: "db_wf db"
  show "db_wf (snd (insert_workflow_status i m db))"
  proof (cases "upsert_workflow i db")
    case (Inl e)
    with wf show ?thesis by (simp add: insert_workflow_status_def)
  next
    case (Inr p)
    obtain row db1 where p: "p = (row, db1)" by force
    with Inr wf have "db_wf db1" by (auto intro: upsert_db_wf)
    with Inr p show ?thesis
      by (auto simp: insert_workflow_status_def finish_insert_def Let_def dlq_update_db_wf
          split: option.splits)
  qed
qed

text \<open>The successful result of an insert is the resulting row, read before a dead-letter update.\<close>

lemma insert_workflow_status_InrE:
  assumes "insert_workflow_status i m db = (Inr res, db')"
  obtains row db1 where "upsert_workflow i db = Inr (row, db1)"
    and "finish_insert i m row db1 = (Inr res, db')"
    and "in_name i = [] \<or> ws_name row = in_name i"
  using assms
  by (auto simp: insert_workflow_status_def split: sum.splits prod.splits if_splits option.splits)

lemma finish_insert_Inr:
  "finish_insert i m row db = (Inr res, db') \<longleftrightarrow>
     ir_recovery_attempts res = ws_recovery_attempts row \<and> ir_status res = ws_status row \<and>
     ir_name res = ws_name row \<and> ir_queue_name res = ws_queue_name row \<and>
     ir_owner_xid res = ws_owner_xid row \<and>
     ir_dlq_triggered res = dead_letter (ws_status row) (ws_recovery_attempts row) m \<and>
     db' = (if ir_dlq_triggered res then dlq_update (in_workflow_id i) db else db)"
  by (cases res) (auto simp: finish_insert_def Let_def)

subsection \<open>Terminal rows release their deduplication id\<close>

text \<open>
  A row in a terminal status holds no deduplication id, so a finished workflow never blocks a new
  one with the same id on the queue.
\<close>

definition terminal_status :: "string \<Rightarrow> bool" where
  "terminal_status s = (case from_str s of None \<Rightarrow> False | Some t \<Rightarrow> is_terminal t)"

definition terminal_clean :: "sysdb \<Rightarrow> bool" where
  "terminal_clean db \<longleftrightarrow>
     (\<forall>r \<in> set (workflow_status db). terminal_status (ws_status r) \<longrightarrow> ws_deduplication_id r = None)"

lemma terminal_status_as_str [simp]: "terminal_status (as_str t) = is_terminal t"
  by (simp add: terminal_status_def)

lemma terminal_clean_empty [simp]: "terminal_clean empty_db"
  by (simp add: terminal_clean_def empty_db_def)

lemma terminal_clean_update:
  assumes "terminal_clean db"
    and "\<And>r. P r \<Longrightarrow> (terminal_status (ws_status r) \<longrightarrow> ws_deduplication_id r = None) \<Longrightarrow>
      terminal_status (ws_status (f r)) \<Longrightarrow> ws_deduplication_id (f r) = None"
  shows "terminal_clean (db\<lparr>workflow_status := sql_update P f (workflow_status db)\<rparr>)"
  using assms by (auto simp: terminal_clean_def set_sql_update)

lemma terminal_clean_dlq: "terminal_clean db \<Longrightarrow> terminal_clean (dlq_update w db)"
  unfolding dlq_update_def by (rule terminal_clean_update) auto

lemma terminal_clean_upsert:
  assumes "terminal_clean db" and "upsert_workflow i db = Inr (row, db1)"
    and "\<not> terminal_status (in_status i)"
  shows "terminal_clean db1"
proof (cases "find_workflow db (in_workflow_id i)")
  case None
  with assms show ?thesis
    by (auto simp: upsert_workflow_def Let_def terminal_clean_def split: if_splits option.splits)
next
  case (Some r)
  with assms show ?thesis by (auto simp: upsert_existing intro!: terminal_clean_update)
qed

lemma terminal_clean_insert:
  assumes "\<not> terminal_status (in_status i)"
  shows "preserves terminal_clean (insert_workflow_status i m)"
proof (rule preservesI)
  fix db assume tc: "terminal_clean db"
  show "terminal_clean (snd (insert_workflow_status i m db))"
  proof (cases "upsert_workflow i db")
    case (Inl e)
    with tc show ?thesis by (simp add: insert_workflow_status_def)
  next
    case (Inr p)
    obtain row db1 where p: "p = (row, db1)" by force
    with Inr tc assms have "terminal_clean db1" by (auto intro: terminal_clean_upsert)
    with Inr p show ?thesis
      by (auto simp: insert_workflow_status_def finish_insert_def Let_def terminal_clean_dlq
          split: option.splits)
  qed
qed

lemma update_workflow_outcome_db_wf:
  "db_wf db \<Longrightarrow> db_wf (update_workflow_outcome now w st out err db)"
  unfolding update_workflow_outcome_def
  by (rule db_wf_update_workflows) (auto simp: dedup_entry_def split: option.splits)

lemma update_workflow_outcome_terminal_clean:
  "terminal_clean db \<Longrightarrow> terminal_clean (update_workflow_outcome now w st out err db)"
  unfolding update_workflow_outcome_def by (rule terminal_clean_update) auto

lemma find_workflow_outcome:
  "find_workflow (update_workflow_outcome now w st out err db) v =
     map_option (\<lambda>r. if ws_workflow_uuid r = w \<and>
         \<not> (ws_status r = as_str Cancelled \<and> (st = Success \<or> st = Error))
       then r\<lparr>ws_status := as_str st, ws_output := out, ws_error := err, ws_updated_at := now,
              ws_completed_at := Some now, ws_deduplication_id := None\<rparr> else r)
       (find_workflow db v)"
  unfolding update_workflow_outcome_def by (subst find_workflow_update) simp_all

subsection \<open>Properties\<close>

text \<open>
  Starting a workflow is idempotent in its id. When a row with the id exists and the insert
  succeeds, the call reports that row's owner, name and status, and leaves every other workflow
  alone; the row keeps its name, inputs, recorded output, recorded error and owner, and its
  status unless this very call moved it from PENDING to the dead-letter status.
\<close>

theorem insert_existing_is_idempotent:
  assumes "find_workflow db (in_workflow_id i) = Some r"
    and "insert_workflow_status i m db = (Inr res, db')"
  shows "ir_owner_xid res = ws_owner_xid r \<and> ir_status res = ws_status r \<and>
    ir_name res = ws_name r \<and>
    (\<exists>r'. find_workflow db' (in_workflow_id i) = Some r' \<and>
       ws_name r' = ws_name r \<and> ws_inputs r' = ws_inputs r \<and> ws_output r' = ws_output r \<and>
       ws_error r' = ws_error r \<and> ws_owner_xid r' = ws_owner_xid r \<and>
       (ws_status r' = ws_status r \<or>
        ir_dlq_triggered res \<and> ws_status r = as_str Pending \<and>
        ws_status r' = as_str MaxRecoveryAttemptsExceeded)) \<and>
    (\<forall>w. w = in_workflow_id i \<or> find_workflow db' w = find_workflow db w)"
proof -
  from assms(2) obtain row db1 where u: "upsert_workflow i db = Inr (row, db1)"
    and fin: "finish_insert i m row db1 = (Inr res, db')"
    by (rule insert_workflow_status_InrE)
  from u assms(1) have row: "row = on_conflict_row i r" by (simp add: upsert_existing)
  have here: "find_workflow db1 (in_workflow_id i) = Some row" and
    id: "ws_workflow_uuid row = in_workflow_id i"
    using upsert_find [OF u] by auto
  have away: "find_workflow db' w = find_workflow db w" if "w \<noteq> in_workflow_id i" for w
  proof -
    have "find_workflow db1 w = find_workflow db w" using u that by (rule upsert_other)
    moreover have "find_workflow (dlq_update (in_workflow_id i) db1) w = find_workflow db1 w"
      using that by (cases "find_workflow db1 w")
        (auto simp: find_workflow_dlq_update dest: find_workflow_SomeD)
    ultimately show ?thesis using fin by (auto simp: finish_insert_Inr)
  qed
  have r': "\<exists>r'. find_workflow db' (in_workflow_id i) = Some r' \<and>
       ws_name r' = ws_name r \<and> ws_inputs r' = ws_inputs r \<and> ws_output r' = ws_output r \<and>
       ws_error r' = ws_error r \<and> ws_owner_xid r' = ws_owner_xid r \<and>
       (ws_status r' = ws_status r \<or>
        ir_dlq_triggered res \<and> ws_status r = as_str Pending \<and>
        ws_status r' = as_str MaxRecoveryAttemptsExceeded)"
    using fin here id row by (auto simp: finish_insert_Inr find_workflow_dlq_update)
  have "ir_owner_xid res = ws_owner_xid r \<and> ir_status res = ws_status r \<and> ir_name res = ws_name r"
    using fin row by (simp add: finish_insert_Inr)
  with r' away show ?thesis by blast
qed

definition sample_input :: InsertWorkflowInput where
  "sample_input = default_insert_input\<lparr>in_workflow_id := ''wf'', in_status := as_str Pending,
     in_name := ''checkout'', in_recovery_attempts := 1, in_owner_xid := ''x1'',
     in_executor_id := ''local'', in_application_version := Some ''v1''\<rparr>"

definition sample_db :: sysdb where
  "sample_db = empty_db\<lparr>workflow_status := [fresh_row sample_input]\<rparr>"

lemmas sample_defs = sample_db_def sample_input_def default_insert_input_def empty_db_def

lemma sample_find: "find_workflow sample_db ''wf'' = Some (fresh_row sample_input)"
  by (simp add: sample_defs find_workflow_def)

lemma sample_input_simps [simp]:
  "in_workflow_id sample_input = ''wf''" "in_status sample_input = as_str Pending"
  "in_name sample_input = ''checkout''" "in_queue_name sample_input = None"
  "in_increment sample_input = 0" "in_recovery_attempts sample_input = 1"
  "in_owner_xid sample_input = ''x1''"
  by (simp_all add: sample_defs)

theorem insert_existing_is_idempotent_witness:
  "\<exists>res db'. insert_workflow_status sample_input 100 sample_db = (Inr res, db') \<and>
     ir_owner_xid res = Some ''x1''"
proof -
  have f: "find_workflow sample_db (in_workflow_id sample_input) = Some (fresh_row sample_input)"
    by (simp add: sample_find)
  obtain res db' where r: "insert_workflow_status sample_input 100 sample_db = (Inr res, db')"
    using f by (simp add: insert_workflow_status_def upsert_existing finish_insert_def Let_def)
  show ?thesis using r insert_existing_is_idempotent [OF f r] by simp
qed

text \<open>
  The dead-letter threshold. Re-inserting a PENDING workflow (same name, no queue requested)
  adds the increment to its recovery attempts; the row moves to MAX_RECOVERY_ATTEMPTS_EXCEEDED,
  and gives up its queue and deduplication id, exactly when the limit is positive and the new
  count exceeds the limit plus one. Otherwise it stays PENDING.
\<close>

theorem dead_letter_threshold:
  assumes "find_workflow db (in_workflow_id i) = Some r"
    and "ws_status r = as_str Pending" and "in_status i = as_str Pending"
    and "ws_name r = in_name i" and "in_queue_name i = None"
  shows "\<exists>res db' r'. insert_workflow_status i m db = (Inr res, db') \<and>
    find_workflow db' (in_workflow_id i) = Some r' \<and>
    ws_recovery_attempts r' = ws_recovery_attempts r + in_increment i \<and>
    ir_recovery_attempts res = ws_recovery_attempts r + in_increment i \<and>
    ir_dlq_triggered res = (m > 0 \<and> ws_recovery_attempts r + in_increment i > m + 1) \<and>
    (if m > 0 \<and> ws_recovery_attempts r + in_increment i > m + 1
     then ws_status r' = as_str MaxRecoveryAttemptsExceeded \<and> ws_queue_name r' = None \<and>
          ws_deduplication_id r' = None
     else ws_status r' = as_str Pending \<and> ws_queue_name r' = ws_queue_name r \<and>
          ws_deduplication_id r' = ws_deduplication_id r)"
proof -
  define row where "row = on_conflict_row i r"
  obtain db1 where u: "upsert_workflow i db = Inr (row, db1)"
    using assms(1) by (simp add: upsert_existing row_def)
  have here: "find_workflow db1 (in_workflow_id i) = Some row"
    and id: "ws_workflow_uuid row = in_workflow_id i"
    using upsert_find [OF u] by auto
  have att: "ws_recovery_attempts row = ws_recovery_attempts r + in_increment i"
    using assms(3) by (simp add: row_def on_conflict_row_def Let_def)
  obtain res db' where fin: "finish_insert i m row db1 = (Inr res, db')"
    by (simp add: finish_insert_def Let_def)
  have ins: "insert_workflow_status i m db = (Inr res, db')"
    using u fin assms(4,5) by (simp add: insert_workflow_status_def row_def)
  have dlq: "ir_dlq_triggered res = (m > 0 \<and> ws_recovery_attempts r + in_increment i > m + 1)"
    using fin att assms(2) by (auto simp: finish_insert_Inr dead_letter_def row_def)
  have "ir_recovery_attempts res = ws_recovery_attempts r + in_increment i"
    using fin att by (simp add: finish_insert_Inr)
  then show ?thesis
    using ins dlq fin here id att assms(2)
    by (auto simp: finish_insert_Inr find_workflow_dlq_update row_def)
qed

theorem dead_letter_threshold_witness:
  "\<exists>res db'. insert_workflow_status (sample_input\<lparr>in_increment := 3\<rparr>) 2 sample_db = (Inr res, db') \<and>
     ir_dlq_triggered res"
proof -
  let ?i = "sample_input\<lparr>in_increment := 3\<rparr>"
  have f: "find_workflow sample_db (in_workflow_id ?i) = Some (fresh_row sample_input)"
    by (simp add: sample_find)
  show ?thesis
    using dead_letter_threshold [OF f, of 2] by auto
qed

text \<open>
  A cancellation survives a completion that raced with it: recording SUCCESS or ERROR for a
  CANCELLED workflow changes nothing in the database; for an existing workflow in any other
  status the outcome is stored and the deduplication id released.
\<close>

theorem cancellation_beats_completion:
  assumes "db_wf db" and "find_workflow db w = Some r" and "st = Success \<or> st = Error"
  shows "if ws_status r = as_str Cancelled
    then update_workflow_outcome now w st out err db = db
    else \<exists>r'. find_workflow (update_workflow_outcome now w st out err db) w = Some r' \<and>
           ws_status r' = as_str st \<and> ws_output r' = out \<and> ws_error r' = err \<and>
           ws_completed_at r' = Some now \<and> ws_deduplication_id r' = None"
proof (cases "ws_status r = as_str Cancelled")
  case True
  have "r' = r" if "r' \<in> set (workflow_status db)" "ws_workflow_uuid r' = w" for r'
    using find_workflow_member [OF assms(1) that(1)] that(2) assms(2) by simp
  with True assms(3) have "update_workflow_outcome now w st out err db = db"
    unfolding update_workflow_outcome_def by (subst sql_update_no_match) auto
  with True show ?thesis by simp
next
  case False
  with assms(2) show ?thesis
    by (auto simp: find_workflow_outcome dest: find_workflow_SomeD)
qed

theorem cancellation_beats_completion_witness:
  "update_workflow_outcome 9 ''wf'' Success (Some ''1'') None
     (sample_db\<lparr>workflow_status := [(fresh_row sample_input)\<lparr>ws_status := as_str Cancelled\<rparr>]\<rparr>) =
   sample_db\<lparr>workflow_status := [(fresh_row sample_input)\<lparr>ws_status := as_str Cancelled\<rparr>]\<rparr>"
proof -
  let ?db = "sample_db\<lparr>workflow_status := [(fresh_row sample_input)\<lparr>ws_status := as_str Cancelled\<rparr>]\<rparr>"
  have wf: "db_wf ?db"
    by (simp add: db_wf_def workflows_ok_def keys_ok_def refs_ok_def uuids_def sample_defs
        dedup_entry_def fresh_row_def)
  have f: "find_workflow ?db ''wf'' = Some ((fresh_row sample_input)\<lparr>ws_status := as_str Cancelled\<rparr>)"
    by (simp add: sample_defs find_workflow_def)
  show ?thesis
    using cancellation_beats_completion [OF wf f, of Success 9 "Some ''1''" None] by simp
qed

lemma poll_None_iff:
  "poll_workflow_result db w = None \<longleftrightarrow>
     (case find_workflow db w of None \<Rightarrow> True | Some r \<Rightarrow> \<not> terminal_status (ws_status r))"
  by (auto simp: poll_workflow_result_def terminal_status_def
      split: option.splits WorkflowStatusType.splits)

text \<open>
  Result polling returns exactly at the first observed database state in which the workflow
  is terminal: it is still waiting if and only if no observed state has it in a terminal status,
  and what it returns is that state's outcome.
\<close>

theorem await_returns_at_first_terminal_state:
  "(await_workflow_result dbs w = None \<longleftrightarrow>
      list_all (\<lambda>db. case find_workflow db w of None \<Rightarrow> True
                     | Some r \<Rightarrow> \<not> terminal_status (ws_status r)) dbs) \<and>
   (await_workflow_result dbs w = Some out \<longleftrightarrow>
      (\<exists>pre db post. dbs = pre @ db # post \<and> list_all (\<lambda>d. poll_workflow_result d w = None) pre \<and>
         poll_workflow_result db w = Some out))"
proof (intro conjI)
  show "await_workflow_result dbs w = None \<longleftrightarrow>
      list_all (\<lambda>db. case find_workflow db w of None \<Rightarrow> True
                     | Some r \<Rightarrow> \<not> terminal_status (ws_status r)) dbs"
    by (induction dbs) (auto simp: poll_None_iff [symmetric] split: option.splits)
  show "await_workflow_result dbs w = Some out \<longleftrightarrow>
      (\<exists>pre db post. dbs = pre @ db # post \<and> list_all (\<lambda>d. poll_workflow_result d w = None) pre \<and>
         poll_workflow_result db w = Some out)"
    by (induction dbs) (simp, simp only: ex_split_Cons, auto split: option.splits)
qed

end
