(* ===== verification/Dbos_Steps.thy ===== *)
theory Dbos_Steps
  imports Dbos_Status
begin

text \<open>
  \<open>operation_outputs\<close> operations of \<open>crates/dbos/src/db/steps.rs\<close>: step memoization, the
  determinism check and child-workflow recording. The table is a write-once store keyed by
  \<open>(workflow_uuid, function_id)\<close>; the locale \<open>write_once\<close> states that contract and what follows
  from it for any sequence of writes, and is interpreted on the code's two operations.
\<close>

subsection \<open>Interface: a write-once store\<close>

locale write_once =
  fixes look :: "'s \<Rightarrow> 'k \<Rightarrow> 'v option"
    and put :: "'k \<Rightarrow> 'v \<Rightarrow> 's \<Rightarrow> 's option"
  assumes put_look: "put k v s = Some s' \<Longrightarrow> look s' k = Some v"
    and put_other: "put k v s = Some s' \<Longrightarrow> k' \<noteq> k \<Longrightarrow> look s' k' = look s k'"
    and put_taken: "look s k = Some v' \<Longrightarrow> put k v s = None"
begin

text \<open>A sequence of writes, refused ones changing nothing.\<close>

definition put_all :: "('k \<times> 'v) list \<Rightarrow> 's \<Rightarrow> 's" where
  "put_all kvs s = fold (\<lambda>(k, v) s. case put k v s of None \<Rightarrow> s | Some s' \<Rightarrow> s') kvs s"

lemma put_all_simps [simp]:
  "put_all [] s = s"
  "put_all ((k, v) # kvs) s = put_all kvs (case put k v s of None \<Rightarrow> s | Some s' \<Rightarrow> s')"
  by (simp_all add: put_all_def)

lemma put_stable: "look s k = Some v \<Longrightarrow> put k' v' s = Some s' \<Longrightarrow> look s' k = Some v"
  using put_other put_taken by (cases "k' = k") fastforce+

lemma put_all_stable: "look s k = Some v \<Longrightarrow> look (put_all kvs s) k = Some v"
  by (induction kvs arbitrary: s) (auto split: option.splits, metis put_stable)

text \<open>After any writes a key holds what it held, or a value some write in the list gave it.\<close>

lemma put_all_origin:
  "look (put_all kvs s) k = Some v \<Longrightarrow> look s k = Some v \<or> (k, v) \<in> set kvs"
proof (induction kvs arbitrary: s)
  case Nil
  then show ?case by simp
next
  case (Cons kv kvs)
  obtain k1 v1 where kv: "kv = (k1, v1)" by force
  show ?case
  proof (cases "put k1 v1 s")
    case None
    with Cons kv show ?thesis by auto
  next
    case (Some s1)
    with Cons kv have "look s1 k = Some v \<or> (k, v) \<in> set kvs" by auto
    with Some kv show ?thesis by (cases "k = k1") (auto simp: put_look put_other)
  qed
qed

end

subsection \<open>The operations\<close>

record RecordedOperation =
  ro_output :: "string option"
  ro_error :: "string option"
  ro_serialization :: "string option"

definition recorded :: "operation_row \<Rightarrow> RecordedOperation" where
  "recorded r = \<lparr>ro_output = oo_output r, ro_error = oo_error r,
     ro_serialization = oo_serialization r\<rparr>"

definition check_operation_execution ::
  "string \<Rightarrow> int \<Rightarrow> string \<Rightarrow> sysdb \<Rightarrow> DbosError + RecordedOperation option" where
  "check_operation_execution w function_id expected db =
     (case get_status db w of
        None \<Rightarrow> Inl (non_existent_workflow w)
      | Some status \<Rightarrow>
          if status = ''CANCELLED'' then Inl (workflow_cancelled w)
          else (case find_operation db w function_id of
                  None \<Rightarrow> Inr None
                | Some r \<Rightarrow>
                    if oo_function_name r \<noteq> expected
                    then Inl (unexpected_step w function_id expected (oo_function_name r))
                    else Inr (Some (recorded r))))"

definition operation_values ::
  "int \<Rightarrow> string \<Rightarrow> int \<Rightarrow> string \<Rightarrow> string option \<Rightarrow> string option \<Rightarrow> string option \<Rightarrow>
   string option \<Rightarrow> operation_row" where
  "operation_values now w function_id name out err child ser =
     \<lparr>oo_workflow_uuid = w, oo_function_id = function_id, oo_function_name = name,
      oo_output = out, oo_error = err, oo_child_workflow_id = child,
      oo_started_at_epoch_ms = Some now, oo_completed_at_epoch_ms = Some now,
      oo_serialization = ser\<rparr>"

text \<open>The INSERT, with the primary key and the foreign key checked in that order.\<close>

definition insert_operation :: "operation_row \<Rightarrow> sysdb \<Rightarrow> sqlx_error + sysdb" where
  "insert_operation r db =
     (if find_operation db (oo_workflow_uuid r) (oo_function_id r) \<noteq> None
      then Inl (unique_violation ''operation_outputs_pkey'')
      else if \<not> workflow_exists db (oo_workflow_uuid r)
      then Inl (foreign_key_violation ''operation_outputs_workflow_uuid_fkey'')
      else Inr (db\<lparr>operation_outputs := operation_outputs db @ [r]\<rparr>))"

definition record_operation_result ::
  "int \<Rightarrow> string \<Rightarrow> int \<Rightarrow> string \<Rightarrow> string option \<Rightarrow> string option \<Rightarrow> string option \<Rightarrow>
   string option \<Rightarrow> unit db_op" where
  "record_operation_result now w function_id name out err child ser db =
     (case insert_operation (operation_values now w function_id name out err child ser) db of
        Inr db' \<Rightarrow> (Inr (), db')
      | Inl e \<Rightarrow>
          (Inl (if is_unique_violation e then conflicting_id w else from_sqlx e), db))"

definition record_child_workflow ::
  "int \<Rightarrow> string \<Rightarrow> int \<Rightarrow> string \<Rightarrow> string \<Rightarrow> unit db_op" where
  "record_child_workflow now parent function_id name child =
     record_operation_result now parent function_id name None None (Some child) None"

definition check_child_workflow :: "string \<Rightarrow> int \<Rightarrow> sysdb \<Rightarrow> string option" where
  "check_child_workflow parent function_id db =
     (case find_operation db parent function_id of
        None \<Rightarrow> None
      | Some r \<Rightarrow> oo_child_workflow_id r)"

subsection \<open>Facts\<close>

lemma operation_values_simps [simp]:
  "oo_workflow_uuid (operation_values now w f n out err ch ser) = w"
  "oo_function_id (operation_values now w f n out err ch ser) = f"
  "oo_function_name (operation_values now w f n out err ch ser) = n"
  "oo_output (operation_values now w f n out err ch ser) = out"
  "oo_error (operation_values now w f n out err ch ser) = err"
  "oo_child_workflow_id (operation_values now w f n out err ch ser) = ch"
  "oo_serialization (operation_values now w f n out err ch ser) = ser"
  "op_key (operation_values now w f n out err ch ser) = (w, f)"
  by (simp_all add: operation_values_def)

lemma find_operation_append:
  "find_operation (db\<lparr>operation_outputs := operation_outputs db @ [r]\<rparr>) w f =
     (case find_operation db w f of None \<Rightarrow> (if op_key r = (w, f) then Some r else None)
      | Some r' \<Rightarrow> Some r')"
  by (simp add: find_operation_def find_key_append split: option.splits)

lemma find_operation_SomeD:
  "find_operation db w f = Some r \<Longrightarrow>
     r \<in> set (operation_outputs db) \<and> oo_workflow_uuid r = w \<and> oo_function_id r = f"
  by (auto simp: find_operation_def dest: find_key_SomeD)

lemma record_operation_Inr:
  "record_operation_result now w f n out err ch ser db = (Inr (), db') \<longleftrightarrow>
     find_operation db w f = None \<and> workflow_exists db w \<and>
     db' = db\<lparr>operation_outputs :=
             operation_outputs db @ [operation_values now w f n out err ch ser]\<rparr>"
  by (auto simp: record_operation_result_def insert_operation_def split: if_splits)

lemma record_operation_Inl_state:
  "record_operation_result now w f n out err ch ser db = (Inl e, db') \<Longrightarrow> db' = db"
  by (auto simp: record_operation_result_def split: sum.splits)

lemma record_operation_new:
  "find_operation db w f = None \<Longrightarrow> workflow_exists db w \<Longrightarrow>
   record_operation_result now w f n out err ch ser db =
     (Inr (), db\<lparr>operation_outputs :=
        operation_outputs db @ [operation_values now w f n out err ch ser]\<rparr>)"
  by (simp add: record_operation_result_def insert_operation_def)

lemma record_operation_taken:
  "find_operation db w f = Some r \<Longrightarrow>
   record_operation_result now w f n out err ch ser db = (Inl (conflicting_id w), db)"
  by (simp add: record_operation_result_def insert_operation_def)

lemma record_operation_preserves:
  "preserves db_wf (record_operation_result now w f n out err ch ser)"
proof (rule preservesI)
  fix db assume "db_wf db"
  then show "db_wf (snd (record_operation_result now w f n out err ch ser db))"
    by (auto simp: record_operation_result_def insert_operation_def workflow_exists_iff
        intro!: db_wf_insert_operation)
qed

lemma record_operation_terminal_clean:
  "preserves terminal_clean (record_operation_result now w f n out err ch ser)"
  by (auto simp: preserves_def record_operation_result_def insert_operation_def terminal_clean_def)

lemma record_operation_workflows [simp]:
  "workflow_status (snd (record_operation_result now w f n out err ch ser db)) = workflow_status db"
  by (simp add: record_operation_result_def insert_operation_def)

lemma check_operation_new:
  "check_operation_execution w f n db = Inr None \<longleftrightarrow>
     (\<exists>s. get_status db w = Some s \<and> s \<noteq> ''CANCELLED'') \<and> find_operation db w f = None"
  by (auto simp: check_operation_execution_def split: option.splits)

lemma check_operation_found:
  "check_operation_execution w f n db = Inr (Some ro) \<longleftrightarrow>
     (\<exists>s r. get_status db w = Some s \<and> s \<noteq> ''CANCELLED'' \<and> find_operation db w f = Some r \<and>
        oo_function_name r = n \<and> ro = recorded r)"
  by (auto simp: check_operation_execution_def split: option.splits)

lemma get_status_Some_exists: "get_status db w = Some s \<Longrightarrow> workflow_exists db w"
  by (auto simp: get_status_def workflow_exists_def)

lemma get_status_frame [simp]:
  "get_status (db\<lparr>operation_outputs := o'\<rparr>) w = get_status db w"
  "get_status (db\<lparr>notifications := n\<rparr>) w = get_status db w"
  "get_status (db\<lparr>workflow_events := e\<rparr>) w = get_status db w"
  "get_status (db\<lparr>workflow_events_history := h\<rparr>) w = get_status db w"
  "get_status (db\<lparr>streams := s\<rparr>) w = get_status db w"
  by (simp_all add: get_status_def)

subsection \<open>The table as a write-once store\<close>

definition op_look :: "sysdb \<Rightarrow> string \<times> int \<Rightarrow> operation_row option" where
  "op_look db k = find_operation db (fst k) (snd k)"

text \<open>A write of any row under a key, through the code's operation; \<open>None\<close> when it is refused.\<close>

definition op_put :: "string \<times> int \<Rightarrow> operation_row \<Rightarrow> sysdb \<Rightarrow> sysdb option" where
  "op_put k r db =
     (case insert_operation (r\<lparr>oo_workflow_uuid := fst k, oo_function_id := snd k\<rparr>) db of
        Inl _ \<Rightarrow> None
      | Inr db' \<Rightarrow> if op_key r = k then Some db' else None)"

interpretation op_store: write_once op_look op_put
proof
  fix k v db db' k' v'
  show "op_look db' k = Some v" if "op_put k v db = Some db'"
    using that by (auto simp: op_put_def op_look_def insert_operation_def find_operation_append
        split: sum.splits if_splits option.splits)
  show "op_look db' k' = op_look db k'" if "op_put k v db = Some db'" and "k' \<noteq> k"
    using that by (auto simp: op_put_def op_look_def insert_operation_def find_operation_append
        split: sum.splits if_splits option.splits)
  show "op_put k v db = None" if "op_look db k = Some v'"
    using that by (auto simp: op_put_def op_look_def insert_operation_def)
qed

lemma record_operation_op_put:
  "record_operation_result now w f n out err ch ser db = (Inr (), db') \<longleftrightarrow>
   op_put (w, f) (operation_values now w f n out err ch ser) db = Some db'"
  by (auto simp: record_operation_Inr op_put_def insert_operation_def operation_values_def
      split: if_splits)

lemma find_operation_stable:
  assumes "find_operation db w f = Some r"
    and "record_operation_result now w' f' n out err ch ser db = (res, db')"
  shows "find_operation db' w f = Some r"
proof (cases res)
  case (Inl e)
  with assms show ?thesis by (auto dest: record_operation_Inl_state)
next
  case (Inr u)
  with assms(2) have "op_put (w', f') (operation_values now w' f' n out err ch ser) db = Some db'"
    by (simp add: record_operation_op_put [symmetric])
  with assms(1) show ?thesis
    using op_store.put_stable [of db "(w, f)" r] by (simp add: op_look_def)
qed

subsection \<open>Properties\<close>

text \<open>
  The determinism check. For a workflow that exists, is not cancelled and has a recorded
  operation at the id, a check under the recorded name returns exactly the recorded result, and
  a check under any other name fails with \<open>UnexpectedStep\<close>, carrying both names, the step id and
  the workflow.
\<close>

theorem check_detects_nondeterminism:
  assumes "get_status db w = Some s" and "s \<noteq> ''CANCELLED''"
    and "find_operation db w f = Some r"
  shows "check_operation_execution w f name db =
    (if name = oo_function_name r
     then Inr (Some \<lparr>ro_output = oo_output r, ro_error = oo_error r,
                     ro_serialization = oo_serialization r\<rparr>)
     else Inl (unexpected_step w f name (oo_function_name r))) \<and>
    err_code (unexpected_step w f name (oo_function_name r)) = UnexpectedStep \<and>
    err_context (unexpected_step w f name (oo_function_name r)) =
      Some (default_context\<lparr>ec_workflow_id := Some w, ec_step_id := Some f,
              ec_expected_name := Some name, ec_recorded_name := Some (oo_function_name r)\<rparr>)"
  using assms by (auto simp: check_operation_execution_def recorded_def unexpected_step_def ctx_def)

definition sample_db_op :: sysdb where
  "sample_db_op = sample_db\<lparr>operation_outputs :=
     [operation_values 5 ''wf'' 0 ''charge'' (Some ''42'') None None (Some ''portable_json'')]\<rparr>"

lemma sample_db_op_facts:
  "get_status sample_db_op ''wf'' = Some ''PENDING''"
  "find_operation sample_db_op ''wf'' 0 =
     Some (operation_values 5 ''wf'' 0 ''charge'' (Some ''42'') None None (Some ''portable_json''))"
  "find_operation sample_db_op ''wf'' 1 = None"
  "workflow_exists sample_db_op ''wf''"
  by (simp_all add: sample_db_op_def get_status_def sample_find find_operation_def sample_defs
      workflow_exists_def find_workflow_def as_str.simps)

theorem check_detects_nondeterminism_witness:
  "check_operation_execution ''wf'' 0 ''refund'' sample_db_op =
     Inl (unexpected_step ''wf'' 0 ''refund'' ''charge'')"
proof -
  have "''PENDING'' \<noteq> ''CANCELLED''" by simp
  from check_detects_nondeterminism [OF sample_db_op_facts(1) this sample_db_op_facts(2),
      of "''refund''"]
  show ?thesis by simp
qed

text \<open>
  C11. Results are written once. Recording at a free id of an existing workflow succeeds and the
  next lookup finds exactly that row; after it, recording at the same id fails with
  \<open>ConflictingId\<close> and changes nothing, whatever the new result, and recording at any other id
  leaves the row as it is.
\<close>

theorem operation_result_is_write_once:
  assumes "find_operation db w f = None" and "workflow_exists db w"
  shows "\<exists>db1. record_operation_result now w f n out err ch ser db = (Inr (), db1) \<and>
    find_operation db1 w f = Some (operation_values now w f n out err ch ser) \<and>
    record_operation_result now2 w f n2 out2 err2 ch2 ser2 db1 = (Inl (conflicting_id w), db1) \<and>
    find_operation (snd (record_operation_result now3 w3 f3 n3 out3 err3 ch3 ser3 db1)) w f =
      Some (operation_values now w f n out err ch ser)"
proof -
  let ?r = "operation_values now w f n out err ch ser"
  define db1 where "db1 = db\<lparr>operation_outputs := operation_outputs db @ [?r]\<rparr>"
  have rec: "record_operation_result now w f n out err ch ser db = (Inr (), db1)"
    using assms by (simp add: record_operation_new db1_def)
  have f1: "find_operation db1 w f = Some ?r"
    using assms(1) by (simp add: db1_def find_operation_append)
  have "find_operation (snd (record_operation_result now3 w3 f3 n3 out3 err3 ch3 ser3 db1)) w f =
      Some ?r"
    by (rule find_operation_stable [OF f1]) (rule prod.collapse [symmetric])
  with rec f1 record_operation_taken [OF f1] show ?thesis by blast
qed

theorem operation_result_is_write_once_witness:
  "\<exists>db1. record_operation_result 7 ''wf'' 1 ''ship'' (Some ''1'') None None None sample_db_op =
     (Inr (), db1) \<and>
   record_operation_result 8 ''wf'' 1 ''ship'' (Some ''2'') None None None db1 =
     (Inl (conflicting_id ''wf''), db1)"
  using operation_result_is_write_once [OF sample_db_op_facts(3,4), of 7 "''ship''" "Some ''1''"
      None None None 8 "''ship''" "Some ''2''" None None None] by blast

end
