(* ===== verification/Dbos_Notifications.thy ===== *)
theory Dbos_Notifications
  imports Dbos_Steps
begin

text \<open>
  Notifications and events of \<open>crates/dbos/src/db/notifications.rs\<close>: the mailbox behind
  \<open>send\<close>/\<open>recv\<close> and the key/value store behind \<open>set_event\<close>/\<open>get_event\<close>. A mailbox is abstracted to
  the list of its unconsumed messages, oldest first; the locale \<open>mailbox\<close> states the first-in
  first-out contract, and is interpreted on the code's insert and consume. Message ids and the
  clock are arguments. \<open>ORDER BY created_at_epoch_ms LIMIT 1\<close> leaves ties to Postgres; the model
  takes the one inserted first.
\<close>

subsection \<open>Interface: a first-in first-out mailbox\<close>

locale mailbox =
  fixes inv :: "'s \<Rightarrow> bool"
    and items :: "'s \<Rightarrow> 'm list"
    and accepts :: "'i \<Rightarrow> 's \<Rightarrow> bool"
    and view :: "'i \<Rightarrow> 'm"
    and push :: "'i \<Rightarrow> 's \<Rightarrow> 's"
    and pop :: "'s \<Rightarrow> 'm option \<times> 's"
  assumes push_inv: "inv s \<Longrightarrow> accepts i s \<Longrightarrow> inv (push i s)"
    and push_items: "inv s \<Longrightarrow> accepts i s \<Longrightarrow> items (push i s) = items s @ [view i]"
    and pop_inv: "inv s \<Longrightarrow> inv (snd (pop s))"
    and pop_empty: "inv s \<Longrightarrow> items s = [] \<Longrightarrow> pop s = (None, s)"
    and pop_fst: "inv s \<Longrightarrow> items s = m # ms \<Longrightarrow> fst (pop s) = Some m"
    and pop_snd: "inv s \<Longrightarrow> items s = m # ms \<Longrightarrow> items (snd (pop s)) = ms"
begin

text \<open>\<open>n\<close> successive receives, with the messages they return.\<close>

fun pops :: "nat \<Rightarrow> 's \<Rightarrow> 'm list \<times> 's" where
  "pops 0 s = ([], s)"
| "pops (Suc n) s =
     (case pop s of
        (None, s1) \<Rightarrow> pops n s1
      | (Some m, s1) \<Rightarrow> (case pops n s1 of (ms, s2) \<Rightarrow> (m # ms, s2)))"

lemma pops_take_drop:
  "inv s \<Longrightarrow> fst (pops n s) = take n (items s) \<and> items (snd (pops n s)) = drop n (items s)
     \<and> inv (snd (pops n s))"
proof (induction n arbitrary: s)
  case 0
  then show ?case by simp
next
  case (Suc n)
  show ?case
  proof (cases "items s")
    case Nil
    with Suc.prems have "pop s = (None, s)" by (rule pop_empty)
    with Suc.IH [OF Suc.prems] Nil show ?thesis by simp
  next
    case (Cons m ms)
    obtain s1 where s1: "pop s = (Some m, s1)"
      using pop_fst [OF Suc.prems Cons] by (metis prod.collapse)
    have "items s1 = ms" "inv s1"
      using pop_snd [OF Suc.prems Cons] pop_inv [OF Suc.prems] s1 by simp_all
    with Suc.IH [of s1] s1 Cons show ?thesis by (auto split: prod.splits)
  qed
qed

text \<open>A receive never returns a message twice: what is delivered leaves the box.\<close>

lemma pops_split: "inv s \<Longrightarrow> fst (pops n s) @ items (snd (pops n s)) = items s"
  by (simp add: pops_take_drop)

lemma push_pop_empty:
  assumes "inv s" and "accepts i s" and "items s = []"
  shows "fst (pop (push i s)) = Some (view i)" and "items (snd (pop (push i s))) = []"
  using assms pop_fst [of "push i s" "view i" "[]"] pop_snd [of "push i s" "view i" "[]"]
  by (simp_all add: push_items push_inv)

end

subsection \<open>Sending and receiving\<close>

definition NULL_TOPIC :: string where
  "NULL_TOPIC = ''__null__topic__''"

definition notification_values ::
  "string \<Rightarrow> int \<Rightarrow> string \<Rightarrow> string \<Rightarrow> string \<Rightarrow> string \<Rightarrow> notification_row" where
  "notification_values uuid now dest topic message ser =
     \<lparr>nt_destination_uuid = dest, nt_topic = topic, nt_message = message,
      nt_serialization = Some ser, nt_message_uuid = uuid, nt_created_at_epoch_ms = now,
      nt_consumed = False\<rparr>"

definition insert_notification_row :: "notification_row \<Rightarrow> sysdb \<Rightarrow> sqlx_error + sysdb" where
  "insert_notification_row r db =
     (if sql_exists (\<lambda>x. nt_message_uuid x = nt_message_uuid r) (notifications db)
      then Inl (unique_violation ''notifications_pkey'')
      else if \<not> workflow_exists db (nt_destination_uuid r)
      then Inl (foreign_key_violation ''notifications_destination_uuid_fkey'')
      else Inr (db\<lparr>notifications := notifications db @ [r]\<rparr>))"

definition insert_notification ::
  "string \<Rightarrow> int \<Rightarrow> string \<Rightarrow> string \<Rightarrow> string \<Rightarrow> string \<Rightarrow> unit db_op" where
  "insert_notification uuid now dest topic message ser db =
     (case insert_notification_row (notification_values uuid now dest topic message ser) db of
        Inr db' \<Rightarrow> (Inr (), db')
      | Inl e \<Rightarrow>
          (Inl (if is_foreign_key_violation e then non_existent_workflow dest else from_sqlx e), db))"

definition unconsumed :: "string \<Rightarrow> string \<Rightarrow> notification_row \<Rightarrow> bool" where
  "unconsumed dest topic r \<longleftrightarrow>
     nt_destination_uuid r = dest \<and> nt_topic r = topic \<and> \<not> nt_consumed r"

definition notification_exists_unconsumed :: "string \<Rightarrow> string \<Rightarrow> sysdb \<Rightarrow> bool" where
  "notification_exists_unconsumed dest topic db = sql_exists (unconsumed dest topic) (notifications db)"

text \<open>The unconsumed rows in the order the query reads them.\<close>

definition inbox_rows :: "string \<Rightarrow> string \<Rightarrow> sysdb \<Rightarrow> notification_row list" where
  "inbox_rows dest topic db =
     sort_key nt_created_at_epoch_ms (sql_select (unconsumed dest topic) (notifications db))"

definition consume_oldest_notification ::
  "string \<Rightarrow> string \<Rightarrow> sysdb \<Rightarrow> (string \<times> string option) option \<times> sysdb" where
  "consume_oldest_notification dest topic db =
     (case sql_limit 1 (inbox_rows dest topic db) of
        [] \<Rightarrow> (None, db)
      | r # _ \<Rightarrow>
          (Some (nt_message r, nt_serialization r),
           db\<lparr>notifications :=
                sql_update (\<lambda>x. nt_message_uuid x = nt_message_uuid r)
                  (\<lambda>x. x\<lparr>nt_consumed := True\<rparr>) (notifications db)\<rparr>))"

subsection \<open>Events\<close>

definition upsert_workflow_event ::
  "string \<Rightarrow> string \<Rightarrow> string \<Rightarrow> string \<Rightarrow> unit db_op" where
  "upsert_workflow_event w k v ser db =
     (if \<not> workflow_exists db w
      then (Inl (from_sqlx (foreign_key_violation ''workflow_events_workflow_uuid_fkey'')), db)
      else (Inr (), db\<lparr>workflow_events :=
              sql_upsert event_key (\<lambda>r. r\<lparr>ev_value := v, ev_serialization := Some ser\<rparr>)
                \<lparr>ev_workflow_uuid = w, ev_key = k, ev_value = v, ev_serialization = Some ser\<rparr>
                (workflow_events db)\<rparr>))"

definition insert_workflow_event_history ::
  "string \<Rightarrow> int \<Rightarrow> string \<Rightarrow> string \<Rightarrow> string \<Rightarrow> unit db_op" where
  "insert_workflow_event_history w function_id k v ser db =
     (if \<not> workflow_exists db w
      then (Inl (from_sqlx
             (foreign_key_violation ''workflow_events_history_workflow_uuid_fkey'')), db)
      else (Inr (), db\<lparr>workflow_events_history :=
              sql_upsert history_key (\<lambda>r. r\<lparr>eh_value := v, eh_serialization := Some ser\<rparr>)
                \<lparr>eh_workflow_uuid = w, eh_function_id = function_id, eh_key = k, eh_value = v,
                 eh_serialization = Some ser\<rparr>
                (workflow_events_history db)\<rparr>))"

definition select_workflow_event ::
  "string \<Rightarrow> string \<Rightarrow> sysdb \<Rightarrow> (string \<times> string option) option" where
  "select_workflow_event w k db =
     map_option (\<lambda>r. (ev_value r, ev_serialization r)) (find_event db w k)"

subsection \<open>Facts: notifications\<close>

lemma notification_values_simps [simp]:
  "nt_destination_uuid (notification_values u now d t m s) = d"
  "nt_topic (notification_values u now d t m s) = t"
  "nt_message (notification_values u now d t m s) = m"
  "nt_serialization (notification_values u now d t m s) = Some s"
  "nt_message_uuid (notification_values u now d t m s) = u"
  "nt_created_at_epoch_ms (notification_values u now d t m s) = now"
  "\<not> nt_consumed (notification_values u now d t m s)"
  by (simp_all add: notification_values_def)

lemma insert_notification_Inr:
  "insert_notification u now d t m s db = (Inr (), db') \<longleftrightarrow>
     u \<notin> nt_message_uuid ` set (notifications db) \<and> workflow_exists db d \<and>
     db' = db\<lparr>notifications := notifications db @ [notification_values u now d t m s]\<rparr>"
  by (auto simp: insert_notification_def insert_notification_row_def sql_exists_iff split: if_splits)

lemma insert_notification_Inl_state:
  "insert_notification u now d t m s db = (Inl e, db') \<Longrightarrow> db' = db"
  by (auto simp: insert_notification_def split: sum.splits)

lemma insert_notification_preserves: "preserves db_wf (insert_notification u now d t m s)"
proof (rule preservesI)
  fix db assume "db_wf db"
  then show "db_wf (snd (insert_notification u now d t m s db))"
    by (auto simp: insert_notification_def insert_notification_row_def sql_exists_iff
        workflow_exists_iff image_iff intro!: db_wf_insert_notification)
qed

lemma insert_notification_workflows [simp]:
  "workflow_status (snd (insert_notification u now d t m s db)) = workflow_status db"
  by (simp add: insert_notification_def insert_notification_row_def)

lemma db_wf_consume: "db_wf db \<Longrightarrow> db_wf (db\<lparr>notifications :=
    sql_update P (\<lambda>x. x\<lparr>nt_consumed := True\<rparr>) (notifications db)\<rparr>)"
  by (auto simp: db_wf_def keys_ok_def refs_ok_def uuids_def distinct_map_sql_update
      set_sql_update split: if_splits)

lemma consume_oldest_db_wf: "db_wf db \<Longrightarrow> db_wf (snd (consume_oldest_notification d t db))"
  by (auto simp: consume_oldest_notification_def db_wf_consume split: list.splits)

lemma consume_oldest_workflows [simp]:
  "workflow_status (snd (consume_oldest_notification d t db)) = workflow_status db"
  by (auto simp: consume_oldest_notification_def split: list.splits)

lemma consume_oldest_operations [simp]:
  "find_operation (snd (consume_oldest_notification d t db)) w f = find_operation db w f"
  by (auto simp: consume_oldest_notification_def split: list.splits)

lemma inbox_rows_empty: "inbox_rows d t db = [] \<longleftrightarrow> \<not> notification_exists_unconsumed d t db"
  by (auto simp: inbox_rows_def notification_exists_unconsumed_def sql_exists_iff sql_select_def
      filter_empty_conv)
    (metis (mono_tags, lifting) filter_empty_conv list.size(3) length_0_conv length_sort)+

lemma consume_oldest_cases:
  "consume_oldest_notification d t db =
     (case inbox_rows d t db of
        [] \<Rightarrow> (None, db)
      | r # _ \<Rightarrow> (Some (nt_message r, nt_serialization r),
          db\<lparr>notifications := sql_update (\<lambda>x. nt_message_uuid x = nt_message_uuid r)
               (\<lambda>x. x\<lparr>nt_consumed := True\<rparr>) (notifications db)\<rparr>))"
  by (simp add: consume_oldest_notification_def sql_limit_def split: list.splits)

text \<open>Marking the first row of the inbox removes exactly that row from it.\<close>

lemma filter_unconsumed_update:
  "filter (unconsumed d t) (sql_update (\<lambda>x. nt_message_uuid x = u) (\<lambda>x. x\<lparr>nt_consumed := True\<rparr>) ns) =
   filter (\<lambda>x. nt_message_uuid x \<noteq> u) (filter (unconsumed d t) ns)"
  by (induction ns) (auto simp: unconsumed_def)

lemma inbox_rows_consume:
  assumes "db_wf db" and "inbox_rows d t db = r # rs"
  shows "inbox_rows d t (db\<lparr>notifications := sql_update (\<lambda>x. nt_message_uuid x = nt_message_uuid r)
      (\<lambda>x. x\<lparr>nt_consumed := True\<rparr>) (notifications db)\<rparr>) = rs"
proof -
  have "distinct (map nt_message_uuid (filter (unconsumed d t) (notifications db)))"
    using assms(1) by (simp add: db_wf_def keys_ok_def distinct_map_filter)
  then have "distinct (map nt_message_uuid (inbox_rows d t db))"
    by (simp add: inbox_rows_def sql_select_def distinct_map)
  then have "filter (\<lambda>x. nt_message_uuid x \<noteq> nt_message_uuid r) (r # rs) = rs"
    using assms(2) by (auto simp: filter_id_conv image_iff)
  with assms(2) show ?thesis
    by (simp add: inbox_rows_def sql_select_def filter_unconsumed_update
        sort_key_filter [of _ "\<lambda>x. nt_message_uuid x \<noteq> nt_message_uuid r"] del: filter_filter)
qed

lemma inbox_rows_other:
  assumes "db_wf db" and "inbox_rows d t db = r # rs" and "(d', t') \<noteq> (d, t)"
  shows "inbox_rows d' t' (db\<lparr>notifications := sql_update (\<lambda>x. nt_message_uuid x = nt_message_uuid r)
      (\<lambda>x. x\<lparr>nt_consumed := True\<rparr>) (notifications db)\<rparr>) = inbox_rows d' t' db"
proof -
  have "r \<in> set (inbox_rows d t db)" using assms(2) by simp
  then have r: "r \<in> set (notifications db)" "unconsumed d t r"
    by (simp_all add: inbox_rows_def sql_select_def)
  have "nt_message_uuid x \<noteq> nt_message_uuid r"
    if "x \<in> set (notifications db)" "unconsumed d' t' x" for x
  proof
    assume "nt_message_uuid x = nt_message_uuid r"
    with that(1) r(1) assms(1) have "x = r"
      by (auto simp: db_wf_def keys_ok_def distinct_map inj_on_def)
    with that(2) r(2) assms(3) show False by (simp add: unconsumed_def)
  qed
  then have "filter (\<lambda>x. nt_message_uuid x \<noteq> nt_message_uuid r)
      (filter (unconsumed d' t') (notifications db)) = filter (unconsumed d' t') (notifications db)"
    by (subst filter_id_conv) auto
  then show ?thesis by (simp add: inbox_rows_def sql_select_def filter_unconsumed_update del: filter_filter)
qed

subsection \<open>The mailbox contract\<close>

definition inbox :: "string \<Rightarrow> string \<Rightarrow> sysdb \<Rightarrow> (string \<times> string option) list" where
  "inbox dest topic db = map (\<lambda>r. (nt_message r, nt_serialization r)) (inbox_rows dest topic db)"

text \<open>A message is (id, clock, text, serialization); it is accepted when its id is new, the
  destination exists and the clock has not gone back behind the waiting messages.\<close>

type_synonym outgoing = "string \<times> int \<times> string \<times> string"

definition inbox_accepts :: "string \<Rightarrow> string \<Rightarrow> outgoing \<Rightarrow> sysdb \<Rightarrow> bool" where
  "inbox_accepts dest topic i db = (case i of (u, now, m, ser) \<Rightarrow>
     u \<notin> nt_message_uuid ` set (notifications db) \<and> workflow_exists db dest \<and>
     list_all (\<lambda>r. nt_created_at_epoch_ms r \<le> now) (inbox_rows dest topic db))"

definition inbox_view :: "outgoing \<Rightarrow> string \<times> string option" where
  "inbox_view i = (case i of (u, now, m, ser) \<Rightarrow> (m, Some ser))"

definition inbox_push :: "string \<Rightarrow> string \<Rightarrow> outgoing \<Rightarrow> sysdb \<Rightarrow> sysdb" where
  "inbox_push dest topic i db = (case i of (u, now, m, ser) \<Rightarrow>
     snd (insert_notification u now dest topic m ser db))"

lemma inbox_rows_push:
  assumes "inbox_accepts d t (u, now, m, ser) db"
  shows "inbox_rows d t (snd (insert_notification u now d t m ser db)) =
    inbox_rows d t db @ [notification_values u now d t m ser]"
proof -
  have ok: "u \<notin> nt_message_uuid ` set (notifications db)" "workflow_exists db d"
    using assms by (simp_all add: inbox_accepts_def)
  have "insert_notification u now d t m ser db =
      (Inr (), db\<lparr>notifications := notifications db @ [notification_values u now d t m ser]\<rparr>)"
    using ok by (simp add: insert_notification_Inr)
  then show ?thesis
    using assms
    by (auto simp: inbox_rows_def sql_select_def unconsumed_def inbox_accepts_def list_all_iff
        intro!: sort_key_snoc)
qed

interpretation inbox_box: mailbox db_wf "inbox d t" "inbox_accepts d t" inbox_view
  "inbox_push d t" "consume_oldest_notification d t"
  for d t
proof
  fix s :: sysdb and i :: outgoing and m ms
  assume wf: "db_wf s"
  obtain u now msg ser where i: "i = (u, now, msg, ser)" by (metis prod_cases4)
  show "db_wf (inbox_push d t i s)" if "inbox_accepts d t i s"
    using preservesD [OF insert_notification_preserves wf] by (simp add: inbox_push_def i)
  show "inbox d t (inbox_push d t i s) = inbox d t s @ [inbox_view i]" if "inbox_accepts d t i s"
    using that by (simp add: inbox_push_def i inbox_def inbox_rows_push inbox_view_def)
  show "db_wf (snd (consume_oldest_notification d t s))"
    using wf by (rule consume_oldest_db_wf)
  show "consume_oldest_notification d t s = (None, s)" if "inbox d t s = []"
    using that by (simp add: inbox_def consume_oldest_cases)
  show "fst (consume_oldest_notification d t s) = Some m" if "inbox d t s = m # ms"
    using that by (auto simp: inbox_def consume_oldest_cases split: list.splits)
  show "inbox d t (snd (consume_oldest_notification d t s)) = ms" if "inbox d t s = m # ms"
  proof -
    from that obtain r rs where r: "inbox_rows d t s = r # rs" and ms: "ms = map (\<lambda>r. (nt_message r, nt_serialization r)) rs"
      by (auto simp: inbox_def)
    show ?thesis
      using inbox_rows_consume [OF wf r] r ms by (simp add: inbox_def consume_oldest_cases)
  qed
qed

subsection \<open>Facts: events\<close>

lemma upsert_event_Inr:
  "fst (upsert_workflow_event w k v ser db) = Inr () \<longleftrightarrow> workflow_exists db w"
  by (simp add: upsert_workflow_event_def)

lemma find_event_upsert:
  assumes "workflow_exists db w"
  shows "find_event (snd (upsert_workflow_event w k v ser db)) w' k' =
    (if (w', k') = (w, k)
     then Some \<lparr>ev_workflow_uuid = w, ev_key = k, ev_value = v, ev_serialization = Some ser\<rparr>
     else find_event db w' k')"
proof -
  let ?r = "\<lparr>ev_workflow_uuid = w, ev_key = k, ev_value = v, ev_serialization = Some ser\<rparr>"
  have "find_event (snd (upsert_workflow_event w k v ser db)) w' k' =
      (if (w', k') = event_key ?r
       then Some (case find_key event_key (w', k') (workflow_events db) of None \<Rightarrow> ?r
         | Some x \<Rightarrow> x\<lparr>ev_value := v, ev_serialization := Some ser\<rparr>)
       else find_key event_key (w', k') (workflow_events db))"
    using assms
    by (simp add: upsert_workflow_event_def find_event_def find_key_upsert del: Pair_inject)
  then show ?thesis
    by (auto simp: find_event_def split: option.splits dest!: find_key_SomeD)
qed

lemma upsert_event_db_wf: "preserves db_wf (upsert_workflow_event w k v ser)"
proof (rule preservesI)
  fix db assume wf: "db_wf db"
  let ?f = "\<lambda>r. r\<lparr>ev_value := v, ev_serialization := Some ser\<rparr>"
  let ?r = "\<lparr>ev_workflow_uuid = w, ev_key = k, ev_value = v, ev_serialization = Some ser\<rparr>"
  have d: "distinct (map event_key (sql_upsert event_key ?f ?r (workflow_events db)))"
    using wf by (intro distinct_sql_upsert) (auto simp: db_wf_def keys_ok_def)
  have "ev_workflow_uuid ` set (sql_upsert event_key ?f ?r (workflow_events db)) \<subseteq>
      insert w (ev_workflow_uuid ` set (workflow_events db))"
    using keys_sql_upsert [of event_key ?r ev_workflow_uuid ?f "workflow_events db"] by simp
  then have "ev_workflow_uuid ` set (sql_upsert event_key ?f ?r (workflow_events db)) \<subseteq>
      insert w (uuids db)"
    using db_wf_child_uuids(2) [OF wf] by blast
  with wf d show "db_wf (snd (upsert_workflow_event w k v ser db))"
    by (auto simp: upsert_workflow_event_def workflow_exists_iff insert_absorb
        intro!: db_wf_replace(2))
qed

lemma insert_event_history_db_wf: "preserves db_wf (insert_workflow_event_history w f k v ser)"
proof (rule preservesI)
  fix db assume wf: "db_wf db"
  let ?f = "\<lambda>r. r\<lparr>eh_value := v, eh_serialization := Some ser\<rparr>"
  let ?r = "\<lparr>eh_workflow_uuid = w, eh_function_id = f, eh_key = k, eh_value = v,
      eh_serialization = Some ser\<rparr>"
  have d: "distinct (map history_key (sql_upsert history_key ?f ?r (workflow_events_history db)))"
    using wf by (intro distinct_sql_upsert) (auto simp: db_wf_def keys_ok_def)
  have "eh_workflow_uuid ` set (sql_upsert history_key ?f ?r (workflow_events_history db)) \<subseteq>
      insert w (eh_workflow_uuid ` set (workflow_events_history db))"
    using keys_sql_upsert [of history_key ?r eh_workflow_uuid ?f "workflow_events_history db"]
    by simp
  then have "eh_workflow_uuid ` set
      (sql_upsert history_key ?f ?r (workflow_events_history db)) \<subseteq> insert w (uuids db)"
    using db_wf_child_uuids(3) [OF wf] by blast
  with wf d show "db_wf (snd (insert_workflow_event_history w f k v ser db))"
    by (auto simp: insert_workflow_event_history_def workflow_exists_iff insert_absorb
        intro!: db_wf_replace(3))
qed

lemma upsert_event_frame [simp]:
  "workflow_status (snd (upsert_workflow_event w k v ser db)) = workflow_status db"
  "operation_outputs (snd (upsert_workflow_event w k v ser db)) = operation_outputs db"
  by (simp_all add: upsert_workflow_event_def)

lemma insert_event_history_frame [simp]:
  "workflow_status (snd (insert_workflow_event_history w f k v ser db)) = workflow_status db"
  "operation_outputs (snd (insert_workflow_event_history w f k v ser db)) = operation_outputs db"
  "workflow_events (snd (insert_workflow_event_history w f k v ser db)) = workflow_events db"
  by (simp_all add: insert_workflow_event_history_def)

subsection \<open>Properties\<close>

text \<open>\<open>n\<close> receives in a row, each consuming at most one message.\<close>

fun receive_n :: "nat \<Rightarrow> string \<Rightarrow> string \<Rightarrow> sysdb \<Rightarrow> (string \<times> string option) list \<times> sysdb" where
  "receive_n 0 d t db = ([], db)"
| "receive_n (Suc n) d t db =
     (case consume_oldest_notification d t db of
        (None, db1) \<Rightarrow> receive_n n d t db1
      | (Some m, db1) \<Rightarrow> (case receive_n n d t db1 of (ms, db2) \<Rightarrow> (m # ms, db2)))"

lemma receive_n_pops: "receive_n n d t db = inbox_box.pops d t n db"
  by (induction n arbitrary: db) (simp_all split: prod.splits option.splits)

lemma inbox_consume_other:
  assumes "db_wf db" and "(d', t') \<noteq> (d, t)"
  shows "inbox d' t' (snd (consume_oldest_notification d t db)) = inbox d' t' db"
proof (cases "inbox_rows d t db")
  case Nil
  then show ?thesis by (simp add: consume_oldest_cases)
next
  case (Cons r rs)
  from inbox_rows_other [OF assms(1) this assms(2)] Cons show ?thesis
    by (simp add: inbox_def consume_oldest_cases)
qed

lemma receive_n_other:
  assumes "(d', t') \<noteq> (d, t)"
  shows "db_wf db \<Longrightarrow> inbox d' t' (snd (receive_n n d t db)) = inbox d' t' db"
proof (induction n arbitrary: db)
  case (Suc n)
  obtain m db1 where c: "consume_oldest_notification d t db = (m, db1)" by force
  have "db_wf db1" using consume_oldest_db_wf [OF Suc.prems, of d t] c by simp
  moreover have "inbox d' t' db1 = inbox d' t' db"
    using inbox_consume_other [OF Suc.prems assms] c by simp
  ultimately show ?case using Suc.IH [of db1] c by (auto split: option.splits prod.splits)
qed simp

text \<open>
  C12. A mailbox is first-in first-out and delivers exactly once. \<open>n\<close> receives on a
  (workflow, topic) return its first \<open>n\<close> waiting messages in order, leave exactly the others
  waiting, and do not touch the mailbox of any other workflow or topic.
\<close>

theorem mailbox_fifo_exactly_once:
  assumes "db_wf db"
  shows "fst (receive_n n d t db) = take n (inbox d t db) \<and>
    inbox d t (snd (receive_n n d t db)) = drop n (inbox d t db) \<and>
    db_wf (snd (receive_n n d t db)) \<and>
    ((d', t') = (d, t) \<or> inbox d' t' (snd (receive_n n d t db)) = inbox d' t' db)"
  using inbox_box.pops_take_drop [OF assms, of d t n] receive_n_other [OF _ assms, of d' t' d t n]
  by (auto simp: receive_n_pops)

definition sample_mail_db :: sysdb where
  "sample_mail_db = sample_db\<lparr>notifications :=
     [notification_values ''u2'' 20 ''wf'' ''go'' ''second'' ''portable_json'',
      notification_values ''u1'' 10 ''wf'' ''go'' ''first'' ''portable_json'',
      notification_values ''u3'' 5 ''wf'' ''stop'' ''other'' ''portable_json'']\<rparr>"

lemma sample_mail_wf: "db_wf sample_mail_db"
  by (simp add: sample_mail_db_def sample_defs db_wf_def workflows_ok_def keys_ok_def refs_ok_def
      uuids_def dedup_entry_def)

lemma sample_mail_inbox:
  "inbox ''wf'' ''go'' sample_mail_db =
     [(''first'', Some ''portable_json''), (''second'', Some ''portable_json'')]"
  by (simp add: inbox_def inbox_rows_def sql_select_def sample_mail_db_def unconsumed_def)

theorem mailbox_fifo_exactly_once_witness:
  "fst (receive_n 1 ''wf'' ''go'' sample_mail_db) = [(''first'', Some ''portable_json'')] \<and>
   inbox ''wf'' ''go'' (snd (receive_n 1 ''wf'' ''go'' sample_mail_db)) =
     [(''second'', Some ''portable_json'')]"
  using mailbox_fifo_exactly_once [OF sample_mail_wf, of 1 "''wf''" "''go''"]
  by (simp add: sample_mail_inbox)

text \<open>
  Delivery. With a fresh message id, a send to an existing workflow succeeds and puts the
  message last in that workflow's mailbox for the topic, provided the clock has not gone back;
  a send to a missing workflow fails with \<open>NonExistentWorkflow\<close> and changes nothing.
\<close>

theorem send_appends_to_mailbox:
  assumes "u \<notin> nt_message_uuid ` set (notifications db)"
  shows "if workflow_exists db d
    then \<exists>db'. insert_notification u now d t m ser db = (Inr (), db') \<and>
      (list_all (\<lambda>r. nt_created_at_epoch_ms r \<le> now) (inbox_rows d t db) \<longrightarrow>
       inbox d t db' = inbox d t db @ [(m, Some ser)])
    else insert_notification u now d t m ser db = (Inl (non_existent_workflow d), db)"
proof (cases "workflow_exists db d")
  case True
  define db' where
    "db' = db\<lparr>notifications := notifications db @ [notification_values u now d t m ser]\<rparr>"
  have ins: "insert_notification u now d t m ser db = (Inr (), db')"
    using True assms by (simp add: insert_notification_Inr db'_def)
  have "inbox d t db' = inbox d t db @ [(m, Some ser)]"
    if "list_all (\<lambda>r. nt_created_at_epoch_ms r \<le> now) (inbox_rows d t db)"
    using inbox_rows_push [of d t u now m ser db] that True assms ins
    by (simp add: inbox_accepts_def inbox_def)
  with True ins show ?thesis by auto
next
  case False
  with assms show ?thesis
    by (auto simp: insert_notification_def insert_notification_row_def sql_exists_iff)
qed

theorem send_appends_to_mailbox_witness:
  "\<exists>db'. insert_notification ''u9'' 30 ''wf'' ''go'' ''third'' ''portable_json'' sample_mail_db =
     (Inr (), db') \<and>
   insert_notification ''u9'' 30 ''nobody'' ''go'' ''third'' ''portable_json'' sample_mail_db =
     (Inl (non_existent_workflow ''nobody''), sample_mail_db)"
proof -
  have fresh: "''u9'' \<notin> nt_message_uuid ` set (notifications sample_mail_db)"
    by (simp add: sample_mail_db_def)
  have "workflow_exists sample_mail_db ''wf''" "\<not> workflow_exists sample_mail_db ''nobody''"
    by (simp_all add: sample_mail_db_def sample_defs workflow_exists_def find_workflow_def)
  then show ?thesis
    using send_appends_to_mailbox [OF fresh, of "''wf''" 30 "''go''" "''third''" "''portable_json''"]
      send_appends_to_mailbox [OF fresh, of "''nobody''" 30 "''go''" "''third''" "''portable_json''"]
    by auto
qed

end
