(* ===== verification/Dbos_Streams.thy ===== *)
theory Dbos_Streams
  imports Dbos_Notifications
begin

text \<open>
  Durable streams of \<open>crates/dbos/src/db/streams.rs\<close>: an append-only log per (workflow, key),
  closed by a sentinel row, with the snapshot and the blocking reader. The locale \<open>append_log\<close>
  states what a log promises and is interpreted on the code's writer. The blocking reader is
  modelled over the pairs of database states it observes: one when it reads the entries, one when
  it reads the producer's status afterwards.
\<close>

subsection \<open>Interface: an append-only log that can be closed\<close>

locale append_log =
  fixes inv :: "'s \<Rightarrow> bool"
    and entries :: "'s \<Rightarrow> 'e list"
    and closed :: "'s \<Rightarrow> bool"
    and append :: "'e \<Rightarrow> 's \<Rightarrow> 's option"
  assumes append_open: "inv s \<Longrightarrow> \<not> closed s \<Longrightarrow>
      \<exists>s'. append e s = Some s' \<and> inv s' \<and> entries s' = entries s @ [e]"
    and append_closed: "closed s \<Longrightarrow> append e s = None"
begin

definition append_all :: "'e list \<Rightarrow> 's \<Rightarrow> 's" where
  "append_all es s = fold (\<lambda>e s. case append e s of None \<Rightarrow> s | Some s' \<Rightarrow> s') es s"

lemma append_all_simps [simp]:
  "append_all [] s = s"
  "append_all (e # es) s = append_all es (case append e s of None \<Rightarrow> s | Some s' \<Rightarrow> s')"
  by (simp_all add: append_all_def)

lemma append_all_inv: "inv s \<Longrightarrow> inv (append_all es s)"
proof (induction es arbitrary: s)
  case (Cons e es)
  then show ?case
    using append_open [of s e] append_closed [of s e] by (cases "closed s") auto
qed simp

text \<open>What was in the log stays there, in place, whatever is appended later.\<close>

lemma append_all_prefix: "inv s \<Longrightarrow> \<exists>ys. entries (append_all es s) = entries s @ ys"
proof (induction es arbitrary: s)
  case (Cons e es)
  show ?case
  proof (cases "closed s")
    case True
    with Cons show ?thesis by (simp add: append_closed)
  next
    case False
    then obtain s' where s': "append e s = Some s'" "inv s'" "entries s' = entries s @ [e]"
      using append_open [OF Cons.prems, of e] by blast
    with Cons.IH [of s'] show ?thesis by auto
  qed
qed simp

lemma append_all_closed: "closed s \<Longrightarrow> append_all es s = s"
  by (induction es) (simp_all add: append_closed)

end

subsection \<open>The writer\<close>

definition STREAM_CLOSED_SENTINEL :: string where
  "STREAM_CLOSED_SENTINEL = ''__DBOS_STREAM_CLOSED__''"

definition in_stream :: "string \<Rightarrow> string \<Rightarrow> stream_row \<Rightarrow> bool" where
  "in_stream w k r \<longleftrightarrow> st_workflow_uuid r = w \<and> st_key r = k"

fun sql_max :: "int list \<Rightarrow> int option" where
  "sql_max [] = None"
| "sql_max (x # xs) = Some (fold max xs x)"

definition stream_closed :: "string \<Rightarrow> string \<Rightarrow> sysdb \<Rightarrow> bool" where
  "stream_closed w k db =
     sql_exists (\<lambda>r. in_stream w k r \<and> st_value r = STREAM_CLOSED_SENTINEL) (streams db)"

definition next_offset :: "string \<Rightarrow> string \<Rightarrow> sysdb \<Rightarrow> int" where
  "next_offset w k db =
     unwrap_or (sql_max (map st_offset (sql_select (in_stream w k) (streams db)))) (-1) + 1"

definition write_stream_entry ::
  "string \<Rightarrow> int \<Rightarrow> string \<Rightarrow> string \<Rightarrow> string option \<Rightarrow> unit db_op" where
  "write_stream_entry w function_id k v ser db =
     (if stream_closed w k db
      then (Inl (other (''stream '' @ [CHR 0x27] @ k @ [CHR 0x27] @ '' is already closed'')), db)
      else if \<not> workflow_exists db w
      then (Inl (from_sqlx (foreign_key_violation ''streams_workflow_uuid_fkey'')), db)
      else (Inr (), db\<lparr>streams := streams db @
              [\<lparr>st_workflow_uuid = w, st_key = k, st_value = v, st_offset = next_offset w k db,
                st_function_id = function_id, st_serialization = ser\<rparr>]\<rparr>))"

subsection \<open>The readers\<close>

record StreamEntry =
  se_value :: string
  se_offset :: int
  se_serialization :: "string option"

definition stream_entry :: "stream_row \<Rightarrow> StreamEntry" where
  "stream_entry r =
     \<lparr>se_value = st_value r, se_offset = st_offset r, se_serialization = st_serialization r\<rparr>"

definition stream_rows :: "string \<Rightarrow> string \<Rightarrow> sysdb \<Rightarrow> stream_row list" where
  "stream_rows w k db = sort_key st_offset (sql_select (in_stream w k) (streams db))"

fun until_closed :: "stream_row list \<Rightarrow> StreamEntry list \<times> bool" where
  "until_closed [] = ([], False)"
| "until_closed (r # rs) =
     (if st_value r = STREAM_CLOSED_SENTINEL then ([], True)
      else (case until_closed rs of (es, c) \<Rightarrow> (stream_entry r # es, c)))"

definition read_stream_entries ::
  "string \<Rightarrow> string \<Rightarrow> int \<Rightarrow> sysdb \<Rightarrow> StreamEntry list \<times> bool" where
  "read_stream_entries w k from_offset db =
     until_closed (filter (\<lambda>r. st_offset r \<ge> from_offset) (stream_rows w k db))"

text \<open>Decoding the entries of one round; \<open>decode\<close> is \<open>decode_value\<close> of the serializer.\<close>

fun decode_entries ::
  "(string \<Rightarrow> string option \<Rightarrow> DbosError + 'v) \<Rightarrow> StreamEntry list \<Rightarrow> DbosError + 'v list" where
  "decode_entries decode [] = Inr []"
| "decode_entries decode (e # es) =
     (case decode (se_value e) (se_serialization e) of
        Inl x \<Rightarrow> Inl x
      | Inr v \<Rightarrow> (case decode_entries decode es of Inl x \<Rightarrow> Inl x | Inr vs \<Rightarrow> Inr (v # vs)))"

fun next_current :: "int \<Rightarrow> StreamEntry list \<Rightarrow> int" where
  "next_current cur [] = cur"
| "next_current cur (e # es) = next_current (se_offset e + 1) es"

text \<open>
  One argument pair per round of the loop. The result is \<open>None\<close> when the reader is still waiting
  after the observed rounds.
\<close>

fun read_stream_blocking ::
  "(string \<Rightarrow> string option \<Rightarrow> DbosError + 'v) \<Rightarrow> string \<Rightarrow> string \<Rightarrow> bool \<Rightarrow> int \<Rightarrow> 'v list \<Rightarrow>
   (sysdb \<times> sysdb) list \<Rightarrow> (DbosError + 'v list \<times> bool) option" where
  "read_stream_blocking decode w k snapshot current values [] = None"
| "read_stream_blocking decode w k snapshot current values ((db, db_after) # rest) =
     (case read_stream_entries w k current db of (es, closed) \<Rightarrow>
        (case decode_entries decode es of
           Inl e \<Rightarrow> Some (Inl e)
         | Inr vs \<Rightarrow>
             if closed then Some (Inr (values @ vs, True))
             else if snapshot then Some (Inr (values @ vs, False))
             else (case get_status db_after w of
                     None \<Rightarrow> Some (Inl (non_existent_workflow w))
                   | Some s \<Rightarrow>
                       if s \<noteq> ''PENDING'' \<and> s \<noteq> ''ENQUEUED'' then Some (Inr (values @ vs, True))
                       else read_stream_blocking decode w k snapshot (next_current current es)
                              (values @ vs) rest)))"

subsection \<open>Facts: the writer\<close>

lemma fold_max_ge: "x \<le> fold max xs (x :: int) \<and> (\<forall>y \<in> set xs. y \<le> fold max xs x)"
proof (induction xs arbitrary: x)
  case (Cons y ys)
  from Cons [of "max y x"] show ?case by auto
qed simp

lemma sql_max_ge: "y \<in> set xs \<Longrightarrow> \<exists>m. sql_max xs = Some m \<and> y \<le> m"
  using fold_max_ge by (cases xs) auto

lemma next_offset_greater: "r \<in> set (streams db) \<Longrightarrow> in_stream w k r \<Longrightarrow> st_offset r < next_offset w k db"
  using sql_max_ge [of "st_offset r" "map st_offset (sql_select (in_stream w k) (streams db))"]
  by (auto simp: next_offset_def sql_select_def)

lemma write_stream_Inr:
  "write_stream_entry w f k v ser db = (Inr (), db') \<longleftrightarrow>
     \<not> stream_closed w k db \<and> workflow_exists db w \<and>
     db' = db\<lparr>streams := streams db @
              [\<lparr>st_workflow_uuid = w, st_key = k, st_value = v, st_offset = next_offset w k db,
                st_function_id = f, st_serialization = ser\<rparr>]\<rparr>"
  by (auto simp: write_stream_entry_def)

lemma write_stream_frame [simp]:
  "workflow_status (snd (write_stream_entry w f k v ser db)) = workflow_status db"
  "operation_outputs (snd (write_stream_entry w f k v ser db)) = operation_outputs db"
  by (simp_all add: write_stream_entry_def)

lemma write_stream_db_wf: "preserves db_wf (write_stream_entry w f k v ser)"
proof (rule preservesI)
  fix db assume wf: "db_wf db"
  let ?r = "\<lparr>st_workflow_uuid = w, st_key = k, st_value = v, st_offset = next_offset w k db,
              st_function_id = f, st_serialization = ser\<rparr>"
  have "stream_key ?r \<notin> stream_key ` set (streams db)"
  proof
    assume "stream_key ?r \<in> stream_key ` set (streams db)"
    then obtain r where r: "r \<in> set (streams db)" "stream_key r = stream_key ?r"
      by (metis (no_types, lifting) imageE)
    then have "st_offset r < next_offset w k db"
      by (intro next_offset_greater) (simp_all add: in_stream_def)
    with r(2) show False by simp
  qed
  with wf show "db_wf (snd (write_stream_entry w f k v ser db))"
    by (auto simp: write_stream_entry_def workflow_exists_iff simp del: Pair_inject prod.inject
        intro!: db_wf_insert_stream)
qed

lemma stream_rows_write:
  assumes "write_stream_entry w f k v ser db = (Inr (), db')"
  shows "stream_rows w k db' = stream_rows w k db @
    [\<lparr>st_workflow_uuid = w, st_key = k, st_value = v, st_offset = next_offset w k db,
      st_function_id = f, st_serialization = ser\<rparr>]"
  using assms
  by (auto simp: write_stream_Inr stream_rows_def sql_select_def in_stream_def
      intro!: sort_key_snoc less_imp_le [OF next_offset_greater])

lemma stream_rows_other:
  assumes "write_stream_entry w f k v ser db = (Inr (), db')" and "(w', k') \<noteq> (w, k)"
  shows "stream_rows w' k' db' = stream_rows w' k' db"
  using assms by (auto simp: write_stream_Inr stream_rows_def sql_select_def in_stream_def)

lemma stream_closed_rows:
  "stream_closed w k db \<longleftrightarrow> list_ex (\<lambda>r. st_value r = STREAM_CLOSED_SENTINEL) (stream_rows w k db)"
  by (auto simp: stream_closed_def stream_rows_def sql_exists_iff list_ex_iff sql_select_def)

text \<open>The log of a stream: the values and their serialization, in offset order.\<close>

definition stream_log :: "string \<Rightarrow> string \<Rightarrow> sysdb \<Rightarrow> (string \<times> string option) list" where
  "stream_log w k db = map (\<lambda>r. (st_value r, st_serialization r)) (stream_rows w k db)"

definition stream_append ::
  "string \<Rightarrow> int \<Rightarrow> string \<Rightarrow> string \<times> string option \<Rightarrow> sysdb \<Rightarrow> sysdb option" where
  "stream_append w f k e db =
     (case write_stream_entry w f k (fst e) (snd e) db of
        (Inl _, _) \<Rightarrow> None
      | (Inr _, db') \<Rightarrow> Some db')"

interpretation stream_store: append_log "\<lambda>db. db_wf db \<and> workflow_exists db w" "stream_log w k"
  "stream_closed w k" "stream_append w f k"
  for w k f
proof
  fix db :: sysdb and e
  show "\<exists>db'. stream_append w f k e db = Some db' \<and> (db_wf db' \<and> workflow_exists db' w) \<and>
      stream_log w k db' = stream_log w k db @ [e]"
    if inv: "db_wf db \<and> workflow_exists db w" and cl: "\<not> stream_closed w k db"
  proof -
    obtain db' where wr: "write_stream_entry w f k (fst e) (snd e) db = (Inr (), db')"
      using inv cl by (auto simp: write_stream_Inr)
    then have "db_wf db'" "workflow_exists db' w"
      using inv preservesD [OF write_stream_db_wf, of db w f k "fst e" "snd e"]
      by (simp, auto simp: write_stream_Inr)
    moreover have "stream_append w f k e db = Some db'" using wr by (simp add: stream_append_def)
    moreover have "stream_log w k db' = stream_log w k db @ [e]"
      by (simp add: stream_log_def stream_rows_write [OF wr])
    ultimately show ?thesis by blast
  qed
  show "stream_append w f k e db = None" if "stream_closed w k db"
    using that by (simp add: stream_append_def write_stream_entry_def)
qed

subsection \<open>Facts: the readers\<close>

lemma until_closed_open: "snd (until_closed rs) = list_ex (\<lambda>r. st_value r = STREAM_CLOSED_SENTINEL) rs"
  by (induction rs) (auto split: prod.splits)

lemma until_closed_entries:
  "fst (until_closed rs) = map stream_entry (takeWhile (\<lambda>r. st_value r \<noteq> STREAM_CLOSED_SENTINEL) rs)"
  by (induction rs) (auto split: prod.splits)

lemma until_closed_append:
  "\<not> snd (until_closed rs) \<Longrightarrow>
   until_closed (rs @ ss) = (fst (until_closed rs) @ fst (until_closed ss), snd (until_closed ss))"
  by (induction rs) (auto split: prod.splits if_splits)

lemma until_closed_all:
  "\<not> snd (until_closed rs) \<Longrightarrow> fst (until_closed rs) = map stream_entry rs"
  by (induction rs) (auto split: prod.splits if_splits)

lemma decode_entries_append:
  "decode_entries dec es = Inr vs \<Longrightarrow> decode_entries dec fs = Inr us \<Longrightarrow>
   decode_entries dec (es @ fs) = Inr (vs @ us)"
  by (induction es arbitrary: vs) (auto split: sum.splits)

lemma next_current_last:
  "next_current cur es = (if es = [] then cur else se_offset (last es) + 1)"
  by (induction es arbitrary: cur) auto

text \<open>
  A later state of a stream extends an earlier one, and offsets grow along it.
\<close>

definition extends :: "string \<Rightarrow> string \<Rightarrow> sysdb \<Rightarrow> sysdb \<Rightarrow> bool" where
  "extends w k db db' \<longleftrightarrow> (\<exists>ys. stream_rows w k db' = stream_rows w k db @ ys)"

definition offsets_grow :: "string \<Rightarrow> string \<Rightarrow> sysdb \<Rightarrow> bool" where
  "offsets_grow w k db \<longleftrightarrow> sorted_wrt (<) (map st_offset (stream_rows w k db))"

lemma db_wf_offsets_grow: "db_wf db \<Longrightarrow> offsets_grow w k db"
proof -
  assume wf: "db_wf db"
  have "inj_on st_offset (set (filter (in_stream w k) (streams db)))"
    and "distinct (filter (in_stream w k) (streams db))"
    using wf by (auto simp: db_wf_def keys_ok_def distinct_map inj_on_def in_stream_def)
  then have "distinct (map st_offset (stream_rows w k db))"
    by (simp add: stream_rows_def sql_select_def distinct_map)
  then show ?thesis
    by (simp add: offsets_grow_def strict_sorted_iff stream_rows_def)
qed

lemma extends_refl: "extends w k db db"
  by (simp add: extends_def)

text \<open>Reading a later state from where an open read stopped gives the rest of what it has.\<close>

lemma read_resume:
  assumes "read_stream_entries w k cur db = (es, False)" and "extends w k db db'"
    and "offsets_grow w k db'"
  shows "read_stream_entries w k cur db' =
    (es @ fst (read_stream_entries w k (next_current cur es) db'),
     snd (read_stream_entries w k (next_current cur es) db'))"
proof -
  define rs where "rs = filter (\<lambda>r. cur \<le> st_offset r) (stream_rows w k db)"
  from assms(1) have unc: "until_closed rs = (es, False)"
    by (simp add: read_stream_entries_def rs_def)
  then have es: "es = map stream_entry rs" using until_closed_all [of rs] by simp
  obtain ys where ys: "stream_rows w k db' = stream_rows w k db @ ys"
    using assms(2) by (auto simp: extends_def)
  show ?thesis
  proof (cases "rs = []")
    case True
    with es show ?thesis by simp
  next
    case False
    have srt: "sorted_wrt (<) (map st_offset (stream_rows w k db @ ys))"
      using assms(3) ys by (simp add: offsets_grow_def)
    have "sorted_wrt (<) (map st_offset (stream_rows w k db))"
      using srt by (simp add: sorted_wrt_append)
    then have "sorted_wrt (\<lambda>a b. st_offset a < st_offset b) rs"
      by (simp add: rs_def sorted_wrt_map sorted_wrt_filter)
    then have top: "st_offset r \<le> st_offset (last rs)" if "r \<in> set rs" for r
      using that
    proof (induction rs)
      case (Cons a rs)
      then show ?case
        using last_in_set [of rs] by (cases "rs = []") (auto intro: less_imp_le)
    qed simp
    have lst: "last rs \<in> set (stream_rows w k db)" "cur \<le> st_offset (last rs)"
      using False last_in_set [of rs] by (auto simp: rs_def)
    have cur': "next_current cur es = st_offset (last rs) + 1"
      using False es by (simp add: next_current_last last_map stream_entry_def)
    have above: "st_offset y > st_offset (last rs)" if "y \<in> set ys" for y
      using srt that lst(1) by (auto simp: sorted_wrt_append)
    have "filter (\<lambda>r. st_offset (last rs) + 1 \<le> st_offset r) (stream_rows w k db) = []"
      using top lst(2) by (force simp: filter_empty_conv rs_def)
    moreover have "filter (\<lambda>r. st_offset (last rs) + 1 \<le> st_offset r) ys = ys"
      using above by (force simp: filter_id_conv)
    moreover have "filter (\<lambda>r. cur \<le> st_offset r) ys = ys"
      using above lst(2) by (force simp: filter_id_conv)
    ultimately show ?thesis
      using unc ys until_closed_append [of rs ys]
      by (simp add: read_stream_entries_def cur' rs_def)
  qed
qed

subsection \<open>Properties\<close>

text \<open>
  A stream is an append-only log. On an open stream of an existing workflow a write succeeds,
  adds its entry behind all others at an offset greater than theirs, and leaves every other
  stream alone. On a closed stream, and for a missing workflow, it fails and changes nothing.
\<close>

theorem stream_write_appends:
  "if stream_closed w k db
   then write_stream_entry w f k v ser db =
     (Inl (other (''stream '' @ [CHR 0x27] @ k @ [CHR 0x27] @ '' is already closed'')), db)
   else if \<not> workflow_exists db w
   then \<exists>e. write_stream_entry w f k v ser db = (Inl e, db)
   else \<exists>db' o'. write_stream_entry w f k v ser db = (Inr (), db') \<and>
     stream_log w k db' = stream_log w k db @ [(v, ser)] \<and>
     map st_offset (stream_rows w k db') = map st_offset (stream_rows w k db) @ [o'] \<and>
     list_all (\<lambda>x. x < o') (map st_offset (stream_rows w k db)) \<and>
     ((w', k') = (w, k) \<or> stream_rows w' k' db' = stream_rows w' k' db)"
proof -
  have "\<exists>db' o'. write_stream_entry w f k v ser db = (Inr (), db') \<and>
     stream_log w k db' = stream_log w k db @ [(v, ser)] \<and>
     map st_offset (stream_rows w k db') = map st_offset (stream_rows w k db) @ [o'] \<and>
     list_all (\<lambda>x. x < o') (map st_offset (stream_rows w k db)) \<and>
     ((w', k') = (w, k) \<or> stream_rows w' k' db' = stream_rows w' k' db)"
    if "\<not> stream_closed w k db" and "workflow_exists db w"
  proof -
    from that obtain db' where wr: "write_stream_entry w f k v ser db = (Inr (), db')"
      by (auto simp: write_stream_Inr)
    have "list_all (\<lambda>x. x < next_offset w k db) (map st_offset (stream_rows w k db))"
      by (auto simp: list_all_iff stream_rows_def sql_select_def intro: next_offset_greater)
    moreover have "(w', k') = (w, k) \<or> stream_rows w' k' db' = stream_rows w' k' db"
      using stream_rows_other [OF wr, of w' k'] by blast
    ultimately show ?thesis
      using wr by (auto simp: stream_log_def stream_rows_write [OF wr])
  qed
  then show ?thesis by (auto simp: write_stream_entry_def)
qed

text \<open>The read states of successive rounds only extend the stream.\<close>

fun observed :: "string \<Rightarrow> string \<Rightarrow> sysdb \<Rightarrow> (sysdb \<times> sysdb) list \<Rightarrow> bool" where
  "observed w k db [] = True"
| "observed w k db ((d, s) # rest) = (extends w k db d \<and> offsets_grow w k d \<and> observed w k d rest)"

definition reader_result ::
  "(string \<Rightarrow> string option \<Rightarrow> DbosError + 'v) \<Rightarrow> string \<Rightarrow> string \<Rightarrow> bool \<Rightarrow> int \<Rightarrow> 'v list \<Rightarrow> bool \<Rightarrow>
   sysdb \<Rightarrow> sysdb \<Rightarrow> bool" where
  "reader_result decode w k snapshot cur vs c d s \<longleftrightarrow>
     decode_entries decode (fst (read_stream_entries w k cur d)) = Inr vs \<and>
     (c \<longleftrightarrow> snd (read_stream_entries w k cur d) \<or>
        \<not> snapshot \<and> (case get_status s w of None \<Rightarrow> False
          | Some st \<Rightarrow> st \<noteq> ''PENDING'' \<and> st \<noteq> ''ENQUEUED''))"

lemma extends_trans: "extends w k a b \<Longrightarrow> extends w k b c \<Longrightarrow> extends w k a c"
  by (auto simp: extends_def)

lemma observed_member:
  "observed w k db obs \<Longrightarrow> (d, s) \<in> set obs \<Longrightarrow> extends w k db d \<and> offsets_grow w k d"
  by (induction obs arbitrary: db) (fastforce intro: extends_trans)+

lemma read_blocking_aux:
  assumes "observed w k db0 obs"
    and "read_stream_blocking dec w k snapshot cur acc obs = Some (Inr (vs, c))"
  shows "\<exists>pre d s post us. obs = pre @ (d, s) # post \<and>
    read_stream_blocking dec w k snapshot cur acc pre = None \<and> vs = acc @ us \<and>
    reader_result dec w k snapshot cur us c d s"
  using assms
proof (induction obs arbitrary: db0 cur acc)
  case Nil
  then show ?case by simp
next
  case (Cons ob rest)
  obtain db after where ob: "ob = (db, after)" by force
  obtain es closed where rd: "read_stream_entries w k cur db = (es, closed)" by force
  note res = Cons.prems(2) [unfolded ob]
  from res rd obtain us where us: "decode_entries dec es = Inr us" by (auto split: sum.splits)
  show ?case
  proof (cases "closed \<or> snapshot \<or>
      (case get_status after w of None \<Rightarrow> True | Some st \<Rightarrow> st \<noteq> ''PENDING'' \<and> st \<noteq> ''ENQUEUED'')")
    case True
    with res rd us have "vs = acc @ us \<and> reader_result dec w k snapshot cur us c db after"
      by (auto simp: reader_result_def split: if_splits option.splits)
    then show ?thesis using ob by (intro exI [of _ "[]"]) auto
  next
    case False
    then obtain st where st: "get_status after w = Some st" "st = ''PENDING'' \<or> st = ''ENQUEUED''"
      and nc: "\<not> closed" "\<not> snapshot"
      by (auto split: option.splits)
    let ?cur = "next_current cur es"
    have rec: "read_stream_blocking dec w k snapshot ?cur (acc @ us) rest = Some (Inr (vs, c))"
      using res rd us st nc by auto
    have obs: "observed w k db rest" using Cons.prems(1) ob by simp
    obtain pre d s post us' where d: "rest = pre @ (d, s) # post" "vs = (acc @ us) @ us'"
      "reader_result dec w k snapshot ?cur us' c d s"
      and wait: "read_stream_blocking dec w k snapshot ?cur (acc @ us) pre = None"
      using Cons.IH [OF obs rec] by blast
    from observed_member [OF obs, of d s] d(1) have "extends w k db d" "offsets_grow w k d" by simp_all
    then have "read_stream_entries w k cur d =
        (es @ fst (read_stream_entries w k ?cur d), snd (read_stream_entries w k ?cur d))"
      using read_resume [of w k cur db es d] rd nc by simp
    with d(3) us have "reader_result dec w k snapshot cur (us @ us') c d s"
      by (simp add: reader_result_def decode_entries_append)
    moreover have "read_stream_blocking dec w k snapshot cur acc (ob # pre) = None"
      using wait rd us st nc ob by auto
    ultimately show ?thesis using d(1,2) by (intro exI [of _ "ob # pre"]) auto
  qed
qed

text \<open>
  What a stream holds for a reader: its entries from an offset up to the closing sentinel. A later
  state holds them too, and no more of them once the sentinel is there.
\<close>

definition rows_from :: "string \<Rightarrow> string \<Rightarrow> int \<Rightarrow> sysdb \<Rightarrow> stream_row list" where
  "rows_from w k from_offset db = filter (\<lambda>r. st_offset r \<ge> from_offset) (stream_rows w k db)"

definition entries_from :: "string \<Rightarrow> string \<Rightarrow> int \<Rightarrow> sysdb \<Rightarrow> StreamEntry list" where
  "entries_from w k from_offset db =
     map stream_entry (takeWhile (\<lambda>r. st_value r \<noteq> STREAM_CLOSED_SENTINEL) (rows_from w k from_offset db))"

definition closed_from :: "string \<Rightarrow> string \<Rightarrow> int \<Rightarrow> sysdb \<Rightarrow> bool" where
  "closed_from w k from_offset db =
     list_ex (\<lambda>r. st_value r = STREAM_CLOSED_SENTINEL) (rows_from w k from_offset db)"

lemma read_stream_entries_from:
  "read_stream_entries w k from_offset db = (entries_from w k from_offset db, closed_from w k from_offset db)"
  by (rule prod_eqI)
    (simp_all add: read_stream_entries_def entries_from_def closed_from_def rows_from_def until_closed_open
      until_closed_entries)

lemma entries_from_extends:
  assumes "extends w k d d'"
  shows "\<exists>more. entries_from w k from_offset d' = entries_from w k from_offset d @ more \<and>
    (closed_from w k from_offset d \<longrightarrow> more = [])"
proof -
  obtain ys where ys: "rows_from w k from_offset d' = rows_from w k from_offset d @ ys"
    using assms by (auto simp: extends_def rows_from_def)
  show ?thesis
  proof (cases "closed_from w k from_offset d")
    case True
    then obtain r where "r \<in> set (rows_from w k from_offset d)" "st_value r = STREAM_CLOSED_SENTINEL"
      by (auto simp: closed_from_def list_ex_iff)
    then have "entries_from w k from_offset d' = entries_from w k from_offset d"
      by (simp add: entries_from_def ys)
    then show ?thesis by simp
  next
    case False
    then have all: "\<forall>r \<in> set (rows_from w k from_offset d). st_value r \<noteq> STREAM_CLOSED_SENTINEL"
      by (simp add: closed_from_def list_ex_iff)
    then have seen: "takeWhile (\<lambda>r. st_value r \<noteq> STREAM_CLOSED_SENTINEL) (rows_from w k from_offset d) =
        rows_from w k from_offset d"
      by simp
    from all have "entries_from w k from_offset d' = entries_from w k from_offset d @
        map stream_entry (takeWhile (\<lambda>r. st_value r \<noteq> STREAM_CLOSED_SENTINEL) ys)"
      by (simp add: entries_from_def ys seen)
    with False show ?thesis by simp
  qed
qed

text \<open>
  C33. The blocking reader delivers what it has seen, each entry once and in order. When the stream
  only grows while it is read, the values returned are the decoded entries, from the requested
  offset up to the closing sentinel, that the state of the reader's last round holds: no entry
  before its last look is skipped or repeated, and what is in the log later comes after them. If that
  state has the sentinel the reader has the whole stream, now and later. The closed flag says no
  more than that: the sentinel was there, or the producer was seen inactive after the last look, and
  then entries appended in between can be missing.
\<close>

theorem reader_delivers_each_entry_once:
  assumes "observed w k db0 obs"
    and "read_stream_blocking dec w k snapshot from_offset [] obs = Some (Inr (vs, c))"
  shows "\<exists>pre d s post. obs = pre @ (d, s) # post \<and>
    read_stream_blocking dec w k snapshot from_offset [] pre = None \<and>
    decode_entries dec (entries_from w k from_offset d) = Inr vs \<and>
    (\<forall>d'. extends w k d d' \<longrightarrow>
      (\<exists>more. entries_from w k from_offset d' = entries_from w k from_offset d @ more \<and>
         (closed_from w k from_offset d \<longrightarrow> more = []))) \<and>
    (c \<longleftrightarrow> closed_from w k from_offset d \<or>
          \<not> snapshot \<and> (case get_status s w of None \<Rightarrow> False
            | Some st \<Rightarrow> st \<noteq> ''PENDING'' \<and> st \<noteq> ''ENQUEUED''))"
proof -
  obtain pre d s post where "obs = pre @ (d, s) # post"
    "read_stream_blocking dec w k snapshot from_offset [] pre = None"
    "reader_result dec w k snapshot from_offset vs c d s"
    using read_blocking_aux [OF assms] by auto
  then show ?thesis
    using entries_from_extends
    by (intro exI [of _ pre] exI [of _ d] exI [of _ s] exI [of _ post])
      (simp add: reader_result_def read_stream_entries_from)
qed

definition sample_stream_db :: "string list \<Rightarrow> sysdb" where
  "sample_stream_db vs = sample_db\<lparr>streams :=
     map (\<lambda>i. \<lparr>st_workflow_uuid = ''wf'', st_key = ''log'', st_value = vs ! i, st_offset = int i,
             st_function_id = int i, st_serialization = None\<rparr>) [0..<length vs]\<rparr>"

definition raw_decode :: "string \<Rightarrow> string option \<Rightarrow> DbosError + string" where
  "raw_decode v ser = Inr v"

lemma sample_stream_rows:
  "stream_rows ''wf'' ''log'' (sample_stream_db [''a'']) =
     [\<lparr>st_workflow_uuid = ''wf'', st_key = ''log'', st_value = ''a'', st_offset = 0,
       st_function_id = 0, st_serialization = None\<rparr>]"
  "stream_rows ''wf'' ''log'' (sample_stream_db [''a'', ''b'', STREAM_CLOSED_SENTINEL]) =
     [\<lparr>st_workflow_uuid = ''wf'', st_key = ''log'', st_value = ''a'', st_offset = 0,
       st_function_id = 0, st_serialization = None\<rparr>,
      \<lparr>st_workflow_uuid = ''wf'', st_key = ''log'', st_value = ''b'', st_offset = 1,
       st_function_id = 1, st_serialization = None\<rparr>,
      \<lparr>st_workflow_uuid = ''wf'', st_key = ''log'', st_value = STREAM_CLOSED_SENTINEL, st_offset = 2,
       st_function_id = 2, st_serialization = None\<rparr>]"
  by (simp_all add: stream_rows_def sample_stream_db_def sql_select_def in_stream_def
      upt_rec)

lemma sample_stream_status: "get_status (sample_stream_db vs) ''wf'' = Some ''PENDING''"
  by (simp add: sample_stream_db_def get_status_def sample_find as_str.simps)

lemma sample_values_open [simp]:
  "''a'' \<noteq> STREAM_CLOSED_SENTINEL" "''b'' \<noteq> STREAM_CLOSED_SENTINEL"
  by (simp_all add: STREAM_CLOSED_SENTINEL_def)

theorem reader_delivers_each_entry_once_witness:
  "read_stream_blocking raw_decode ''wf'' ''log'' False 0 []
     [(sample_stream_db [''a''], sample_stream_db [''a'']),
      (sample_stream_db [''a'', ''b'', STREAM_CLOSED_SENTINEL],
       sample_stream_db [''a'', ''b'', STREAM_CLOSED_SENTINEL])] =
     Some (Inr ([''a'', ''b''], True)) \<and>
   decode_entries raw_decode
     (entries_from ''wf'' ''log'' 0 (sample_stream_db [''a'', ''b'', STREAM_CLOSED_SENTINEL])) = Inr [''a'', ''b'']"
proof
  let ?d1 = "sample_stream_db [''a'']"
  let ?d2 = "sample_stream_db [''a'', ''b'', STREAM_CLOSED_SENTINEL]"
  let ?obs = "[(?d1, ?d1), (?d2, ?d2)]"
  have o: "observed ''wf'' ''log'' ?d1 ?obs"
    by (simp add: extends_def offsets_grow_def sample_stream_rows)
  show r: "read_stream_blocking raw_decode ''wf'' ''log'' False 0 [] ?obs =
      Some (Inr ([''a'', ''b''], True))"
    by (simp add: read_stream_entries_def sample_stream_rows sample_stream_status raw_decode_def
        stream_entry_def)
  have one: "entries_from ''wf'' ''log'' 0 ?d1 = [\<lparr>se_value = ''a'', se_offset = 0, se_serialization = None\<rparr>]"
    by (simp add: entries_from_def rows_from_def sample_stream_rows stream_entry_def)
  obtain pre d s post where d: "?obs = pre @ (d, s) # post"
    "decode_entries raw_decode (entries_from ''wf'' ''log'' 0 d) = Inr [''a'', ''b'']"
    using reader_delivers_each_entry_once [OF o r] by blast
  then have "d = ?d1 \<or> d = ?d2" by (cases pre) (auto simp: Cons_eq_append_conv)
  with d(2) one show "decode_entries raw_decode (entries_from ''wf'' ''log'' 0 ?d2) = Inr [''a'', ''b'']"
    by (auto simp: raw_decode_def)
qed

text \<open>
  The tail of a stream can be missed. When the producer appends an entry and finishes
  between the reader's look at the stream and its look at the producer's status, the reader
  reports the stream closed without the entry, although it is in the log.
\<close>

theorem reader_can_miss_the_tail:
  assumes "read_stream_entries w k cur db = (es, False)" and "decode_entries dec es = Inr vs"
    and "find_workflow db w = Some r" and "ws_status r \<noteq> as_str Cancelled"
    and "write_stream_entry w f k v ser db = (Inr (), db1)"
    and "db2 = update_workflow_outcome now w Success out None db1"
  shows "read_stream_blocking dec w k False cur [] [(db, db2)] = Some (Inr (vs, True)) \<and>
    stream_log w k db2 = stream_log w k db @ [(v, ser)]"
proof -
  have "find_workflow db1 w = Some r"
    using assms(3,5) by (auto simp: write_stream_Inr)
  then have "get_status db2 w = Some ''SUCCESS''"
    using assms(4,6) by (auto simp: get_status_def find_workflow_outcome as_str.simps
        dest: find_workflow_SomeD)
  moreover have "stream_log w k db2 = stream_log w k db1"
    by (simp add: assms(6) update_workflow_outcome_def stream_log_def stream_rows_def)
  ultimately show ?thesis
    using assms(1,2) stream_rows_write [OF assms(5)] by (simp add: stream_log_def)
qed

theorem reader_can_miss_the_tail_witness:
  "\<exists>db db2. read_stream_blocking raw_decode ''wf'' ''log'' False 0 [] [(db, db2)] =
      Some (Inr ([''a''], True)) \<and>
    stream_log ''wf'' ''log'' db2 = stream_log ''wf'' ''log'' db @ [(''b'', None)]"
proof -
  let ?d = "sample_stream_db [''a'']"
  have rd: "read_stream_entries ''wf'' ''log'' 0 ?d =
      ([\<lparr>se_value = ''a'', se_offset = 0, se_serialization = None\<rparr>], False)"
    by (simp add: read_stream_entries_def sample_stream_rows stream_entry_def
        STREAM_CLOSED_SENTINEL_def)
  have dc: "decode_entries raw_decode [\<lparr>se_value = ''a'', se_offset = 0, se_serialization = None\<rparr>] =
      Inr [''a'']"
    by (simp add: raw_decode_def)
  have fw: "find_workflow ?d ''wf'' = Some (fresh_row sample_input)"
    by (simp add: sample_stream_db_def sample_find)
  have "\<not> stream_closed ''wf'' ''log'' ?d" "workflow_exists ?d ''wf''"
    by (simp_all add: stream_closed_rows sample_stream_rows STREAM_CLOSED_SENTINEL_def
        workflow_exists_def fw)
  then obtain d1 where "write_stream_entry ''wf'' 1 ''log'' ''b'' None ?d = (Inr (), d1)"
    by (auto simp: write_stream_Inr)
  from reader_can_miss_the_tail [OF rd dc fw _ this refl] show ?thesis by auto
qed

text \<open>
  A producer that is DELAYED counts as finished: its stream reads as closed and empty before it has
  started.
\<close>

lemma delayed_producer_reads_closed:
  assumes "read_stream_entries w k cur db = ([], False)" and "get_status db' w = Some (as_str Delayed)"
  shows "read_stream_blocking dec w k False cur [] ((db, db') # rounds) = Some (Inr ([], True))"
  using assms by (simp add: as_str.simps)

end
