(* ===== verification/Dbos_Serialize.thy ===== *)
theory Dbos_Serialize
  imports Dbos_Error "HOL-Library.List_Lexorder" "HOL-Library.Char_ord"
begin

text \<open>
  Payload serialization of \<open>crates/dbos/src/serialize.rs\<close>: the writable formats, the
  format-dispatching decoder with its best-effort branch for a NULL format, the read-only
  SuperJSON and legacy DBOSJSON decoders, the input envelope and the error envelope.

  \<open>serde_json\<close> and \<open>base64\<close> are libraries: the record \<open>serde\<close> holds the functions of theirs the
  code calls, and the theorems name what they need of them. A JSON value is \<open>serde_json::Value\<close>;
  an object is its key/value list in key order (the crate's \<open>Map\<close> is a \<open>BTreeMap\<close>). Strings are
  byte strings.
\<close>

subsection \<open>JSON values\<close>

datatype number = IntNum int | FloatNum "64 word"

datatype json =
    Null
  | Bool bool
  | Number number
  | String string
  | Array "json list"
  | Object "(string \<times> json) list"

text \<open>\<open>Map::get\<close>, \<open>Map::insert\<close> and \<open>Map::remove\<close> on the ordered entries.\<close>

fun map_get :: "string \<Rightarrow> (string \<times> 'v) list \<Rightarrow> 'v option" where
  "map_get k [] = None"
| "map_get k ((k', v) # m) = (if k = k' then Some v else map_get k m)"

fun map_insert :: "string \<Rightarrow> 'v \<Rightarrow> (string \<times> 'v) list \<Rightarrow> (string \<times> 'v) list" where
  "map_insert k v [] = [(k, v)]"
| "map_insert k v ((k', v') # m) =
     (if k = k' then (k, v) # m
      else if k < k' then (k, v) # (k', v') # m
      else (k', v') # map_insert k v m)"

lemma map_get_insert: "map_get k (map_insert k' v m) = (if k = k' then Some v else map_get k m)"
  by (induction m) auto

lemma map_get_mem: "map_get k m = Some v \<Longrightarrow> (k, v) \<in> set m"
  by (induction m) (auto split: if_splits)

record serde =
  sd_to_string :: "json \<Rightarrow> string"
  sd_from_str :: "string \<Rightarrow> string + json"
  sd_b64_encode :: "string \<Rightarrow> string"
  sd_b64_decode :: "string \<Rightarrow> string + string"

subsection \<open>Formats\<close>

definition NIL_MARKER :: string where "NIL_MARKER = ''__DBOS_NIL''"
definition PORTABLE_NAME :: string where "PORTABLE_NAME = ''portable_json''"
definition DBOS_JSON_NAME :: string where "DBOS_JSON_NAME = ''DBOS_JSON''"
definition SUPERJSON_NAME :: string where "SUPERJSON_NAME = ''js_superjson''"
definition PY_PICKLE_NAME :: string where "PY_PICKLE_NAME = ''py_pickle''"

datatype Format = Portable | DbosJson

fun format_name :: "Format \<Rightarrow> string" where
  "format_name Portable = PORTABLE_NAME"
| "format_name DbosJson = DBOS_JSON_NAME"

definition from_name :: "string option \<Rightarrow> Format" where
  "from_name n = (if n = Some DBOS_JSON_NAME then DbosJson else Portable)"

lemmas format_names =
  NIL_MARKER_def PORTABLE_NAME_def DBOS_JSON_NAME_def SUPERJSON_NAME_def PY_PICKLE_NAME_def

lemma format_name_distinct [simp]:
  "PORTABLE_NAME \<noteq> DBOS_JSON_NAME" "DBOS_JSON_NAME \<noteq> PORTABLE_NAME"
  "PORTABLE_NAME \<noteq> SUPERJSON_NAME" "SUPERJSON_NAME \<noteq> PORTABLE_NAME"
  "DBOS_JSON_NAME \<noteq> SUPERJSON_NAME" "SUPERJSON_NAME \<noteq> DBOS_JSON_NAME"
  "PY_PICKLE_NAME \<noteq> PORTABLE_NAME" "PY_PICKLE_NAME \<noteq> DBOS_JSON_NAME"
  "PY_PICKLE_NAME \<noteq> SUPERJSON_NAME" "PORTABLE_NAME \<noteq> []" "DBOS_JSON_NAME \<noteq> []"
  by (simp_all add: format_names)

lemma from_name_format_name: "from_name (Some (format_name f)) = f"
  by (cases f) (simp_all add: from_name_def)

interpretation format_codec: codec "\<lambda>f. Some (format_name f)" "\<lambda>n. Some (from_name n)"
  by standard (simp add: from_name_format_name)

subsection \<open>Encoding\<close>

definition encode_json_value :: "serde \<Rightarrow> json \<Rightarrow> Format \<Rightarrow> string" where
  "encode_json_value sd v fmt =
     (case fmt of
        Portable \<Rightarrow> if v = Null then ''null'' else sd_to_string sd v
      | DbosJson \<Rightarrow> if v = Null then NIL_MARKER else sd_b64_encode sd (sd_to_string sd v))"

definition encode_value ::
  "serde \<Rightarrow> ('a \<Rightarrow> string + json) \<Rightarrow> 'a \<Rightarrow> Format \<Rightarrow> DbosError + string" where
  "encode_value sd to_value x fmt =
     (case to_value x of
        Inl e \<Rightarrow> Inl (from_serde e)
      | Inr v \<Rightarrow> Inr (encode_json_value sd v fmt))"

subsection \<open>SuperJSON and legacy DBOSJSON (read only)\<close>

fun digits_value :: "nat \<Rightarrow> string \<Rightarrow> nat option" where
  "digits_value acc [] = Some acc"
| "digits_value acc (c # cs) =
     (if CHR ''0'' \<le> c \<and> c \<le> CHR ''9''
      then digits_value (10 * acc + (of_char c - 48)) cs else None)"

definition parse_digits :: "string \<Rightarrow> nat option" where
  "parse_digits s = (if s = [] then None else digits_value 0 s)"

text \<open>\<open>str::parse\<close> for \<open>i64\<close>, \<open>u64\<close> and \<open>usize\<close>: an optional sign, digits, and the range.\<close>

definition parse_i64 :: "string \<Rightarrow> int option" where
  "parse_i64 s =
     (case s of
        [] \<Rightarrow> None
      | c # cs \<Rightarrow>
          if c = CHR ''-''
          then opt_filter (\<lambda>n. n \<ge> - (2 ^ 63)) (map_option (\<lambda>n. - int n) (parse_digits cs))
          else opt_filter (\<lambda>n. n < 2 ^ 63)
                 (map_option int (parse_digits (if c = CHR ''+'' then cs else s))))"

definition parse_u64 :: "string \<Rightarrow> nat option" where
  "parse_u64 s =
     (case s of
        [] \<Rightarrow> None
      | c # cs \<Rightarrow>
          opt_filter (\<lambda>n. n < 2 ^ 64) (parse_digits (if c = CHR ''+'' then cs else s)))"

definition parse_bigint :: "string \<Rightarrow> json option" where
  "parse_bigint s =
     (case parse_i64 s of
        Some n \<Rightarrow> Some (Number (IntNum n))
      | None \<Rightarrow> map_option (\<lambda>n. Number (IntNum (int n))) (parse_u64 s))"

text \<open>The loop over the pairs of a Map: \<open>None\<close> when an element is not a pair.\<close>

fun map_pairs :: "serde \<Rightarrow> json list \<Rightarrow> (string \<times> json) list \<Rightarrow> (string \<times> json) list option" where
  "map_pairs sd [] obj = Some obj"
| "map_pairs sd (Array [String k, v] # ps) obj = map_pairs sd ps (map_insert k v obj)"
| "map_pairs sd (Array [k, v] # ps) obj = map_pairs sd ps (map_insert (sd_to_string sd k) v obj)"
| "map_pairs sd (_ # ps) obj = None"

definition apply_superjson_tag :: "serde \<Rightarrow> string \<Rightarrow> json \<Rightarrow> json" where
  "apply_superjson_tag sd tag v =
     (if tag = ''bigint''
      then (case v of String s \<Rightarrow> unwrap_or (parse_bigint s) v | _ \<Rightarrow> v)
      else if tag = ''map''
      then (case v of Array pairs \<Rightarrow> (case map_pairs sd pairs [] of
                                       None \<Rightarrow> v | Some obj \<Rightarrow> Object obj)
                    | _ \<Rightarrow> v)
      else v)"

fun navigate :: "string \<Rightarrow> json \<Rightarrow> json option" where
  "navigate k (Object m) = map_get k m"
| "navigate k (Array xs) =
     (case parse_u64 k of
        None \<Rightarrow> None
      | Some i \<Rightarrow> if i < length xs then Some (xs ! i) else None)"
| "navigate k _ = None"

fun put_child :: "string \<Rightarrow> json \<Rightarrow> json \<Rightarrow> json" where
  "put_child k v (Object m) = Object (map_insert k v m)"
| "put_child k v (Array xs) =
     (case parse_u64 k of None \<Rightarrow> Array xs | Some i \<Rightarrow> Array (xs[i := v]))"
| "put_child k v j = j"

fun apply_superjson_meta :: "serde \<Rightarrow> json \<Rightarrow> json \<Rightarrow> json"
  and apply_superjson_children :: "serde \<Rightarrow> (string \<times> json) list \<Rightarrow> json \<Rightarrow> json" where
  "apply_superjson_meta sd (String tag) v = apply_superjson_tag sd tag v"
| "apply_superjson_meta sd (Array [String tag]) v = apply_superjson_tag sd tag v"
| "apply_superjson_meta sd (Array (String tag # sub # rest)) v =
     apply_superjson_tag sd tag (apply_superjson_meta sd sub v)"
| "apply_superjson_meta sd (Object children) v = apply_superjson_children sd children v"
| "apply_superjson_meta sd _ v = v"
| "apply_superjson_children sd [] v = v"
| "apply_superjson_children sd ((key, child) # cs) v =
     apply_superjson_children sd cs
       (case navigate key v of
          None \<Rightarrow> v
        | Some node \<Rightarrow> put_child key (apply_superjson_meta sd child node) v)"

text \<open>The wrapper of a legacy value, if it is one that is replaced.\<close>

definition legacy_wrapped :: "(string \<times> json) list \<Rightarrow> json option" where
  "legacy_wrapped m =
     (if map_get ''dbos_type'' m = Some (String ''dbos_Date'')
      then map_get ''dbos_data'' m
      else if map_get ''dbos_type'' m = Some (String ''dbos_BigInt'')
      then (case map_get ''dbos_data'' m of Some (String s) \<Rightarrow> parse_bigint s | _ \<Rightarrow> None)
      else None)"

fun apply_legacy_revival :: "json \<Rightarrow> json"
  and revive_fields :: "(string \<times> json) list \<Rightarrow> (string \<times> json) list"
  and revive_list :: "json list \<Rightarrow> json list" where
  "apply_legacy_revival (Object m) =
     (case legacy_wrapped m of Some v \<Rightarrow> v | None \<Rightarrow> Object (revive_fields m))"
| "apply_legacy_revival (Array xs) = Array (revive_list xs)"
| "apply_legacy_revival v = v"
| "revive_fields [] = []"
| "revive_fields ((k, v) # m) = (k, apply_legacy_revival v) # revive_fields m"
| "revive_list [] = []"
| "revive_list (v # vs) = apply_legacy_revival v # revive_list vs"

definition SUPERJSON_MARKER :: string where
  "SUPERJSON_MARKER = CHR 0x22 # ''__dbos_serializer'' @ [CHR 0x22, CHR '':'', CHR 0x22] @
     ''superjson'' @ [CHR 0x22]"

definition decode_superjson :: "serde \<Rightarrow> string \<Rightarrow> DbosError + json" where
  "decode_superjson sd data =
     (case sd_from_str sd data of
        Inl e \<Rightarrow> Inl (from_serde e)
      | Inr outer \<Rightarrow>
          if str_contains data SUPERJSON_MARKER
          then (case outer of
                  Object obj \<Rightarrow>
                    let v = unwrap_or (map_get ''json'' obj) Null
                    in Inr (case Option.bind (map_get ''meta'' obj)
                                   (\<lambda>m. case m of Object fs \<Rightarrow> map_get ''values'' fs | _ \<Rightarrow> None) of
                              None \<Rightarrow> v
                            | Some vals \<Rightarrow> apply_superjson_meta sd vals v)
                | _ \<Rightarrow> Inl (other ''invalid js_superjson payload: not an object''))
          else Inr (apply_legacy_revival outer))"

subsection \<open>Decoding\<close>

definition decode_base64_json :: "serde \<Rightarrow> string \<Rightarrow> DbosError + json" where
  "decode_base64_json sd s =
     (case sd_b64_decode sd s of
        Inl e \<Rightarrow> Inl (from_base64 e)
      | Inr bytes \<Rightarrow>
          (case sd_from_str sd bytes of Inl e \<Rightarrow> Inl (from_serde e) | Inr v \<Rightarrow> Inr v))"

definition decode_portable :: "serde \<Rightarrow> string option \<Rightarrow> DbosError + json" where
  "decode_portable sd data =
     (case data of
        None \<Rightarrow> Inr Null
      | Some s \<Rightarrow>
          if s = ''null'' then Inr Null
          else (case sd_from_str sd s of Inl e \<Rightarrow> Inl (from_serde e) | Inr v \<Rightarrow> Inr v))"

text \<open>The \<open>{:?}\<close> rendering of a string: quoted, with quotes, backslashes and control characters
  escaped.\<close>

definition hex_digit :: "nat \<Rightarrow> char" where
  "hex_digit d = (if d < 10 then char_of (48 + d) else char_of (87 + d))"

definition debug_char :: "char \<Rightarrow> string" where
  "debug_char c =
     (let n = (of_char c :: nat)
      in if n = 0 then [CHR 0x5C, CHR ''0'']
         else if n = 9 then [CHR 0x5C, CHR ''t'']
         else if n = 10 then [CHR 0x5C, CHR ''n'']
         else if n = 13 then [CHR 0x5C, CHR ''r'']
         else if n = 34 then [CHR 0x5C, CHR 0x22]
         else if n = 92 then [CHR 0x5C, CHR 0x5C]
         else if n < 16 then [CHR 0x5C, CHR ''u'', CHR 0x7B, hex_digit n, CHR 0x7D]
         else if n < 32 \<or> n = 127
         then [CHR 0x5C, CHR ''u'', CHR 0x7B, hex_digit (n div 16), hex_digit (n mod 16), CHR 0x7D]
         else [c])"

definition debug_str :: "string \<Rightarrow> string" where
  "debug_str s = CHR 0x22 # concat (map debug_char s) @ [CHR 0x22]"

definition unknown_format :: "string \<Rightarrow> DbosError" where
  "unknown_format n = other (''unknown serialization format '' @ debug_str n)"

definition decode_to_json :: "serde \<Rightarrow> string option \<Rightarrow> string option \<Rightarrow> DbosError + json" where
  "decode_to_json sd data fmt =
     (case fmt of
        Some n \<Rightarrow>
          if n = PORTABLE_NAME then decode_portable sd data
          else if n = DBOS_JSON_NAME \<or> n = [] then
            (case data of
               None \<Rightarrow> Inr Null
             | Some s \<Rightarrow> if s = NIL_MARKER then Inr Null else decode_base64_json sd s)
          else if n = SUPERJSON_NAME then
            (case data of None \<Rightarrow> Inr Null | Some s \<Rightarrow> decode_superjson sd s)
          else if n = PY_PICKLE_NAME then
            Inl (other (''py_pickle is not portable; re-serialize such rows to portable_json '' @
                        ''on the Python side''))
          else Inl (unknown_format n)
      | None \<Rightarrow>
          (case data of
             None \<Rightarrow> Inr Null
           | Some s \<Rightarrow>
               if s = ''null'' \<or> s = NIL_MARKER then Inr Null
               else (case decode_superjson sd s of
                       Inr v \<Rightarrow> Inr v
                     | Inl _ \<Rightarrow> decode_base64_json sd s)))"

definition decode_value ::
  "serde \<Rightarrow> (json \<Rightarrow> string + 'a) \<Rightarrow> string option \<Rightarrow> string option \<Rightarrow> DbosError + 'a" where
  "decode_value sd from_value data fmt =
     (case decode_to_json sd data fmt of
        Inl e \<Rightarrow> Inl e
      | Inr j \<Rightarrow> (case from_value j of Inl e \<Rightarrow> Inl (from_serde e) | Inr x \<Rightarrow> Inr x))"

subsection \<open>Workflow inputs\<close>

text \<open>
  \<open>PortableArgs\<close> and its derived (de)serialization: the envelope has the positional arguments and
  the named ones, each defaulting to empty when missing.
\<close>

record PortableArgs =
  positional_args :: "json list"
  named_args :: "(string \<times> json) list"

text \<open>\<open>parse_args\<close> is the derived \<open>from_str::<PortableArgs>\<close>.\<close>

definition encode_input ::
  "serde \<Rightarrow> (PortableArgs \<Rightarrow> string) \<Rightarrow> ('a \<Rightarrow> string + json) \<Rightarrow> 'a \<Rightarrow> Format \<Rightarrow> DbosError + string" where
  "encode_input sd args_to_string to_value x fmt =
     (case fmt of
        Portable \<Rightarrow>
          (case to_value x of
             Inl e \<Rightarrow> Inl (from_serde e)
           | Inr v \<Rightarrow> Inr (args_to_string \<lparr>positional_args = [v], named_args = []\<rparr>))
      | DbosJson \<Rightarrow> encode_value sd to_value x fmt)"

definition first_or_null :: "json list \<Rightarrow> json" where
  "first_or_null vs = (case vs of [] \<Rightarrow> Null | v # _ \<Rightarrow> v)"

definition decode_input ::
  "serde \<Rightarrow> (string \<Rightarrow> string + PortableArgs) \<Rightarrow> (json \<Rightarrow> string + 'a) \<Rightarrow> string option \<Rightarrow>
   string option \<Rightarrow> DbosError + 'a" where
  "decode_input sd parse_args from_value data fmt =
     (let typed = (\<lambda>v. case from_value v of Inl e \<Rightarrow> Inl (from_serde e) | Inr x \<Rightarrow> Inr x)
      in if fmt = Some PORTABLE_NAME then
           (case data of
              None \<Rightarrow> typed Null
            | Some s \<Rightarrow>
                if s = ''null'' then typed Null
                else (case parse_args s of
                        Inl e \<Rightarrow> Inl (from_serde e)
                      | Inr a \<Rightarrow> typed (first_or_null (positional_args a))))
         else if fmt = Some SUPERJSON_NAME then
           (case data of
              None \<Rightarrow> typed Null
            | Some s \<Rightarrow>
                (case decode_superjson sd s of
                   Inl e \<Rightarrow> Inl e
                 | Inr (Array arr) \<Rightarrow> typed (first_or_null arr)
                 | Inr v \<Rightarrow> typed v))
         else decode_value sd from_value data fmt)"

subsection \<open>Workflow errors\<close>

record PortableWorkflowError =
  pe_name :: string
  pe_message :: string
  pe_code :: "json option"
  pe_data :: "json option"

datatype DecodedError = Plain string | PortableError PortableWorkflowError

text \<open>The derived \<open>to_string\<close> and \<open>from_str\<close> of the envelope are arguments.\<close>

record error_serde =
  es_to_string :: "PortableWorkflowError \<Rightarrow> string"
  es_from_str :: "string \<Rightarrow> string + PortableWorkflowError"

definition plain_payload :: "string \<Rightarrow> PortableWorkflowError" where
  "plain_payload message =
     \<lparr>pe_name = ''Portable Error'', pe_message = message, pe_code = None, pe_data = None\<rparr>"

definition serialize_workflow_error ::
  "error_serde \<Rightarrow> string \<Rightarrow> PortableWorkflowError option \<Rightarrow> Format \<Rightarrow> string" where
  "serialize_workflow_error es message portable fmt =
     (if fmt \<noteq> Portable then message
      else es_to_string es (unwrap_or portable (plain_payload message)))"

definition deserialize_workflow_error ::
  "error_serde \<Rightarrow> string option \<Rightarrow> string option \<Rightarrow> DecodedError option" where
  "deserialize_workflow_error es err_str fmt =
     (case err_str of
        None \<Rightarrow> None
      | Some s \<Rightarrow>
          if s = [] then None
          else if fmt \<noteq> Some PORTABLE_NAME then Some (Plain s)
          else (case es_from_str es s of
                  Inr pe \<Rightarrow> Some (PortableError pe)
                | Inl _ \<Rightarrow> Some (Plain s)))"

subsection \<open>Facts\<close>

lemma digits_value_append:
  "digits_value acc (xs @ ys) = Option.bind (digits_value acc xs) (\<lambda>a. digits_value a ys)"
  by (induction xs arbitrary: acc) auto

lemma digits_value_digit: "d < 10 \<Longrightarrow> digits_value acc [digit_char d] = Some (10 * acc + d)"
  by (simp add: digit_char_def less_eq_char_def)

lemma digits_value_show: "digits_value 0 (show_nat n) = Some n"
proof (induction n rule: show_nat.induct)
  case (1 n)
  show ?case
  proof (cases "n < 10")
    case True
    then show ?thesis
      using digits_value_digit [of n 0]
      by (simp add: show_nat.simps [of n] del: digits_value.simps)
  next
    case False
    have "n mod 10 < 10" by simp
    then have "digits_value (n div 10) [digit_char (n mod 10)] = Some (10 * (n div 10) + n mod 10)"
      by (rule digits_value_digit)
    with False 1 show ?thesis
      by (simp add: show_nat.simps [of n] digits_value_append del: digits_value.simps)
  qed
qed

lemma parse_digits_show [simp]: "parse_digits (show_nat n) = Some n"
  by (simp add: parse_digits_def digits_value_show)

lemma show_nat_no_sign: "hd (show_nat n) \<noteq> CHR ''-''" "hd (show_nat n) \<noteq> CHR ''+''"
proof -
  obtain d where d: "d < 10" "hd (show_nat n) = digit_char d"
    using show_nat_digits [of "hd (show_nat n)" n] by auto
  have "digit_char d \<noteq> CHR ''+''"
  proof
    assume "digit_char d = CHR ''+''"
    then have "of_char (digit_char d) = (of_char (CHR ''+'') :: nat)" by simp
    with d(1) show False by (simp add: digit_char_def)
  qed
  with d digit_char_neq_minus [OF d(1)]
  show "hd (show_nat n) \<noteq> CHR ''-''" "hd (show_nat n) \<noteq> CHR ''+''" by simp_all
qed

lemma parse_i64_nat: "parse_i64 (show_nat n) = (if int n < 2 ^ 63 then Some (int n) else None)"
proof (cases "show_nat n")
  case (Cons c cs)
  with show_nat_no_sign [of n] have "c \<noteq> CHR ''-''" "c \<noteq> CHR ''+''" by simp_all
  with Cons parse_digits_show [of n] show ?thesis by (simp add: parse_i64_def)
qed simp

lemma parse_u64_nat: "parse_u64 (show_nat n) = (if n < 2 ^ 64 then Some n else None)"
proof (cases "show_nat n")
  case (Cons c cs)
  with show_nat_no_sign [of n] have "c \<noteq> CHR ''+''" by simp
  with Cons parse_digits_show [of n] show ?thesis by (simp add: parse_u64_def)
qed simp

lemma parse_i64_show:
  "parse_i64 (show_int i) = (if - (2 ^ 63) \<le> i \<and> i < 2 ^ 63 then Some i else None)"
proof (cases "i < 0")
  case True
  then show ?thesis by (auto simp: show_int_def parse_i64_def)
next
  case False
  then show ?thesis by (auto simp: show_int_def parse_i64_nat)
qed

lemma parse_u64_neg: "i < 0 \<Longrightarrow> parse_u64 (show_int i) = None"
proof -
  assume "i < 0"
  have "digits_value 0 (CHR ''-'' # xs) = None" for xs
    by (simp add: less_eq_char_def)
  with \<open>i < 0\<close> show ?thesis by (simp add: show_int_def parse_u64_def parse_digits_def)
qed

lemma parse_bigint_show:
  "parse_bigint (show_int i) =
     (if - (2 ^ 63) \<le> i \<and> i < 2 ^ 64 then Some (Number (IntNum i)) else None)"
proof (cases "- (2 ^ 63) \<le> i \<and> i < 2 ^ 63")
  case True
  then show ?thesis by (simp add: parse_bigint_def parse_i64_show)
next
  case out: False
  show ?thesis
  proof (cases "i < 0")
    case True
    with out show ?thesis by (simp add: parse_bigint_def parse_i64_show parse_u64_neg)
  next
    case False
    then have "show_int i = show_nat (nat i)" by (simp add: show_int_def)
    moreover have "nat i < 2 ^ 64 \<longleftrightarrow> i < 2 ^ 64" using False by auto
    ultimately show ?thesis using out False by (simp add: parse_bigint_def parse_i64_nat parse_u64_nat)
  qed
qed

text \<open>Values without a legacy wrapper are left alone by the revival.\<close>

fun unwrapped :: "json \<Rightarrow> bool"
  and unwrapped_fields :: "(string \<times> json) list \<Rightarrow> bool"
  and unwrapped_list :: "json list \<Rightarrow> bool" where
  "unwrapped (Object m) = (legacy_wrapped m = None \<and> unwrapped_fields m)"
| "unwrapped (Array xs) = unwrapped_list xs"
| "unwrapped v = True"
| "unwrapped_fields [] = True"
| "unwrapped_fields ((k, v) # m) = (unwrapped v \<and> unwrapped_fields m)"
| "unwrapped_list [] = True"
| "unwrapped_list (v # vs) = (unwrapped v \<and> unwrapped_list vs)"

lemma revival_unwrapped:
  "unwrapped v \<Longrightarrow> apply_legacy_revival v = v"
  "unwrapped_fields m \<Longrightarrow> revive_fields m = m"
  "unwrapped_list vs \<Longrightarrow> revive_list vs = vs"
  by (induction v and m and vs rule: unwrapped_unwrapped_fields_unwrapped_list.induct) auto

subsection \<open>Properties\<close>

text \<open>
  What the round trips need of the two libraries, at the value at hand: parsing undoes printing,
  \<open>null\<close> parses to null, base64 decoding undoes encoding, and the nil marker is not base64 (the
  alphabet has no underscore).
\<close>

definition serde_ok :: "serde \<Rightarrow> json \<Rightarrow> bool" where
  "serde_ok sd j \<longleftrightarrow>
     sd_from_str sd (sd_to_string sd j) = Inr j \<and>
     sd_from_str sd ''null'' = Inr Null \<and>
     sd_b64_decode sd (sd_b64_encode sd (sd_to_string sd j)) = Inr (sd_to_string sd j) \<and>
     isl (sd_b64_decode sd NIL_MARKER)"

lemma decode_encode_json:
  assumes "serde_ok sd j"
  shows "decode_to_json sd (Some (encode_json_value sd j fmt)) (Some (format_name fmt)) = Inr j"
proof (cases fmt)
  case Portable
  have "sd_to_string sd j \<noteq> ''null'' \<or> j = Null" using assms by (auto simp: serde_ok_def)
  with Portable assms show ?thesis
    by (auto simp: decode_to_json_def encode_json_value_def decode_portable_def serde_ok_def)
next
  case DbosJson
  have "sd_b64_encode sd (sd_to_string sd j) \<noteq> NIL_MARKER"
    using assms by (auto simp: serde_ok_def)
  with DbosJson assms show ?thesis
    by (auto simp: decode_to_json_def encode_json_value_def decode_base64_json_def serde_ok_def)
qed

text \<open>
  C38. Values survive storage. A value whose JSON form the libraries round-trip is encoded, in
  either writable format, to a text that decodes back to it under the format name stored with it;
  the format name itself reads back as the format.
\<close>

theorem value_roundtrip:
  assumes "to_value x = Inr j" and "from_value j = Inr x" and "serde_ok sd j"
  shows "\<exists>s. encode_value sd to_value x fmt = Inr s \<and>
    decode_value sd from_value (Some s) (Some (format_name fmt)) = Inr x \<and>
    from_name (Some (format_name fmt)) = fmt"
  using assms by (simp add: encode_value_def decode_value_def decode_encode_json from_name_format_name)

text \<open>A small instance of the two libraries, for concrete evaluation: null, integers, strings.\<close>

definition mini_serde :: serde where
  "mini_serde =
     \<lparr>sd_to_string = (\<lambda>j. case j of
          Null \<Rightarrow> ''null''
        | Number (IntNum n) \<Rightarrow> show_int n
        | String s \<Rightarrow> CHR 0x22 # s @ [CHR 0x22]
        | _ \<Rightarrow> ''[]''),
      sd_from_str = (\<lambda>s.
          if s = ''null'' then Inr Null
          else if s \<noteq> [] \<and> hd s = CHR 0x22 then Inr (String (butlast (tl s)))
          else (case parse_i64 s of Some n \<Rightarrow> Inr (Number (IntNum n)) | None \<Rightarrow> Inl ''expected value'')),
      sd_b64_encode = (\<lambda>s. CHR ''B'' # s),
      sd_b64_decode = (\<lambda>s. if s \<noteq> [] \<and> hd s = CHR ''B'' then Inr (tl s) else Inl ''invalid'')\<rparr>"

lemma mini_serde_string: "serde_ok mini_serde (String s)"
  by (simp add: serde_ok_def mini_serde_def NIL_MARKER_def)

theorem value_roundtrip_witness:
  "\<exists>s. encode_value mini_serde (\<lambda>x. Inr (String x)) ''hello'' DbosJson = Inr s \<and>
     decode_value mini_serde (\<lambda>j. case j of String x \<Rightarrow> Inr x | _ \<Rightarrow> Inl ''type'')
       (Some s) (Some ''DBOS_JSON'') = Inr ''hello''"
  using value_roundtrip [of "\<lambda>x. Inr (String x)" "''hello''" "String ''hello''"
      "\<lambda>j. case j of String x \<Rightarrow> Inr x | _ \<Rightarrow> Inl ''type''" mini_serde DbosJson] mini_serde_string
  by (auto simp: DBOS_JSON_NAME_def)

text \<open>
  A row without a recorded format is read whatever SDK wrote it: plain JSON without legacy
  wrappers decodes to itself, base64 JSON that does not happen to parse as JSON decodes to the
  encoded value, and the null texts of both formats decode to null.
\<close>

theorem null_format_is_best_effort:
  assumes "serde_ok sd j" and "isl (sd_from_str sd NIL_MARKER)" and "unwrapped j"
    and "\<not> str_contains (sd_to_string sd j) SUPERJSON_MARKER"
    and "isl (sd_from_str sd (sd_b64_encode sd (sd_to_string sd j)))"
  shows "decode_to_json sd (Some (encode_json_value sd j fmt)) None = Inr j \<and>
    decode_to_json sd (Some (encode_json_value sd Null fmt)) None = Inr Null \<and>
    decode_to_json sd None None = Inr Null"
proof -
  have nn: "sd_to_string sd j \<noteq> ''null'' \<or> j = Null" "sd_to_string sd j \<noteq> NIL_MARKER"
    and bb: "sd_b64_encode sd (sd_to_string sd j) \<noteq> ''null''"
      "sd_b64_encode sd (sd_to_string sd j) \<noteq> NIL_MARKER"
    using assms(1,2,5) by (auto simp: serde_ok_def)
  have sj: "decode_superjson sd (sd_to_string sd j) = Inr j"
    using assms(1,3,4) by (simp add: decode_superjson_def serde_ok_def revival_unwrapped)
  obtain e where "decode_superjson sd (sd_b64_encode sd (sd_to_string sd j)) = Inl e"
    using assms(5) by (auto simp: decode_superjson_def isl_def)
  moreover have "decode_base64_json sd (sd_b64_encode sd (sd_to_string sd j)) = Inr j"
    using assms(1) by (simp add: decode_base64_json_def serde_ok_def)
  ultimately show ?thesis
    using nn bb sj by (cases fmt) (auto simp: decode_to_json_def encode_json_value_def)
qed

theorem null_format_is_best_effort_witness:
  "decode_to_json mini_serde (Some (encode_json_value mini_serde (String ''hi'') DbosJson)) None =
     Inr (String ''hi'')"
proof -
  have "isl (sd_from_str mini_serde NIL_MARKER)"
    and "isl (sd_from_str mini_serde (sd_b64_encode mini_serde (sd_to_string mini_serde (String ''hi''))))"
    and "\<not> str_contains (sd_to_string mini_serde (String ''hi'')) SUPERJSON_MARKER"
    by (simp_all add: mini_serde_def NIL_MARKER_def parse_i64_def parse_digits_def less_eq_char_def
        SUPERJSON_MARKER_def)
  then show ?thesis
    using null_format_is_best_effort [OF mini_serde_string, of "''hi''" DbosJson] by simp
qed

text \<open>
  A workflow input survives the envelope: encoded as the single positional argument (or bare,
  in DBOS_JSON), it decodes to itself under its format.
\<close>

theorem input_roundtrip:
  assumes "to_value x = Inr j" and "from_value j = Inr x" and "serde_ok sd j"
    and "parse_args (args_to_string \<lparr>positional_args = [j], named_args = []\<rparr>) =
      Inr \<lparr>positional_args = [j], named_args = []\<rparr>"
    and "args_to_string \<lparr>positional_args = [j], named_args = []\<rparr> \<noteq> ''null''"
  shows "\<exists>s. encode_input sd args_to_string to_value x fmt = Inr s \<and>
    decode_input sd parse_args from_value (Some s) (Some (format_name fmt)) = Inr x"
proof (cases fmt)
  case Portable
  with assms show ?thesis by (simp add: encode_input_def decode_input_def first_or_null_def)
next
  case DbosJson
  with decode_encode_json [OF assms(3), of DbosJson] assms(1,2) show ?thesis
    by (simp add: encode_input_def decode_input_def encode_value_def decode_value_def)
qed

theorem input_roundtrip_witness:
  "\<exists>s. encode_input mini_serde (\<lambda>a. ''{args}'') (\<lambda>x. Inr (String x)) ''in'' Portable = Inr s \<and>
     decode_input mini_serde (\<lambda>_. Inr \<lparr>positional_args = [String ''in''], named_args = []\<rparr>)
       (\<lambda>j. case j of String x \<Rightarrow> Inr x | _ \<Rightarrow> Inl ''type'') (Some s) (Some ''portable_json'') =
     Inr ''in''"
  using input_roundtrip [of "\<lambda>x. Inr (String x)" "''in''" "String ''in''"
      "\<lambda>j. case j of String x \<Rightarrow> Inr x | _ \<Rightarrow> Inl ''type''" mini_serde
      "\<lambda>_. Inr \<lparr>positional_args = [String ''in''], named_args = []\<rparr>" "\<lambda>a. ''{args}''" Portable]
    mini_serde_string
  by (auto simp: PORTABLE_NAME_def)

text \<open>
  Error messages survive storage in the portable format whatever they say; in the native
  format every message but the empty one does.
\<close>

theorem error_roundtrip:
  assumes "es_from_str es (es_to_string es (plain_payload m)) = Inr (plain_payload m)"
    and "es_to_string es (plain_payload m) \<noteq> []"
  shows "deserialize_workflow_error es (Some (serialize_workflow_error es m None Portable))
      (Some (format_name Portable)) = Some (PortableError (plain_payload m)) \<and>
    pe_message (plain_payload m) = m \<and>
    deserialize_workflow_error es (Some (serialize_workflow_error es m None DbosJson))
      (Some (format_name DbosJson)) = (if m = [] then None else Some (Plain m))"
  using assms
  by (simp add: deserialize_workflow_error_def serialize_workflow_error_def plain_payload_def)

definition mini_error_serde :: error_serde where
  "mini_error_serde = \<lparr>es_to_string = (\<lambda>pe. CHR ''{'' # pe_message pe),
     es_from_str = (\<lambda>s. if s \<noteq> [] \<and> hd s = CHR ''{'' then Inr (plain_payload (tl s)) else Inl ''bad'')\<rparr>"

lemma mini_error_ok:
  "es_from_str mini_error_serde (es_to_string mini_error_serde (plain_payload m)) =
     Inr (plain_payload m)"
  "es_to_string mini_error_serde (plain_payload m) \<noteq> []"
  by (simp_all add: mini_error_serde_def plain_payload_def)

theorem error_roundtrip_witness:
  "deserialize_workflow_error mini_error_serde
     (Some (serialize_workflow_error mini_error_serde ''boom'' None Portable)) (Some ''portable_json'') =
   Some (PortableError (plain_payload ''boom''))"
  using error_roundtrip [OF mini_error_ok, of "''boom''"] by (simp add: PORTABLE_NAME_def)

text \<open>
  Big integers of the TypeScript SDK are read exactly or left alone: the decimal text of an
  integer becomes that number when it fits a signed or unsigned 64-bit integer, in the legacy
  wrapper and under the SuperJSON tag; otherwise the value stays as it was.
\<close>

theorem bigint_interop:
  "apply_superjson_tag sd ''bigint'' (String (show_int n)) =
     (if - (2 ^ 63) \<le> n \<and> n < 2 ^ 64 then Number (IntNum n) else String (show_int n)) \<and>
   apply_legacy_revival
     (Object [(''dbos_data'', String (show_int n)), (''dbos_type'', String ''dbos_BigInt'')]) =
     (if - (2 ^ 63) \<le> n \<and> n < 2 ^ 64 then Number (IntNum n)
      else Object [(''dbos_data'', String (show_int n)), (''dbos_type'', String ''dbos_BigInt'')])"
  by (simp add: apply_superjson_tag_def legacy_wrapped_def parse_bigint_show)

end
