(* ===== verification/Dbos_Retry.thy ===== *)
theory Dbos_Retry
  imports Dbos_Serialize
begin

text \<open>
  Step execution of \<open>crates/dbos/src/runtime/step.rs\<close>: the retry loop with its backoff delays and
  the reconstruction of a step error from its stored form. Durations and the floating point
  backoff factor are abstract; \<open>scale base factor k cap\<close> is the capped delay the code computes
  in \<open>f64\<close>. The \<open>n\<close>-th call of the step body returns \<open>run n\<close>; the result comes with the number of
  calls and the delays slept.
\<close>

record ('d, 'f) StepOptions =
  so_max_retries :: nat
  so_base_interval :: "'d option"
  so_max_interval :: "'d option"
  so_backoff_factor :: "'f option"

record ('d, 'f) retry_arith =
  ra_default_base :: 'd
  ra_default_max :: 'd
  ra_default_factor :: 'f
  ra_scale :: "'d \<Rightarrow> 'f \<Rightarrow> int \<Rightarrow> 'd \<Rightarrow> 'd"

record ('r, 'd) attempts =
  at_result :: "DbosError + 'r"
  at_calls :: nat
  at_delays :: "'d list"

definition retry_delay :: "('d, 'f) retry_arith \<Rightarrow> ('d, 'f) StepOptions \<Rightarrow> nat \<Rightarrow> 'd" where
  "retry_delay ra opts retry =
     (let base = unwrap_or (so_base_interval opts) (ra_default_base ra);
          max_interval = unwrap_or (so_max_interval opts) (ra_default_max ra);
          factor = unwrap_or (so_backoff_factor opts) (ra_default_factor ra)
      in if retry = 1 then base
         else ra_scale ra base factor (cast_i32 (int retry - 1)) max_interval)"

fun join :: "string \<Rightarrow> string list \<Rightarrow> string" where
  "join sep [] = []"
| "join sep [s] = s"
| "join sep (s # ss) = s @ sep @ join sep ss"

text \<open>The loop \<open>for retry in 1..=max_retries\<close>, with the number of iterations left.\<close>

fun retry_loop ::
  "('d, 'f) retry_arith \<Rightarrow> ('d, 'f) StepOptions \<Rightarrow> string \<Rightarrow> string \<Rightarrow> (nat \<Rightarrow> DbosError + 'r) \<Rightarrow>
   nat \<Rightarrow> nat \<Rightarrow> string list \<Rightarrow> 'd list \<Rightarrow> ('r, 'd) attempts" where
  "retry_loop ra opts step w run 0 retry errors delays =
     \<lparr>at_result = Inl (max_step_retries_exceeded w step (int (so_max_retries opts))
                        (join [CHR 0x0A] errors)),
      at_calls = retry, at_delays = delays\<rparr>"
| "retry_loop ra opts step w run (Suc left) retry errors delays =
     (let delays' = delays @ [retry_delay ra opts retry]
      in case run retry of
           Inr v \<Rightarrow> \<lparr>at_result = Inr v, at_calls = retry + 1, at_delays = delays'\<rparr>
         | Inl e \<Rightarrow>
             retry_loop ra opts step w run left (retry + 1) (errors @ [display e]) delays')"

definition execute_step_with_retry ::
  "('d, 'f) retry_arith \<Rightarrow> ('d, 'f) StepOptions \<Rightarrow> string \<Rightarrow> string \<Rightarrow> (nat \<Rightarrow> DbosError + 'r) \<Rightarrow>
   ('r, 'd) attempts" where
  "execute_step_with_retry ra opts step w run =
     (case run 0 of
        Inr v \<Rightarrow> \<lparr>at_result = Inr v, at_calls = 1, at_delays = []\<rparr>
      | Inl e \<Rightarrow>
          if so_max_retries opts = 0 then \<lparr>at_result = Inl e, at_calls = 1, at_delays = []\<rparr>
          else retry_loop ra opts step w run (so_max_retries opts) 1 [display e] [])"

definition decoded_step_error :: "error_serde \<Rightarrow> string \<Rightarrow> string option \<Rightarrow> DbosError" where
  "decoded_step_error es err_str fmt =
     (case deserialize_workflow_error es (Some err_str) fmt of
        Some (Plain s) \<Rightarrow> other s
      | Some (PortableError pe) \<Rightarrow> other (pe_message pe)
      | None \<Rightarrow> other ''step failed'')"

subsection \<open>Facts\<close>

lemma retry_loop_success:
  assumes "\<And>j. retry \<le> j \<Longrightarrow> j < k \<Longrightarrow> isl (run j)" and "run k = Inr v"
    and "retry \<le> k" and "k < retry + left"
  shows "retry_loop ra opts step w run left retry errors delays =
    \<lparr>at_result = Inr v, at_calls = k + 1,
     at_delays = delays @ map (retry_delay ra opts) [retry..<k + 1]\<rparr>"
  using assms
proof (induction left arbitrary: retry errors delays)
  case (Suc left)
  show ?case
  proof (cases "retry = k")
    case True
    with Suc.prems(2) show ?thesis by simp
  next
    case False
    with Suc.prems(3) have lt: "retry < k" by simp
    with Suc.prems(1) [of retry] obtain e where e: "run retry = Inl e" by (auto simp: isl_def)
    have "retry_loop ra opts step w run left (retry + 1) (errors @ [display e])
        (delays @ [retry_delay ra opts retry]) =
      \<lparr>at_result = Inr v, at_calls = k + 1, at_delays = (delays @ [retry_delay ra opts retry]) @
        map (retry_delay ra opts) [retry + 1..<k + 1]\<rparr>"
      using Suc.prems lt by (intro Suc.IH) auto
    moreover have "[retry..<k + 1] = retry # [retry + 1..<k + 1]"
      using lt by (simp add: upt_conv_Cons)
    ultimately show ?thesis using e by simp
  qed
qed simp

lemma retry_loop_failure:
  assumes "\<And>j. retry \<le> j \<Longrightarrow> j < retry + left \<Longrightarrow> run j = Inl (f j)"
  shows "retry_loop ra opts step w run left retry errors delays =
    \<lparr>at_result = Inl (max_step_retries_exceeded w step (int (so_max_retries opts))
       (join [CHR 0x0A] (errors @ map (display \<circ> f) [retry..<retry + left]))),
     at_calls = retry + left,
     at_delays = delays @ map (retry_delay ra opts) [retry..<retry + left]\<rparr>"
  using assms
proof (induction left arbitrary: retry errors delays)
  case (Suc left)
  from Suc.prems have e: "run retry = Inl (f retry)" by simp
  have "retry_loop ra opts step w run left (retry + 1) (errors @ [display (f retry)])
      (delays @ [retry_delay ra opts retry]) =
    \<lparr>at_result = Inl (max_step_retries_exceeded w step (int (so_max_retries opts))
       (join [CHR 0x0A] ((errors @ [display (f retry)]) @
         map (display \<circ> f) [retry + 1..<retry + 1 + left]))),
     at_calls = retry + 1 + left,
     at_delays = (delays @ [retry_delay ra opts retry]) @
       map (retry_delay ra opts) [retry + 1..<retry + 1 + left]\<rparr>"
    using Suc.prems by (intro Suc.IH) auto
  moreover have "[retry..<retry + Suc left] = retry # [retry + 1..<retry + 1 + left]"
    by (simp add: upt_conv_Cons)
  ultimately show ?case using e by (simp add: comp_def del: upt_Suc)
qed simp

subsection \<open>Properties\<close>

text \<open>
  C39. Retries. A step returns its first successful attempt, after exactly the failed ones before
  it and one delay between attempts; at most \<open>max_retries + 1\<close> attempts are made. When all of them
  fail, the first error is returned as it is if no retries were asked for, and otherwise an error
  with code \<open>MaxStepRetriesExceeded\<close> that joins all messages.
\<close>

theorem retry_returns_first_success:
  "(k \<le> so_max_retries opts \<and> run k = Inr v \<and> list_all (\<lambda>j. isl (run j)) [0..<k] \<longrightarrow>
      execute_step_with_retry ra opts step w run =
        \<lparr>at_result = Inr v, at_calls = k + 1, at_delays = map (retry_delay ra opts) [1..<k + 1]\<rparr>) \<and>
   (list_all (\<lambda>j. run j = Inl (f j)) [0..<so_max_retries opts + 1] \<longrightarrow>
      execute_step_with_retry ra opts step w run =
        \<lparr>at_result = Inl (if so_max_retries opts = 0 then f 0
            else max_step_retries_exceeded w step (int (so_max_retries opts))
              (join [CHR 0x0A] (map (display \<circ> f) [0..<so_max_retries opts + 1]))),
         at_calls = so_max_retries opts + 1,
         at_delays = map (retry_delay ra opts) [1..<so_max_retries opts + 1]\<rparr>)"
proof (intro conjI impI)
  assume a: "k \<le> so_max_retries opts \<and> run k = Inr v \<and> list_all (\<lambda>j. isl (run j)) [0..<k]"
  show "execute_step_with_retry ra opts step w run =
      \<lparr>at_result = Inr v, at_calls = k + 1, at_delays = map (retry_delay ra opts) [1..<k + 1]\<rparr>"
  proof (cases k)
    case 0
    with a show ?thesis by (simp add: execute_step_with_retry_def)
  next
    case (Suc k')
    with a have "isl (run 0)" by (simp add: list_all_iff del: upt_Suc)
    then obtain e where e: "run 0 = Inl e" by (auto simp: isl_def)
    have "retry_loop ra opts step w run (so_max_retries opts) 1 [display e] [] =
        \<lparr>at_result = Inr v, at_calls = k + 1,
         at_delays = [] @ map (retry_delay ra opts) [1..<k + 1]\<rparr>"
      using a Suc by (intro retry_loop_success) (auto simp: list_all_iff simp del: upt_Suc)
    with e a Suc show ?thesis by (simp add: execute_step_with_retry_def)
  qed
next
  assume a: "list_all (\<lambda>j. run j = Inl (f j)) [0..<so_max_retries opts + 1]"
  then have e: "run 0 = Inl (f 0)"
    by (cases "so_max_retries opts") (auto simp: list_all_iff simp del: upt_Suc)
  have "retry_loop ra opts step w run (so_max_retries opts) 1 [display (f 0)] [] =
      \<lparr>at_result = Inl (max_step_retries_exceeded w step (int (so_max_retries opts))
         (join [CHR 0x0A] ([display (f 0)] @ map (display \<circ> f) [1..<1 + so_max_retries opts]))),
       at_calls = 1 + so_max_retries opts,
       at_delays = [] @ map (retry_delay ra opts) [1..<1 + so_max_retries opts]\<rparr>"
    using a by (intro retry_loop_failure) (auto simp: list_all_iff simp del: upt_Suc)
  moreover have "[0..<so_max_retries opts + 1] = 0 # [1..<1 + so_max_retries opts]"
    by (simp add: upt_conv_Cons)
  ultimately show "execute_step_with_retry ra opts step w run =
      \<lparr>at_result = Inl (if so_max_retries opts = 0 then f 0
          else max_step_retries_exceeded w step (int (so_max_retries opts))
            (join [CHR 0x0A] (map (display \<circ> f) [0..<so_max_retries opts + 1]))),
       at_calls = so_max_retries opts + 1,
       at_delays = map (retry_delay ra opts) [1..<so_max_retries opts + 1]\<rparr>"
    using e by (simp add: execute_step_with_retry_def)
qed

definition sample_options :: "nat \<Rightarrow> (int, int) StepOptions" where
  "sample_options n = \<lparr>so_max_retries = n, so_base_interval = None, so_max_interval = None,
     so_backoff_factor = None\<rparr>"

definition sample_arith :: "(int, int) retry_arith" where
  "sample_arith = \<lparr>ra_default_base = 100, ra_default_max = 5000, ra_default_factor = 2,
     ra_scale = (\<lambda>b f k m. min (b * f ^ nat k) m)\<rparr>"

theorem retry_returns_first_success_witness:
  "execute_step_with_retry sample_arith (sample_options 3) ''s'' ''wf''
     (\<lambda>n. if n < 2 then Inl (other ''e'') else Inr True) =
   \<lparr>at_result = Inr True, at_calls = 3,
    at_delays = map (retry_delay sample_arith (sample_options 3)) [1..<3]\<rparr>"
  using retry_returns_first_success [of 2 "sample_options 3"
      "\<lambda>n. if n < 2 then Inl (other ''e'') else Inr True" True sample_arith "''s''" "''wf''"]
  by (simp add: sample_options_def numeral_eq_Suc upt_rec)

end
