(* ===== verification/Dbos_Context.thy ===== *)
theory Dbos_Context
  imports Dbos_Streams Dbos_Retry
begin

text \<open>
  The workflow context of \<open>crates/dbos/src/runtime/context.rs\<close>: step ids, the memoized step and
  the durable operations a workflow body calls.

  Conventions. The running state holds the database, the step counter and the payloads of the
  active \<open>recv\<close> calls. Clock readings, fresh ids and what other executors do to the database while
  an operation is under way are arguments, collected in a \<open>call_env\<close>. A wait loop is a function of
  the rounds it goes through and is \<open>None\<close> while it is still waiting. The user's step body is any
  effect on the database. The typed (de)serialization of user values is a \<open>value_codec\<close>.
\<close>

subsection \<open>State and environment\<close>

record 'v value_codec =
  vc_serde :: serde
  vc_error :: error_serde
  vc_to :: "'v \<Rightarrow> string + json"
  vc_from :: "json \<Rightarrow> string + 'v"
  vc_i64_from :: "json \<Rightarrow> string + int"

record run_state =
  rs_db :: sysdb
  rs_step :: "32 word"
  rs_waiters :: "string list"

record AuthIdentity =
  au_user :: "string option"
  au_role :: "string option"
  au_roles :: "string list"

text \<open>The shared \<open>WorkflowState\<close> without its counter, which is in the running state.\<close>

record WorkflowContext =
  wc_workflow_id :: string
  wc_auth :: AuthIdentity
  wc_within_step :: bool

record call_env =
  en_now1 :: int
  en_now2 :: int
  en_now3 :: int
  en_instant :: int
  en_uuid :: string
  en_before :: "sysdb \<Rightarrow> sysdb"
  en_race :: "sysdb \<Rightarrow> sysdb"
  en_rounds :: "((sysdb \<Rightarrow> sysdb) \<times> int) list"

type_synonym 'a ctx_op = "(run_state, DbosError, 'a) eff"

definition on_db :: "'a db_op \<Rightarrow> 'a ctx_op" where
  "on_db m st = (case m (rs_db st) of (r, db') \<Rightarrow> (r, st\<lparr>rs_db := db'\<rparr>))"

definition anonymous :: AuthIdentity where
  "anonymous = \<lparr>au_user = None, au_role = None, au_roles = []\<rparr>"

definition new_run :: "sysdb \<Rightarrow> string list \<Rightarrow> run_state" where
  "new_run db waiters = \<lparr>rs_db = db, rs_step = -1, rs_waiters = waiters\<rparr>"

text \<open>\<open>fetch_add(1) + 1\<close> on the 32-bit counter.\<close>

definition next_step_id :: "run_state \<Rightarrow> int \<times> run_state" where
  "next_step_id st = (sint (rs_step st + 1), st\<lparr>rs_step := rs_step st + 1\<rparr>)"

subsection \<open>Steps\<close>

definition stored_value :: "'v value_codec \<Rightarrow> string option \<Rightarrow> string option \<Rightarrow> DbosError + 'v" where
  "stored_value vc = decode_value (vc_serde vc) (vc_from vc)"

definition replay_step ::
  "'v value_codec \<Rightarrow> string \<Rightarrow> int \<Rightarrow> string \<Rightarrow> sysdb \<Rightarrow> DbosError + (DbosError + 'v) option" where
  "replay_step vc w step_id name db =
     (case check_operation_execution w step_id name db of
        Inl e \<Rightarrow> Inl e
      | Inr None \<Rightarrow> Inr None
      | Inr (Some rec) \<Rightarrow>
          (case ro_error rec of
             Some err \<Rightarrow>
               Inr (Some (Inl (decoded_step_error (vc_error vc) err (ro_serialization rec))))
           | None \<Rightarrow>
               (case stored_value vc (ro_output rec) (ro_serialization rec) of
                  Inl e \<Rightarrow> Inl e
                | Inr v \<Rightarrow> Inr (Some (Inr v)))))"

definition record_step ::
  "'v value_codec \<Rightarrow> int \<Rightarrow> string \<Rightarrow> int \<Rightarrow> string \<Rightarrow> DbosError + 'v \<Rightarrow> unit db_op" where
  "record_step vc now w step_id name result =
     (case result of
        Inr v \<Rightarrow>
          (case encode_value (vc_serde vc) (vc_to vc) v Portable of
             Inl e \<Rightarrow> throw e
           | Inr s \<Rightarrow>
               record_operation_result now w step_id name (Some s) None None (Some PORTABLE_NAME))
      | Inl e \<Rightarrow>
          record_operation_result now w step_id name None
            (Some (serialize_workflow_error (vc_error vc) (display e) None Portable)) None
            (Some PORTABLE_NAME))"

text \<open>\<open>self.record_step(..).await?; result\<close>: a failed checkpoint replaces the result.\<close>

definition run_step ::
  "'v value_codec \<Rightarrow> int \<Rightarrow> WorkflowContext \<Rightarrow> string \<Rightarrow> 'v db_op \<Rightarrow> 'v ctx_op" where
  "run_step vc now wc name body st =
     (if wc_within_step wc then on_db body st
      else (case next_step_id st of (step_id, st1) \<Rightarrow>
        (case replay_step vc (wc_workflow_id wc) step_id name (rs_db st1) of
           Inl e \<Rightarrow> (Inl e, st1)
         | Inr (Some r) \<Rightarrow> (r, st1)
         | Inr None \<Rightarrow>
             (case body (rs_db st1) of (result, db1) \<Rightarrow>
                (case record_step vc now (wc_workflow_id wc) step_id name result db1 of
                   (Inl e, db2) \<Rightarrow> (Inl e, st1\<lparr>rs_db := db2\<rparr>)
                 | (Inr _, db2) \<Rightarrow> (result, st1\<lparr>rs_db := db2\<rparr>))))))"

text \<open>The context handed to a step body.\<close>

definition step_ctx :: "WorkflowContext \<Rightarrow> WorkflowContext" where
  "step_ctx wc = wc\<lparr>wc_within_step := True\<rparr>"

text \<open>With retries the body may run several times; \<open>effect\<close> is what the calls do to the database.\<close>

definition run_step_with ::
  "'v value_codec \<Rightarrow> int \<Rightarrow> WorkflowContext \<Rightarrow> string \<Rightarrow> ('d, 'f) retry_arith \<Rightarrow>
   ('d, 'f) StepOptions \<Rightarrow> (nat \<Rightarrow> DbosError + 'v) \<Rightarrow> (nat \<Rightarrow> sysdb \<Rightarrow> sysdb) \<Rightarrow> 'v ctx_op" where
  "run_step_with vc now wc name ra opts run effect st =
     (if wc_within_step wc then on_db (\<lambda>db. (run 0, effect 1 db)) st
      else run_step vc now wc name
        (\<lambda>db. let a = execute_step_with_retry ra opts name (wc_workflow_id wc) run
              in (at_result a, effect (at_calls a) db)) st)"

subsection \<open>Messages, events and streams\<close>

text \<open>The checkpoint of an operation without a value: the encoded unit.\<close>

definition encode_unit :: "'v value_codec \<Rightarrow> DbosError + string" where
  "encode_unit vc = encode_value (vc_serde vc) (\<lambda>_. Inr Null) () Portable"

definition topic_or_default :: "string option \<Rightarrow> string" where
  "topic_or_default topic = unwrap_or (opt_filter (\<lambda>t. t \<noteq> []) topic) NULL_TOPIC"

text \<open>
  The shape shared by \<open>send\<close>, \<open>set_event\<close> and the stream operations: refuse inside a step, take a
  step id, return at once if it is recorded, otherwise do the work and record it in one
  transaction. \<open>race\<close> is what others do between the lookup and the transaction.
\<close>

definition durable_unit ::
  "string \<Rightarrow> string \<Rightarrow> (sysdb \<Rightarrow> sysdb) \<Rightarrow> WorkflowContext \<Rightarrow> (int \<Rightarrow> unit db_op) \<Rightarrow> unit ctx_op" where
  "durable_unit name refusal race wc work st =
     (if wc_within_step wc
      then (Inl (step_execution (wc_workflow_id wc) name refusal), st)
      else (case next_step_id st of (step_id, st1) \<Rightarrow>
        (case check_operation_execution (wc_workflow_id wc) step_id name (rs_db st1) of
           Inl e \<Rightarrow> (Inl e, st1)
         | Inr (Some _) \<Rightarrow> (Inr (), st1)
         | Inr None \<Rightarrow> on_db (\<lambda>db. work step_id (race db)) st1)))"

definition record_unit ::
  "int \<Rightarrow> string \<Rightarrow> int \<Rightarrow> string \<Rightarrow> string \<Rightarrow> unit db_op" where
  "record_unit now w step_id name unit_text =
     record_operation_result now w step_id name (Some unit_text) None None (Some PORTABLE_NAME)"

definition send ::
  "'v value_codec \<Rightarrow> call_env \<Rightarrow> WorkflowContext \<Rightarrow> string \<Rightarrow> 'v \<Rightarrow> string option \<Rightarrow> unit ctx_op" where
  "send vc env wc dest message topic =
     durable_unit ''DBOS.send'' ''cannot call Send within a step'' (en_race env) wc
       (\<lambda>step_id.
          case encode_value (vc_serde vc) (vc_to vc) message Portable of
            Inl e \<Rightarrow> throw e
          | Inr encoded \<Rightarrow>
              (case encode_unit vc of
                 Inl e \<Rightarrow> throw e
               | Inr unit_text \<Rightarrow>
                   transaction
                     (andthen
                       (insert_notification (en_uuid env) (en_now1 env) dest
                          (topic_or_default topic) encoded PORTABLE_NAME)
                       (\<lambda>_. record_unit (en_now2 env) (wc_workflow_id wc) step_id ''DBOS.send''
                               unit_text))))"

definition set_event ::
  "'v value_codec \<Rightarrow> call_env \<Rightarrow> WorkflowContext \<Rightarrow> string \<Rightarrow> 'v \<Rightarrow> unit ctx_op" where
  "set_event vc env wc key v =
     durable_unit ''DBOS.setEvent'' ''cannot call SetEvent within a step'' (en_race env) wc
       (\<lambda>step_id.
          case encode_value (vc_serde vc) (vc_to vc) v Portable of
            Inl e \<Rightarrow> throw e
          | Inr encoded \<Rightarrow>
              (case encode_unit vc of
                 Inl e \<Rightarrow> throw e
               | Inr unit_text \<Rightarrow>
                   transaction
                     (andthen
                       (upsert_workflow_event (wc_workflow_id wc) key encoded PORTABLE_NAME)
                       (\<lambda>_. andthen
                         (insert_workflow_event_history (wc_workflow_id wc) step_id key encoded
                            PORTABLE_NAME)
                         (\<lambda>_. record_unit (en_now1 env) (wc_workflow_id wc) step_id
                                 ''DBOS.setEvent'' unit_text)))))"

definition write_stream_raw ::
  "'v value_codec \<Rightarrow> call_env \<Rightarrow> WorkflowContext \<Rightarrow> string \<Rightarrow> string \<Rightarrow> string \<Rightarrow> string option \<Rightarrow>
   unit ctx_op" where
  "write_stream_raw vc env wc key name v ser =
     durable_unit name ''cannot write to a stream within a step'' (en_race env) wc
       (\<lambda>step_id.
          case encode_unit vc of
            Inl e \<Rightarrow> throw e
          | Inr unit_text \<Rightarrow>
              transaction
                (andthen (write_stream_entry (wc_workflow_id wc) step_id key v ser)
                  (\<lambda>_. record_unit (en_now1 env) (wc_workflow_id wc) step_id name unit_text)))"

definition write_stream ::
  "'v value_codec \<Rightarrow> call_env \<Rightarrow> WorkflowContext \<Rightarrow> string \<Rightarrow> 'v \<Rightarrow> unit ctx_op" where
  "write_stream vc env wc key v =
     (case encode_value (vc_serde vc) (vc_to vc) v Portable of
        Inl e \<Rightarrow> throw e
      | Inr encoded \<Rightarrow>
          write_stream_raw vc env wc key ''DBOS.writeStream'' encoded (Some PORTABLE_NAME))"

definition close_stream ::
  "'v value_codec \<Rightarrow> call_env \<Rightarrow> WorkflowContext \<Rightarrow> string \<Rightarrow> unit ctx_op" where
  "close_stream vc env wc key =
     write_stream_raw vc env wc key ''DBOS.closeStream'' STREAM_CLOSED_SENTINEL None"

subsection \<open>Durable sleep\<close>

definition stored_i64 :: "'v value_codec \<Rightarrow> RecordedOperation \<Rightarrow> DbosError + int" where
  "stored_i64 vc rec =
     decode_value (vc_serde vc) (vc_i64_from vc) (ro_output rec) (ro_serialization rec)"

text \<open>The wake-up deadline: recorded once, read back on replay or when another process was first.\<close>

definition sleep_deadline ::
  "'v value_codec \<Rightarrow> call_env \<Rightarrow> string \<Rightarrow> int \<Rightarrow> nat \<Rightarrow> int db_op" where
  "sleep_deadline vc env w step_id duration_ms db =
     (case check_operation_execution w step_id ''DBOS.sleep'' db of
        Inl e \<Rightarrow> (Inl e, db)
      | Inr (Some rec) \<Rightarrow> (stored_i64 vc rec, db)
      | Inr None \<Rightarrow>
          let end_ms = en_now1 env + cast_i64 (int duration_ms)
          in case encode_value (vc_serde vc) (\<lambda>n. Inr (Number (IntNum n))) end_ms Portable of
               Inl e \<Rightarrow> (Inl e, db)
             | Inr output \<Rightarrow>
                 (case record_operation_result (en_now2 env) w step_id ''DBOS.sleep'' (Some output)
                         None None (Some PORTABLE_NAME) (en_race env db) of
                    (Inr _, db1) \<Rightarrow> (Inr end_ms, db1)
                  | (Inl e, db1) \<Rightarrow>
                      if is_error e ConflictingId
                      then (case check_operation_execution w step_id ''DBOS.sleep'' db1 of
                              Inl e2 \<Rightarrow> (Inl e2, db1)
                            | Inr None \<Rightarrow> (Inl e, db1)
                            | Inr (Some rec) \<Rightarrow> (stored_i64 vc rec, db1))
                      else (Inl e, db1)))"

definition record_sleep ::
  "'v value_codec \<Rightarrow> call_env \<Rightarrow> string \<Rightarrow> int \<Rightarrow> nat \<Rightarrow> int db_op" where
  "record_sleep vc env w step_id duration_ms =
     andthen (sleep_deadline vc env w step_id duration_ms)
       (\<lambda>end_ms. ret (max (end_ms - en_now3 env) 0))"

definition sleep :: "'v value_codec \<Rightarrow> call_env \<Rightarrow> WorkflowContext \<Rightarrow> nat \<Rightarrow> int ctx_op" where
  "sleep vc env wc duration_ms st =
     (if wc_within_step wc
      then (Inl (step_execution (wc_workflow_id wc) ''DBOS.sleep''
              ''cannot call Sleep within a step''), st)
      else (case next_step_id st of (step_id, st1) \<Rightarrow>
        on_db (record_sleep vc env (wc_workflow_id wc) step_id duration_ms) st1))"

subsection \<open>Waiting for messages and events\<close>

fun wait_rounds ::
  "(sysdb \<Rightarrow> 'x option) \<Rightarrow> int \<Rightarrow> ((sysdb \<Rightarrow> sysdb) \<times> int) list \<Rightarrow> sysdb \<Rightarrow>
   ('x option \<times> sysdb) option" where
  "wait_rounds found deadline [] db = None"
| "wait_rounds found deadline ((others, instant) # rounds) db =
     (let db1 = others db
      in case found db1 of
           Some x \<Rightarrow> Some (Some x, db1)
         | None \<Rightarrow>
             if instant \<ge> deadline then Some (None, db1)
             else wait_rounds found deadline rounds db1)"

definition decode_optional :: "'v value_codec \<Rightarrow> RecordedOperation \<Rightarrow> DbosError + 'v option" where
  "decode_optional vc rec =
     (case ro_error rec of
        Some err \<Rightarrow> Inl (decoded_step_error (vc_error vc) err (ro_serialization rec))
      | None \<Rightarrow>
          (case ro_output rec of
             None \<Rightarrow> Inr None
           | Some out \<Rightarrow>
               (case stored_value vc (Some out) (ro_serialization rec) of
                  Inl e \<Rightarrow> Inl e
                | Inr v \<Rightarrow> Inr (Some v))))"

text \<open>What the caller gets from what was received.\<close>

definition decode_delivered ::
  "'v value_codec \<Rightarrow> (string \<times> string option) option \<Rightarrow> DbosError + 'v option" where
  "decode_delivered vc d =
     (case d of
        None \<Rightarrow> Inr None
      | Some (text, ser) \<Rightarrow>
          (case stored_value vc (Some text) (opt_or ser (Some PORTABLE_NAME)) of
             Inl e \<Rightarrow> Inl e
           | Inr v \<Rightarrow> Inr (Some v)))"

definition record_delivered ::
  "int \<Rightarrow> string \<Rightarrow> int \<Rightarrow> string \<Rightarrow> (string \<times> string option) option \<Rightarrow> unit db_op" where
  "record_delivered now w step_id name d =
     record_operation_result now w step_id name (map_option fst d) None None
       (Some (unwrap_or (Option.bind d snd) PORTABLE_NAME))"

definition recv_tx ::
  "int \<Rightarrow> string \<Rightarrow> int \<Rightarrow> string \<Rightarrow> (string \<times> string option) option db_op" where
  "recv_tx now w step_id topic =
     transaction
       (\<lambda>db. case consume_oldest_notification w topic db of (consumed, db1) \<Rightarrow>
          andthen (record_delivered now w step_id ''DBOS.recv'' consumed) (\<lambda>_. ret consumed) db1)"

definition recv ::
  "'v value_codec \<Rightarrow> call_env \<Rightarrow> WorkflowContext \<Rightarrow> string option \<Rightarrow> nat \<Rightarrow> run_state \<Rightarrow>
   ((DbosError + 'v option) \<times> run_state) option" where
  "recv vc env wc topic timeout_ms st =
     (let w = wc_workflow_id wc
      in if wc_within_step wc
         then Some (Inl (step_execution w ''DBOS.recv'' ''cannot call Recv within a step''), st)
         else (case next_step_id st of (step_id, st1) \<Rightarrow>
           (case next_step_id st1 of (sleep_step_id, st2) \<Rightarrow>
             (case check_operation_execution w step_id ''DBOS.recv'' (rs_db st2) of
                Inl e \<Rightarrow> Some (Inl e, st2)
              | Inr (Some rec) \<Rightarrow> Some (decode_optional vc rec, st2)
              | Inr None \<Rightarrow>
                  let t = topic_or_default topic; payload = w @ ''::'' @ t
                  in if payload \<in> set (rs_waiters st2) then Some (Inl (conflicting_id w), st2)
                     else (case record_sleep vc env w sleep_step_id timeout_ms (rs_db st2) of
                         (Inl e, db1) \<Rightarrow> Some (Inl e, st2\<lparr>rs_db := db1\<rparr>)
                       | (Inr remaining, db1) \<Rightarrow>
                           (case wait_rounds
                                   (\<lambda>db. if notification_exists_unconsumed w t db then Some () else None)
                                   (en_instant env + remaining) (en_rounds env) db1 of
                              None \<Rightarrow> None
                            | Some (_, db2) \<Rightarrow>
                                (case recv_tx (en_now2 env) w step_id t db2 of
                                   (Inl e, db3) \<Rightarrow> Some (Inl e, st2\<lparr>rs_db := db3\<rparr>)
                                 | (Inr consumed, db3) \<Rightarrow>
                                     Some (decode_delivered vc consumed, st2\<lparr>rs_db := db3\<rparr>))))))))"

definition get_event ::
  "'v value_codec \<Rightarrow> call_env \<Rightarrow> WorkflowContext \<Rightarrow> string \<Rightarrow> string \<Rightarrow> nat \<Rightarrow> run_state \<Rightarrow>
   ((DbosError + 'v option) \<times> run_state) option" where
  "get_event vc env wc target key timeout_ms st =
     (let w = wc_workflow_id wc
      in if wc_within_step wc
         then Some (Inl (step_execution w ''DBOS.getEvent'' ''cannot call GetEvent within a step''), st)
         else (case next_step_id st of (step_id, st1) \<Rightarrow>
           (case next_step_id st1 of (sleep_step_id, st2) \<Rightarrow>
             (case check_operation_execution w step_id ''DBOS.getEvent'' (rs_db st2) of
                Inl e \<Rightarrow> Some (Inl e, st2)
              | Inr (Some rec) \<Rightarrow> Some (decode_optional vc rec, st2)
              | Inr None \<Rightarrow>
                  (case record_sleep vc env w sleep_step_id timeout_ms (rs_db st2) of
                      (Inl e, db1) \<Rightarrow> Some (Inl e, st2\<lparr>rs_db := db1\<rparr>)
                    | (Inr remaining, db1) \<Rightarrow>
                        (case wait_rounds (select_workflow_event target key)
                                (en_instant env + remaining) (en_rounds env) db1 of
                           None \<Rightarrow> None
                         | Some (found, db2) \<Rightarrow>
                             (case record_delivered (en_now2 env) w step_id ''DBOS.getEvent'' found db2 of
                                (Inl e, db3) \<Rightarrow> Some (Inl e, st2\<lparr>rs_db := db3\<rparr>)
                              | (Inr _, db3) \<Rightarrow>
                                  Some (decode_delivered vc found, st2\<lparr>rs_db := db3\<rparr>))))))))"

end
