(* ===== verification/Dbos_Workflow.thy ===== *)
theory Dbos_Workflow
  imports Dbos_Context
begin

text \<open>
  Starting, running, enqueueing and awaiting workflows: \<open>crates/dbos/src/runtime/workflow.rs\<close>, with
  the registry entry of \<open>runtime/registry.rs\<close>, the erased handler and the option types of
  \<open>runtime/mod.rs\<close>, and the child start of \<open>runtime/context.rs\<close>.

  Conventions. \<open>start_workflow\<close> is the database part of the call: its second result is the task it
  spawns, if any, and \<open>run_task\<close> is what that task does. Fresh ids and the clock are in a
  \<open>start_env\<close>. A handler is the user's code: it is given its calls' environments and is \<open>None\<close> when
  the executor dies or is still waiting before the body returns.
\<close>

subsection \<open>Registry and options\<close>

type_synonym handler =
  "WorkflowContext \<Rightarrow> string option \<Rightarrow> Format \<Rightarrow> call_env list \<Rightarrow> run_state \<Rightarrow>
   ((DbosError + string) \<times> run_state) option"

record RegistryEntry =
  re_handler :: handler
  re_max_retries :: int
  re_name :: string
  re_class_name :: "string option"
  re_config_name :: "string option"

record WorkflowOptions =
  wo_workflow_id :: "string option"
  wo_application_version :: "string option"
  wo_authenticated_user :: "string option"
  wo_assumed_role :: "string option"
  wo_authenticated_roles :: "string list option"

record EnqueueOptions =
  eo_workflow_id :: "string option"
  eo_deduplication_id :: "string option"
  eo_priority :: "int option"
  eo_queue_partition_key :: "string option"
  eo_delay :: "nat option"
  eo_application_version :: "string option"

text \<open>The fields of \<open>DbosInner\<close> that decide what a start does.\<close>

record DbosInner =
  di_executor_id :: string
  di_application_version :: string
  di_application_id :: "string option"
  di_registry :: "string \<Rightarrow> RegistryEntry option"

record start_env =
  se_uuid :: string
  se_owner_xid :: string
  se_now :: int
  se_now_child :: int

definition default_options :: WorkflowOptions where
  "default_options = \<lparr>wo_workflow_id = None, wo_application_version = None,
     wo_authenticated_user = None, wo_assumed_role = None, wo_authenticated_roles = None\<rparr>"

text \<open>
  The closure built at registration: decode the input, run the typed body, encode its result.
\<close>

definition erased_handler ::
  "serde \<Rightarrow> (string \<Rightarrow> string + PortableArgs) \<Rightarrow> (json \<Rightarrow> string + 'p) \<Rightarrow> ('r \<Rightarrow> string + json) \<Rightarrow>
   (WorkflowContext \<Rightarrow> 'p \<Rightarrow> call_env list \<Rightarrow> run_state \<Rightarrow> ((DbosError + 'r) \<times> run_state) option) \<Rightarrow>
   handler" where
  "erased_handler sd args_from from_value to_value f wc input fmt envs st =
     (case decode_input sd args_from from_value input (Some (format_name fmt)) of
        Inl e \<Rightarrow> Some (Inl e, st)
      | Inr p \<Rightarrow>
          (case f wc p envs st of
             None \<Rightarrow> None
           | Some (Inl e, st') \<Rightarrow> Some (Inl e, st')
           | Some (Inr r, st') \<Rightarrow> Some (encode_value sd to_value r fmt, st')))"

subsection \<open>Starting\<close>

definition resolve_auth :: "WorkflowOptions \<Rightarrow> AuthIdentity option \<Rightarrow> AuthIdentity" where
  "resolve_auth opts pauth =
     \<lparr>au_user = opt_or (wo_authenticated_user opts) (Option.bind pauth au_user),
      au_role = opt_or (wo_assumed_role opts) (Option.bind pauth au_role),
      au_roles = unwrap_or (wo_authenticated_roles opts)
                   (unwrap_or (map_option au_roles pauth) [])\<rparr>"

text \<open>A parent is the context of the running workflow and the step id reserved for the child.\<close>

definition choose_id ::
  "WorkflowOptions \<Rightarrow> (WorkflowContext \<times> int) option \<Rightarrow> string \<Rightarrow> string" where
  "choose_id opts parent uuid =
     (case wo_workflow_id opts of
        Some i \<Rightarrow> i
      | None \<Rightarrow>
          (case parent of
             Some (pwc, step_id) \<Rightarrow> wc_workflow_id pwc @ ''-'' @ show_int step_id
           | None \<Rightarrow> uuid))"

definition roles_json :: "serde \<Rightarrow> string list \<Rightarrow> string" where
  "roles_json sd roles = sd_to_string sd (Array (map String roles))"

definition start_input ::
  "serde \<Rightarrow> DbosInner \<Rightarrow> start_env \<Rightarrow> RegistryEntry \<Rightarrow> string \<Rightarrow> string option \<Rightarrow> WorkflowOptions \<Rightarrow>
   (WorkflowContext \<times> int) option \<Rightarrow> Format \<Rightarrow> bool \<Rightarrow> InsertWorkflowInput" where
  "start_input sd inner se entry name encoded_input opts parent fmt is_recovery =
     (let auth = resolve_auth opts (map_option (wc_auth \<circ> fst) parent)
      in default_insert_input\<lparr>
           in_workflow_id := choose_id opts parent (se_uuid se),
           in_status := as_str Pending,
           in_name := name,
           in_executor_id := di_executor_id inner,
           in_application_version :=
             Some (unwrap_or (wo_application_version opts) (di_application_version inner)),
           in_application_id := di_application_id inner,
           in_created_at := se_now se,
           in_updated_at := se_now se,
           in_recovery_attempts := 1,
           in_inputs := encoded_input,
           in_priority := 0,
           in_owner_xid := se_owner_xid se,
           in_parent_workflow_id := map_option (wc_workflow_id \<circ> fst) parent,
           in_class_name := re_class_name entry,
           in_config_name := re_config_name entry,
           in_serialization := Some (format_name fmt),
           in_authenticated_user := au_user auth,
           in_assumed_role := au_role auth,
           in_authenticated_roles :=
             (if au_roles auth = [] then None else Some (roles_json sd (au_roles auth))),
           in_increment := (if is_recovery then 1 else 0)\<rparr>)"

datatype HandleKind = Owned | Polling

record WorkflowHandle =
  wh_id :: string
  wh_kind :: HandleKind

text \<open>The constructors of a handle.\<close>

definition polling :: "string \<Rightarrow> WorkflowHandle" where
  [simp]: "polling w = \<lparr>wh_id = w, wh_kind = Polling\<rparr>"

definition owned :: "string \<Rightarrow> WorkflowHandle" where
  [simp]: "owned w = \<lparr>wh_id = w, wh_kind = Owned\<rparr>"

record task =
  tk_handler :: handler
  tk_context :: WorkflowContext
  tk_input :: "string option"
  tk_format :: Format

text \<open>
  The transaction of a start. Dead-lettering commits before the error is returned, so it is a
  result of the transaction (\<open>None\<close>), not a failure of it.
\<close>

definition start_tx ::
  "InsertWorkflowInput \<Rightarrow> int \<Rightarrow> int \<Rightarrow> (WorkflowContext \<times> int) option \<Rightarrow> InsertResult option db_op" where
  "start_tx i max_retries now_child parent =
     transaction
       (andthen (insert_workflow_status i max_retries)
         (\<lambda>res. if ir_dlq_triggered res then ret None
                else (case parent of
                        None \<Rightarrow> ret (Some res)
                      | Some (pwc, step_id) \<Rightarrow>
                          andthen
                            (record_child_workflow now_child (wc_workflow_id pwc) step_id (in_name i)
                               (in_workflow_id i))
                            (\<lambda>_. ret (Some res)))))"

definition should_skip :: "InsertResult \<Rightarrow> bool \<Rightarrow> string \<Rightarrow> bool" where
  "should_skip res is_recovery owner_xid \<longleftrightarrow>
     ir_status res = as_str Success \<or> ir_status res = as_str Error \<or>
     (\<not> is_recovery \<and> ir_owner_xid res \<noteq> Some owner_xid)"

definition start_workflow ::
  "serde \<Rightarrow> DbosInner \<Rightarrow> start_env \<Rightarrow> string \<Rightarrow> string option \<Rightarrow> WorkflowOptions \<Rightarrow>
   (WorkflowContext \<times> int) option \<Rightarrow> Format \<Rightarrow> bool \<Rightarrow> (WorkflowHandle \<times> task option) db_op" where
  "start_workflow sd inner se name encoded_input opts parent fmt is_recovery db =
     (case di_registry inner name of
        None \<Rightarrow> (Inl (other (''workflow '' @ name @ '' is not registered'')), db)
      | Some entry \<Rightarrow>
          (let i = start_input sd inner se entry name encoded_input opts parent fmt is_recovery;
               w = in_workflow_id i
           in case start_tx i (re_max_retries entry) (se_now_child se) parent db of
                (Inl e, db1) \<Rightarrow> (Inl e, db1)
              | (Inr None, db1) \<Rightarrow> (Inl (dead_letter_queue w (re_max_retries entry)), db1)
              | (Inr (Some res), db1) \<Rightarrow>
                  if should_skip res is_recovery (se_owner_xid se)
                  then (Inr (polling w, None), db1)
                  else (Inr (owned w,
                          Some \<lparr>tk_handler = re_handler entry,
                                tk_context =
                                  \<lparr>wc_workflow_id = w,
                                   wc_auth = resolve_auth opts (map_option (wc_auth \<circ> fst) parent),
                                   wc_within_step = False\<rparr>,
                                tk_input = encoded_input, tk_format = fmt\<rparr>), db1)))"

text \<open>
  The spawned task: run the handler, record the outcome, forward the result. A failure to record
  is ignored by the code; recording is a plain UPDATE.
\<close>

definition record_outcome ::
  "error_serde \<Rightarrow> int \<Rightarrow> string \<Rightarrow> Format \<Rightarrow> DbosError + string \<Rightarrow> sysdb \<Rightarrow> sysdb" where
  "record_outcome es now w fmt result db =
     (case result of
        Inr out \<Rightarrow> update_workflow_outcome now w Success (Some out) None db
      | Inl e \<Rightarrow>
          update_workflow_outcome now w Error None
            (Some (serialize_workflow_error es (display e) None fmt)) db)"

definition run_task ::
  "error_serde \<Rightarrow> int \<Rightarrow> task \<Rightarrow> call_env list \<Rightarrow> string list \<Rightarrow> sysdb \<Rightarrow>
   ((DbosError + string) \<times> sysdb) option" where
  "run_task es now t envs waiters db =
     (case tk_handler t (tk_context t) (tk_input t) (tk_format t) envs (new_run db waiters) of
        None \<Rightarrow> None
      | Some (result, st) \<Rightarrow>
          Some (result,
            record_outcome es now (wc_workflow_id (tk_context t)) (tk_format t) result (rs_db st)))"

subsection \<open>Child workflows\<close>

definition run_child_workflow ::
  "serde \<Rightarrow> (PortableArgs \<Rightarrow> string) \<Rightarrow> DbosInner \<Rightarrow> start_env \<Rightarrow> WorkflowContext \<Rightarrow> string \<Rightarrow>
   ('p \<Rightarrow> string + json) \<Rightarrow> 'p \<Rightarrow> WorkflowOptions \<Rightarrow> (WorkflowHandle \<times> task option) ctx_op" where
  "run_child_workflow sd args_to inner se wc name to_value input opts st =
     (if wc_within_step wc
      then (Inl (step_execution (wc_workflow_id wc) name
              ''cannot start a child workflow from within a step''), st)
      else (case next_step_id st of (step_id, st1) \<Rightarrow>
        (case check_child_workflow (wc_workflow_id wc) step_id (rs_db st1) of
           Some child \<Rightarrow> (Inr (polling child, None), st1)
         | None \<Rightarrow>
             (case encode_input sd args_to to_value input Portable of
                Inl e \<Rightarrow> (Inl e, st1)
              | Inr encoded \<Rightarrow>
                  on_db (start_workflow sd inner se name (Some encoded) opts (Some (wc, step_id))
                           Portable False) st1))))"

subsection \<open>Enqueueing\<close>

definition enqueue_input ::
  "DbosInner \<Rightarrow> start_env \<Rightarrow> RegistryEntry \<Rightarrow> string \<Rightarrow> string \<Rightarrow> string option \<Rightarrow> EnqueueOptions \<Rightarrow>
   InsertWorkflowInput" where
  "enqueue_input inner se entry queue_name name encoded_input opts =
     default_insert_input\<lparr>
       in_workflow_id := unwrap_or (eo_workflow_id opts) (se_uuid se),
       in_status := as_str (case eo_delay opts of None \<Rightarrow> Enqueued | Some d \<Rightarrow> Delayed),
       in_name := name,
       in_queue_name := Some queue_name,
       in_executor_id := di_executor_id inner,
       in_application_version :=
         Some (unwrap_or (eo_application_version opts) (di_application_version inner)),
       in_application_id := di_application_id inner,
       in_created_at := se_now se,
       in_updated_at := se_now se,
       in_recovery_attempts := 0,
       in_inputs := encoded_input,
       in_priority := unwrap_or (eo_priority opts) 0,
       in_deduplication_id := eo_deduplication_id opts,
       in_queue_partition_key := eo_queue_partition_key opts,
       in_delay_until_epoch_ms := map_option (\<lambda>d. se_now se + cast_i64 (int d)) (eo_delay opts),
       in_owner_xid := se_owner_xid se,
       in_serialization := Some (format_name Portable),
       in_class_name := re_class_name entry,
       in_config_name := re_config_name entry,
       in_increment := 0\<rparr>"

definition enqueue_workflow ::
  "DbosInner \<Rightarrow> start_env \<Rightarrow> string \<Rightarrow> string \<Rightarrow> string option \<Rightarrow> EnqueueOptions \<Rightarrow>
   WorkflowHandle db_op" where
  "enqueue_workflow inner se queue_name name encoded_input opts db =
     (case di_registry inner name of
        None \<Rightarrow> (Inl (other (''workflow '' @ name @ '' is not registered'')), db)
      | Some entry \<Rightarrow>
          (let i = enqueue_input inner se entry queue_name name encoded_input opts;
               w = in_workflow_id i
           in case transaction (insert_workflow_status i (re_max_retries entry)) db of
                (Inr _, db1) \<Rightarrow> (Inr (polling w), db1)
              | (Inl e, db1) \<Rightarrow>
                  if is_db_unique_violation e
                  then (Inl (queue_deduplicated w queue_name
                          (unwrap_or (eo_deduplication_id opts) [])), db1)
                  else (Inl e, db1)))"

subsection \<open>Results\<close>

text \<open>
  What an owned handle finds in its channel: the forwarded result, a dropped sender, or nothing
  because an earlier call took the receiver. A polling handle has no channel.
\<close>

datatype channel = Forwarded "DbosError + string" | SenderDropped | NoChannel

definition outcome_result ::
  "'v value_codec \<Rightarrow> string \<Rightarrow> AwaitOutcome \<Rightarrow> DbosError + 'v" where
  "outcome_result vc w out =
     (case out of
        AwaitSuccess output ser \<Rightarrow> stored_value vc output ser
      | AwaitError err ser \<Rightarrow>
          Inl (case deserialize_workflow_error (vc_error vc) err ser of
                 Some (Plain s) \<Rightarrow> other s
               | Some (PortableError pe) \<Rightarrow> other (pe_message pe)
               | None \<Rightarrow> other ''workflow failed'')
      | AwaitCancelled \<Rightarrow> Inl (awaited_workflow_cancelled w)
      | AwaitDeadLetter attempts \<Rightarrow> Inl (dead_letter_queue w (attempts - 2)))"

text \<open>The observed states of the poll are an argument; \<open>None\<close> while it is still waiting.\<close>

definition get_result ::
  "'v value_codec \<Rightarrow> channel \<Rightarrow> sysdb list \<Rightarrow> WorkflowHandle \<Rightarrow> (DbosError + 'v) option" where
  "get_result vc ch dbs h =
     (case ch of
        Forwarded (Inr encoded) \<Rightarrow> Some (stored_value vc (Some encoded) (Some (format_name Portable)))
      | Forwarded (Inl e) \<Rightarrow> Some (Inl e)
      | _ \<Rightarrow> map_option (outcome_result vc (wh_id h)) (await_workflow_result dbs (wh_id h)))"

definition handle_status :: "WorkflowHandle \<Rightarrow> sysdb \<Rightarrow> WorkflowStatusType option" where
  "handle_status h db = Option.bind (get_status db (wh_id h)) from_str"

subsection \<open>Facts\<close>

lemma start_input_simps [simp]:
  "in_workflow_id (start_input sd inner se entry name inp opts parent fmt rcv) =
     choose_id opts parent (se_uuid se)"
  "in_status (start_input sd inner se entry name inp opts parent fmt rcv) = as_str Pending"
  "in_name (start_input sd inner se entry name inp opts parent fmt rcv) = name"
  "in_queue_name (start_input sd inner se entry name inp opts parent fmt rcv) = None"
  "in_executor_id (start_input sd inner se entry name inp opts parent fmt rcv) = di_executor_id inner"
  "in_owner_xid (start_input sd inner se entry name inp opts parent fmt rcv) = se_owner_xid se"
  "in_recovery_attempts (start_input sd inner se entry name inp opts parent fmt rcv) = 1"
  "in_increment (start_input sd inner se entry name inp opts parent fmt rcv) = (if rcv then 1 else 0)"
  "in_deduplication_id (start_input sd inner se entry name inp opts parent fmt rcv) = None"
  "in_serialization (start_input sd inner se entry name inp opts parent fmt rcv) =
     Some (format_name fmt)"
  "in_inputs (start_input sd inner se entry name inp opts parent fmt rcv) = inp"
  by (simp_all add: start_input_def default_insert_input_def Let_def)

lemma enqueue_input_simps [simp]:
  "in_workflow_id (enqueue_input inner se entry q name inp opts) =
     unwrap_or (eo_workflow_id opts) (se_uuid se)"
  "in_status (enqueue_input inner se entry q name inp opts) =
     as_str (case eo_delay opts of None \<Rightarrow> Enqueued | Some d \<Rightarrow> Delayed)"
  "in_name (enqueue_input inner se entry q name inp opts) = name"
  "in_queue_name (enqueue_input inner se entry q name inp opts) = Some q"
  "in_deduplication_id (enqueue_input inner se entry q name inp opts) = eo_deduplication_id opts"
  "in_recovery_attempts (enqueue_input inner se entry q name inp opts) = 0"
  by (simp_all add: enqueue_input_def default_insert_input_def)

lemma choose_id_given [simp]: "wo_workflow_id opts = Some w \<Longrightarrow> choose_id opts parent u = w"
  by (simp add: choose_id_def)

text \<open>The transaction of a start, inverted.\<close>

lemma start_tx_SomeE:
  assumes "start_tx i m nc parent db = (Inr (Some res), db')"
  obtains db1 where "insert_workflow_status i m db = (Inr res, db1)" and "\<not> ir_dlq_triggered res"
    and "case parent of None \<Rightarrow> db' = db1
         | Some (pwc, step_id) \<Rightarrow>
             record_child_workflow nc (wc_workflow_id pwc) step_id (in_name i) (in_workflow_id i) db1 =
               (Inr (), db')"
  using assms
  by (auto simp: start_tx_def transaction_def andthen_def ret_def split: prod.splits sum.splits
      if_splits option.splits)

lemma start_tx_NoneE:
  assumes "start_tx i m nc parent db = (Inr None, db')"
  obtains res where "insert_workflow_status i m db = (Inr res, db')" and "ir_dlq_triggered res"
  using assms
  by (auto simp: start_tx_def transaction_def andthen_def ret_def split: prod.splits sum.splits
      if_splits option.splits)

lemma start_tx_Inl: "start_tx i m nc parent db = (Inl e, db') \<Longrightarrow> db' = db"
  by (auto simp: start_tx_def transaction_def split: prod.splits sum.splits)

lemma record_child_frame:
  "record_child_workflow nc p f n c db = (r, db') \<Longrightarrow> workflow_status db' = workflow_status db"
  using record_operation_workflows [of nc p f n None None "Some c" None db]
  by (simp add: record_child_workflow_def)

lemma start_tx_preserves: "preserves db_wf (start_tx i m nc parent)"
  unfolding start_tx_def record_child_workflow_def
  by (intro preserves_transaction preserves_andthen insert_workflow_status_preserves preserves_if
      preserves_ret preserves_option)
    (auto intro!: preserves_andthen record_operation_preserves preserves_ret split: prod.splits option.splits)

text \<open>What a successful start does to the row, and when it runs the body.\<close>

lemma start_workflow_InrE:
  assumes "start_workflow sd inner se name inp opts parent fmt rcv db = (Inr (h, t), db')"
  obtains entry i row db1 where "di_registry inner name = Some entry"
    and "i = start_input sd inner se entry name inp opts parent fmt rcv"
    and "upsert_workflow i db = Inr (row, db1)"
    and "\<not> dead_letter (ws_status row) (ws_recovery_attempts row) (re_max_retries entry)"
    and "workflow_status db' = workflow_status db1"
    and "case parent of None \<Rightarrow> db' = db1
         | Some (pwc, step_id) \<Rightarrow>
             record_child_workflow (se_now_child se) (wc_workflow_id pwc) step_id name
               (in_workflow_id i) db1 = (Inr (), db')"
    and "wh_id h = in_workflow_id i"
    and "wh_kind h = (if t = None then Polling else Owned)"
    and "t = None \<longleftrightarrow> ws_status row = as_str Success \<or> ws_status row = as_str Error \<or>
           \<not> rcv \<and> ws_owner_xid row \<noteq> Some (se_owner_xid se)"
proof -
  from assms obtain entry where e: "di_registry inner name = Some entry"
    by (auto simp: start_workflow_def split: option.splits)
  define i where "i = start_input sd inner se entry name inp opts parent fmt rcv"
  from assms e obtain res where
    tx: "start_tx i (re_max_retries entry) (se_now_child se) parent db = (Inr (Some res), db')"
    and h: "wh_id h = in_workflow_id i" "wh_kind h = (if t = None then Polling else Owned)"
      "t = None \<longleftrightarrow> should_skip res rcv (se_owner_xid se)"
    by (auto simp: start_workflow_def i_def Let_def split: prod.splits sum.splits option.splits if_splits)
  from tx obtain db2 where ins: "insert_workflow_status i (re_max_retries entry) db = (Inr res, db2)"
    and nd: "\<not> ir_dlq_triggered res"
    and ch: "case parent of None \<Rightarrow> db' = db2
         | Some (pwc, step_id) \<Rightarrow>
             record_child_workflow (se_now_child se) (wc_workflow_id pwc) step_id (in_name i)
               (in_workflow_id i) db2 = (Inr (), db')"
    by (rule start_tx_SomeE)
  from ins obtain row db1 where u: "upsert_workflow i db = Inr (row, db1)"
    and fin: "finish_insert i (re_max_retries entry) row db1 = (Inr res, db2)"
    by (rule insert_workflow_status_InrE)
  from fin nd have "db2 = db1" "\<not> dead_letter (ws_status row) (ws_recovery_attempts row) (re_max_retries entry)"
    and "ir_status res = ws_status row" "ir_owner_xid res = ws_owner_xid row"
    by (auto simp: finish_insert_Inr)
  moreover from ch \<open>db2 = db1\<close> have "workflow_status db' = workflow_status db1"
    by (auto split: option.splits dest: record_child_frame)
  moreover have "case parent of None \<Rightarrow> db' = db1
         | Some (pwc, step_id) \<Rightarrow>
             record_child_workflow (se_now_child se) (wc_workflow_id pwc) step_id name
               (in_workflow_id i) db1 = (Inr (), db')"
    using ch \<open>db2 = db1\<close> by (auto simp: i_def split: option.splits)
  ultimately show thesis
    using that [OF e i_def u _ _ _ h(1,2)] h(3) unfolding should_skip_def by simp
qed

lemma find_workflow_same: "workflow_status db' = workflow_status db \<Longrightarrow> find_workflow db' w = find_workflow db w"
  by (simp add: find_workflow_def)

lemma start_workflow_db_wf:
  assumes "db_wf db"
  shows "db_wf (snd (start_workflow sd inner se name inp opts parent fmt rcv db))"
proof -
  have "db_wf (snd (start_tx i m nc parent db))" for i m nc
    by (rule preservesD [OF start_tx_preserves assms])
  then show ?thesis
    by (auto simp: start_workflow_def Let_def assms split: option.splits prod.splits sum.splits)
      (metis snd_conv)+
qed

lemma start_existing:
  assumes "start_workflow sd inner se name inp opts parent fmt rcv db = (Inr (h, t), db')"
    and "find_workflow db (wh_id h) = Some r"
  obtains r' where "find_workflow db' (wh_id h) = Some r'"
    and "ws_owner_xid r' = ws_owner_xid r" and "ws_status r' = ws_status r"
    and "ws_executor_id r' = Some (di_executor_id inner)"
    and "ws_application_version r' = ws_application_version r"
    and "ws_recovery_attempts r' = ws_recovery_attempts r + (if rcv then 1 else 0)"
    and "t = None \<longleftrightarrow> ws_status r = as_str Success \<or> ws_status r = as_str Error \<or>
           \<not> rcv \<and> ws_owner_xid r \<noteq> Some (se_owner_xid se)"
    and "\<And>v. v \<noteq> wh_id h \<Longrightarrow> find_workflow db' v = find_workflow db v"
proof -
  from assms(1) obtain entry i row db1 where i: "i = start_input sd inner se entry name inp opts parent fmt rcv"
    and u: "upsert_workflow i db = Inr (row, db1)"
    and s: "workflow_status db' = workflow_status db1" and h: "wh_id h = in_workflow_id i"
    and t: "t = None \<longleftrightarrow> ws_status row = as_str Success \<or> ws_status row = as_str Error \<or>
           \<not> rcv \<and> ws_owner_xid row \<noteq> Some (se_owner_xid se)"
    by (rule start_workflow_InrE)
  from u assms(2) h have row: "row = on_conflict_row i r" by (simp add: upsert_existing)
  have "find_workflow db' (wh_id h) = Some row"
    using upsert_find(1) [OF u] h by (simp add: find_workflow_same [OF s])
  moreover have "find_workflow db' v = find_workflow db v" if "v \<noteq> wh_id h" for v
    using upsert_other [OF u] that h by (simp add: find_workflow_same [OF s])
  ultimately show thesis
    using that [of row] row t by (simp add: i on_conflict_row_def Let_def)
qed

lemma start_new:
  assumes "start_workflow sd inner se name inp opts parent fmt rcv db = (Inr (h, t), db')"
    and "find_workflow db (wh_id h) = None"
  obtains r' where "find_workflow db' (wh_id h) = Some r'"
    and "ws_owner_xid r' = Some (se_owner_xid se)" and "ws_status r' = as_str Pending" and "t \<noteq> None"
    and "\<And>v. v \<noteq> wh_id h \<Longrightarrow> find_workflow db' v = find_workflow db v"
proof -
  from assms(1) obtain entry i row db1 where i: "i = start_input sd inner se entry name inp opts parent fmt rcv"
    and u: "upsert_workflow i db = Inr (row, db1)"
    and s: "workflow_status db' = workflow_status db1" and h: "wh_id h = in_workflow_id i"
    and t: "t = None \<longleftrightarrow> ws_status row = as_str Success \<or> ws_status row = as_str Error \<or>
           \<not> rcv \<and> ws_owner_xid row \<noteq> Some (se_owner_xid se)"
    by (rule start_workflow_InrE)
  from u assms(2) h have row: "row = fresh_row i"
    by (auto simp: upsert_workflow_def Let_def split: if_splits option.splits)
  have "find_workflow db' (wh_id h) = Some row"
    using upsert_find(1) [OF u] h by (simp add: find_workflow_same [OF s])
  moreover have "find_workflow db' v = find_workflow db v" if "v \<noteq> wh_id h" for v
    using upsert_other [OF u] that h by (simp add: find_workflow_same [OF s])
  ultimately show thesis
    using that [of row] row t by (simp add: i fresh_row_def)
qed

text \<open>A start that fails leaves the row's owner alone.\<close>

lemma start_Inl_owner:
  assumes "start_workflow sd inner se name inp opts parent fmt rcv db = (Inl e, db')"
    and "wo_workflow_id opts = Some w"
  shows "(find_workflow db w = None \<longrightarrow> find_workflow db' w = None) \<and>
    (\<forall>r. find_workflow db w = Some r \<longrightarrow>
       (\<exists>r'. find_workflow db' w = Some r' \<and> ws_owner_xid r' = ws_owner_xid r))"
proof -
  consider "db' = db" | entry i where "i = start_input sd inner se entry name inp opts parent fmt rcv"
      and "start_tx i (re_max_retries entry) (se_now_child se) parent db = (Inr None, db')"
    using assms(1)
    by (auto simp: start_workflow_def Let_def split: option.splits prod.splits sum.splits if_splits
        dest: start_tx_Inl)
  then show ?thesis
  proof cases
    case 1
    then show ?thesis by simp
  next
    case (2 entry i)
    obtain res where ins: "insert_workflow_status i (re_max_retries entry) db = (Inr res, db')"
      and dlq: "ir_dlq_triggered res" by (rule start_tx_NoneE [OF 2(2)])
    obtain row db1 where u: "upsert_workflow i db = Inr (row, db1)"
      and fin: "finish_insert i (re_max_retries entry) row db1 = (Inr res, db')"
      by (rule insert_workflow_status_InrE [OF ins])
    have w: "in_workflow_id i = w" using 2(1) assms(2) by simp
    show ?thesis
    proof (cases "find_workflow db w")
      case None
      with u w have "row = fresh_row i"
        by (auto simp: upsert_workflow_def Let_def split: if_splits option.splits)
      then have "\<not> dead_letter (ws_status row) (ws_recovery_attempts row) (re_max_retries entry)"
        by (simp add: 2(1) dead_letter_def)
      with fin dlq show ?thesis by (simp add: finish_insert_Inr)
    next
      case (Some r)
      with u w have "row = on_conflict_row i r" by (simp add: upsert_existing)
      with upsert_find [OF u] fin dlq w Some show ?thesis
        by (auto simp: finish_insert_Inr find_workflow_dlq_update)
    qed
  qed
qed

subsection \<open>Many starts with one id\<close>

text \<open>Start calls of any executors, each preceded by what others do to the database.\<close>

record start_call =
  sc_others :: "sysdb \<Rightarrow> sysdb"
  sc_inner :: DbosInner
  sc_env :: start_env
  sc_name :: string
  sc_input :: "string option"
  sc_options :: WorkflowOptions
  sc_parent :: "(WorkflowContext \<times> int) option"
  sc_format :: Format

definition start_call :: "serde \<Rightarrow> start_call \<Rightarrow> (WorkflowHandle \<times> task option) db_op" where
  "start_call sd c db =
     start_workflow sd (sc_inner c) (sc_env c) (sc_name c) (sc_input c) (sc_options c) (sc_parent c)
       (sc_format c) False (sc_others c db)"

definition spawned :: "DbosError + (WorkflowHandle \<times> task option) \<Rightarrow> task list" where
  "spawned r = (case r of Inl _ \<Rightarrow> [] | Inr (h, t) \<Rightarrow> (case t of None \<Rightarrow> [] | Some k \<Rightarrow> [k]))"

fun spawned_by :: "serde \<Rightarrow> start_call list \<Rightarrow> sysdb \<Rightarrow> task list" where
  "spawned_by sd [] db = []"
| "spawned_by sd (c # cs) db =
     (case start_call sd c db of (r, db1) \<Rightarrow> spawned r @ spawned_by sd cs db1)"

definition xid_of :: "start_call \<Rightarrow> string" where
  "xid_of c = se_owner_xid (sc_env c)"

definition owned_outside :: "string \<Rightarrow> string set \<Rightarrow> sysdb \<Rightarrow> bool" where
  "owned_outside w xids db \<longleftrightarrow>
     (\<exists>r. find_workflow db w = Some r \<and> (\<forall>x \<in> xids. ws_owner_xid r \<noteq> Some x))"

text \<open>Others may do anything but delete the workflow or give it the owner of one of the calls.\<close>

definition keeps_owner :: "string \<Rightarrow> string set \<Rightarrow> (sysdb \<Rightarrow> sysdb) \<Rightarrow> bool" where
  "keeps_owner w xids f \<longleftrightarrow>
     (\<forall>db. (\<forall>r. find_workflow db w = Some r \<longrightarrow>
              (\<exists>r'. find_workflow (f db) w = Some r' \<and> ws_owner_xid r' = ws_owner_xid r)) \<and>
           (find_workflow db w = None \<longrightarrow>
              find_workflow (f db) w = None \<or> owned_outside w xids (f db)))"

definition starts_on :: "string \<Rightarrow> string set \<Rightarrow> start_call \<Rightarrow> bool" where
  "starts_on w xids c \<longleftrightarrow> wo_workflow_id (sc_options c) = Some w \<and> keeps_owner w xids (sc_others c)"

lemma owned_outside_mono: "owned_outside w xs db \<Longrightarrow> ys \<subseteq> xs \<Longrightarrow> owned_outside w ys db"
  by (auto simp: owned_outside_def)

lemma keeps_owner_outside: "keeps_owner w xs f \<Longrightarrow> owned_outside w ys db \<Longrightarrow> owned_outside w ys (f db)"
  by (fastforce simp: keeps_owner_def owned_outside_def)

lemma start_call_id:
  "start_call sd c db = (Inr (h, t), db') \<Longrightarrow> wo_workflow_id (sc_options c) = Some w \<Longrightarrow> wh_id h = w"
  unfolding start_call_def by (elim start_workflow_InrE) simp

text \<open>Once the row has a foreign owner, a start runs nothing and leaves it so.\<close>

lemma start_call_owned:
  assumes "starts_on w xs c" and "owned_outside w ys db" and "xid_of c \<in> ys"
    and "start_call sd c db = (r, db')"
  shows "spawned r = [] \<and> owned_outside w ys db'"
proof -
  have id: "wo_workflow_id (sc_options c) = Some w" using assms(1) by (simp add: starts_on_def)
  have "owned_outside w ys (sc_others c db)"
    using assms(1,2) by (auto simp: starts_on_def intro: keeps_owner_outside)
  then obtain row where row: "find_workflow (sc_others c db) w = Some row"
    and foreign: "\<forall>x \<in> ys. ws_owner_xid row \<noteq> Some x" by (auto simp: owned_outside_def)
  show ?thesis
  proof (cases r)
    case (Inl e)
    with start_Inl_owner [OF assms(4) [unfolded start_call_def Inl] id] row foreign show ?thesis
      by (auto simp: spawned_def owned_outside_def)
  next
    case (Inr p)
    obtain h t where p: "p = (h, t)" by force
    from start_call_id [OF assms(4) [unfolded Inr p] id] have h: "wh_id h = w" .
    obtain r' where r': "find_workflow db' w = Some r'" "ws_owner_xid r' = ws_owner_xid row"
      and t: "t = None \<longleftrightarrow> ws_status row = as_str Success \<or> ws_status row = as_str Error \<or>
           \<not> False \<and> ws_owner_xid row \<noteq> Some (se_owner_xid (sc_env c))"
      by (rule start_existing [OF assms(4) [unfolded start_call_def Inr p], unfolded h, OF row]) blast
    from foreign assms(3) have "ws_owner_xid row \<noteq> Some (se_owner_xid (sc_env c))"
      by (auto simp: xid_of_def)
    with t have "t = None" by simp
    with Inr p r' foreign show ?thesis by (auto simp: spawned_def owned_outside_def)
  qed
qed

text \<open>While the row does not exist, a start runs the body at most once and then owns the row.\<close>

lemma start_call_fresh:
  assumes "starts_on w xs c" and "find_workflow db w = None" and "ys \<subseteq> xs"
    and "xid_of c \<in> xs" and "xid_of c \<notin> ys" and "start_call sd c db = (r, db')"
  shows "spawned r = [] \<and> (find_workflow db' w = None \<or> owned_outside w ys db') \<or>
    length (spawned r) = 1 \<and> owned_outside w ys db'"
proof -
  have id: "wo_workflow_id (sc_options c) = Some w" using assms(1) by (simp add: starts_on_def)
  have ko: "keeps_owner w xs (sc_others c)" using assms(1) by (simp add: starts_on_def)
  show ?thesis
  proof (cases "find_workflow (sc_others c db) w")
    case (Some row)
    have "find_workflow (sc_others c db) w = None \<or> owned_outside w xs (sc_others c db)"
      using ko assms(2) unfolding keeps_owner_def by blast
    with Some have own: "owned_outside w xs (sc_others c db)" by simp
    have "spawned r = [] \<and> owned_outside w xs db'"
    proof (rule start_call_owned [where c = "c\<lparr>sc_others := id\<rparr>"])
      show "starts_on w xs (c\<lparr>sc_others := id\<rparr>)"
        using id by (auto simp: starts_on_def keeps_owner_def)
      show "owned_outside w xs (sc_others c db)" by (rule own)
      show "xid_of (c\<lparr>sc_others := id\<rparr>) \<in> xs" using assms(4) by (simp add: xid_of_def)
      show "start_call sd (c\<lparr>sc_others := id\<rparr>) (sc_others c db) = (r, db')"
        using assms(6) by (simp add: start_call_def)
    qed
    with assms(3) show ?thesis by (auto intro: owned_outside_mono)
  next
    case None
    show ?thesis
    proof (cases r)
      case (Inl e)
      with start_Inl_owner [OF assms(6) [unfolded start_call_def Inl] id] None show ?thesis
        by (simp add: spawned_def)
    next
      case (Inr p)
      obtain h t where p: "p = (h, t)" by force
      from start_call_id [OF assms(6) [unfolded Inr p] id] have h: "wh_id h = w" .
      obtain r' where "find_workflow db' w = Some r'"
        and "ws_owner_xid r' = Some (se_owner_xid (sc_env c))" and "t \<noteq> None"
        by (rule start_new [OF assms(6) [unfolded start_call_def Inr p], unfolded h, OF None]) blast
      with Inr p assms(5) show ?thesis
        by (auto simp: spawned_def owned_outside_def xid_of_def)
    qed
  qed
qed

lemma spawned_by_owned:
  assumes "\<forall>c \<in> set cs. starts_on w xs c" and "owned_outside w ys db" and "xid_of ` set cs \<subseteq> ys"
  shows "spawned_by sd cs db = []"
  using assms
proof (induction cs arbitrary: db)
  case (Cons c cs)
  obtain r db' where c: "start_call sd c db = (r, db')" by force
  have "spawned r = [] \<and> owned_outside w ys db'"
    using Cons.prems start_call_owned [OF _ _ _ c] by auto
  with c Cons show ?case by simp
qed simp

lemma spawned_by_fresh:
  assumes "\<forall>c \<in> set cs. starts_on w xs c" and "find_workflow db w = None"
    and "xid_of ` set cs \<subseteq> xs" and "distinct (map xid_of cs)"
  shows "length (spawned_by sd cs db) \<le> 1"
  using assms
proof (induction cs arbitrary: db)
  case (Cons c cs)
  obtain r db' where c: "start_call sd c db = (r, db')" by force
  have "spawned r = [] \<and> (find_workflow db' w = None \<or> owned_outside w (xid_of ` set cs) db') \<or>
    length (spawned r) = 1 \<and> owned_outside w (xid_of ` set cs) db'"
    using Cons.prems by (intro start_call_fresh [OF _ Cons.prems(2) _ _ _ c]) auto
  with c Cons spawned_by_owned [of cs w xs "xid_of ` set cs" db' sd] show ?case by auto
qed simp

lemma start_fresh:
  assumes "find_workflow db w = None" and "choose_id opts parent (se_uuid se) = w"
    and "di_registry inner name = Some entry"
    and "case parent of None \<Rightarrow> True | Some (pwc, f) \<Rightarrow>
      workflow_exists db (wc_workflow_id pwc) \<and> find_operation db (wc_workflow_id pwc) f = None"
  shows "\<exists>k db'. start_workflow sd inner se name inp opts parent fmt rcv db =
    (Inr (\<lparr>wh_id = w, wh_kind = Owned\<rparr>, Some k), db') \<and>
    find_workflow db' w = Some (fresh_row (start_input sd inner se entry name inp opts parent fmt rcv)) \<and>
    tk_handler k = re_handler entry \<and> wc_workflow_id (tk_context k) = w \<and> tk_input k = inp \<and>
    tk_format k = fmt"
proof -
  define i where "i = start_input sd inner se entry name inp opts parent fmt rcv"
  have i: "in_workflow_id i = w" "in_queue_name i = None" "in_deduplication_id i = None"
    "in_recovery_attempts i = 1" "in_name i = name" "in_status i = as_str Pending"
    "in_owner_xid i = se_owner_xid se"
    using assms(2) by (simp_all add: i_def)
  have d: "dedup_entry (fresh_row i) = None" using i by (simp add: dedup_entry_def)
  define db1 where "db1 = db\<lparr>workflow_status := workflow_status db @ [fresh_row i]\<rparr>"
  have u: "upsert_workflow i db = Inr (fresh_row i, db1)"
    using assms(1) i d by (simp add: upsert_workflow_def Let_def db1_def)
  have "\<not> dead_letter (ws_status (fresh_row i)) (ws_recovery_attempts (fresh_row i)) (re_max_retries entry)"
    using i by (simp add: dead_letter_def)
  with u i obtain res where ins: "insert_workflow_status i (re_max_retries entry) db = (Inr res, db1)"
    and res: "ir_status res = as_str Pending" "ir_owner_xid res = Some (se_owner_xid se)"
      "\<not> ir_dlq_triggered res"
    by (auto simp: insert_workflow_status_def finish_insert_def Let_def)
  have other: "workflow_exists db1 p" if "workflow_exists db p" for p
    using that upsert_other [OF u, of p] assms(1) i(1)
    by (cases "p = in_workflow_id i") (auto simp: workflow_exists_def)
  have ops: "find_operation db1 p f = find_operation db p f" for p f
    by (simp add: db1_def find_operation_def)
  obtain db2 where tx: "start_tx i (re_max_retries entry) (se_now_child se) parent db = (Inr (Some res), db2)"
    and ws: "workflow_status db2 = workflow_status db1"
  proof (cases parent)
    case None
    with ins res that [of db1] show thesis by (simp add: start_tx_def transaction_def andthen_def ret_def)
  next
    case (Some p)
    obtain pwc f where p: "p = (pwc, f)" by force
    with assms(4) Some other ops have "workflow_exists db1 (wc_workflow_id pwc)"
      "find_operation db1 (wc_workflow_id pwc) f = None" by simp_all
    with Some p ins res that show thesis
      by (simp add: start_tx_def transaction_def andthen_def ret_def record_child_workflow_def
          record_operation_new)
  qed
  with assms(3) i res have "\<exists>k. start_workflow sd inner se name inp opts parent fmt rcv db =
    (Inr (\<lparr>wh_id = w, wh_kind = Owned\<rparr>, Some k), db2) \<and> tk_handler k = re_handler entry \<and>
    wc_workflow_id (tk_context k) = w \<and> tk_input k = inp \<and> tk_format k = fmt"
    by (simp add: start_workflow_def Let_def i_def [symmetric] should_skip_def)
  moreover have "find_workflow db2 w = Some (fresh_row i)"
    using upsert_find(1) [OF u] i(1) find_workflow_same [OF ws] by simp
  ultimately show ?thesis unfolding i_def by blast
qed

subsection \<open>Properties\<close>

text \<open>
  C10. At most one execution per workflow id. Let any executors start the same workflow id any
  number of times, outside recovery, each call with its own owner id, with others changing the
  database in between in any way that neither deletes the row nor gives it one of these owner
  ids. If the workflow did not exist before, at most one of the calls runs the body, and exactly
  one if the first is a registered top-level start that still finds no row; if the row existed
  with another owner, none does.
\<close>

theorem at_most_one_runner:
  assumes "\<forall>c \<in> set cs. starts_on w (xid_of ` set cs) c" and "distinct (map xid_of cs)"
    and "find_workflow db w = None \<or> owned_outside w (xid_of ` set cs) db"
  shows "length (spawned_by sd cs db) \<le> (if find_workflow db w = None then 1 else 0) \<and>
    (\<forall>c rest. cs = c # rest \<and> find_workflow (sc_others c db) w = None \<and> sc_parent c = None \<and>
       di_registry (sc_inner c) (sc_name c) \<noteq> None \<and> find_workflow db w = None \<longrightarrow>
       length (spawned_by sd cs db) = 1)"
proof (intro conjI allI impI)
  show le: "length (spawned_by sd cs db) \<le> (if find_workflow db w = None then 1 else 0)"
    using spawned_by_fresh [OF assms(1) _ order_refl assms(2)]
      spawned_by_owned [OF assms(1) _ order_refl] assms(3) by auto
  fix c rest
  assume c: "cs = c # rest \<and> find_workflow (sc_others c db) w = None \<and> sc_parent c = None \<and>
       di_registry (sc_inner c) (sc_name c) \<noteq> None \<and> find_workflow db w = None"
  then obtain entry where e: "di_registry (sc_inner c) (sc_name c) = Some entry" by blast
  have id: "wo_workflow_id (sc_options c) = Some w" using assms(1) c by (auto simp: starts_on_def)
  obtain k db' where "start_call sd c db = (Inr (\<lparr>wh_id = w, wh_kind = Owned\<rparr>, Some k), db')"
    using start_fresh [OF _ choose_id_given [OF id] e, where db = "sc_others c db" and parent = None
        and se = "sc_env c" and sd = sd and inp = "sc_input c" and fmt = "sc_format c" and rcv = False] c
    unfolding start_call_def by auto
  with c have "length (spawned_by sd cs db) \<ge> 1" by (simp add: spawned_def)
  with le c show "length (spawned_by sd cs db) = 1" by simp
qed

definition sample_entry :: RegistryEntry where
  "sample_entry = \<lparr>re_handler = (\<lambda>wc input fmt envs st. Some (Inr ''true'', st)), re_max_retries = 2,
     re_name = ''checkout'', re_class_name = None, re_config_name = None\<rparr>"

definition sample_inner :: "string \<Rightarrow> DbosInner" where
  "sample_inner executor = \<lparr>di_executor_id = executor, di_application_version = ''v1'',
     di_application_id = None, di_registry = [''checkout'' \<mapsto> sample_entry]\<rparr>"

definition sample_start :: "string \<Rightarrow> start_env" where
  "sample_start x = \<lparr>se_uuid = ''u'', se_owner_xid = x, se_now = 5, se_now_child = 6\<rparr>"

definition sample_call :: "string \<Rightarrow> start_call" where
  "sample_call x = \<lparr>sc_others = id, sc_inner = sample_inner ''A'', sc_env = sample_start x,
     sc_name = ''checkout'', sc_input = None,
     sc_options = default_options\<lparr>wo_workflow_id := Some ''order''\<rparr>, sc_parent = None,
     sc_format = Portable\<rparr>"

lemma sample_find_order: "find_workflow sample_db ''order'' = None"
  by (simp add: sample_defs find_workflow_def)

theorem at_most_one_runner_witness:
  "length (spawned_by mini_serde [sample_call ''x'', sample_call ''y'', sample_call ''z''] sample_db) = 1"
proof -
  let ?cs = "[sample_call ''x'', sample_call ''y'', sample_call ''z'']"
  have s: "\<forall>c \<in> set ?cs. starts_on ''order'' (xid_of ` set ?cs) c"
    by (simp add: starts_on_def keeps_owner_def sample_call_def)
  have d: "distinct (map xid_of ?cs)" by (simp add: xid_of_def sample_call_def sample_start_def)
  show ?thesis
    using at_most_one_runner [OF s d disjI1 [OF sample_find_order], of mini_serde] sample_find_order
    by (auto simp: sample_call_def sample_inner_def)
qed

text \<open>
  C28. Every awaiter of a workflow learns the outcome its runner recorded. After the task of a
  portable workflow has run, a polling handle that sees the recorded row returns the decoded
  output of a success, the message of an error, or the cancellation if the workflow was cancelled
  before its outcome was recorded; the owned handle of the runner returns the forwarded result,
  which is the same value on success but keeps the error's code, and ignores a cancellation.
\<close>

theorem awaiter_learns_the_outcome:
  assumes "run_task (vc_error vc) now t envs waiters db = Some (result, db')"
    and "tk_format t = Portable" and "w = wc_workflow_id (tk_context t)"
    and "find_workflow db' w = Some r" and "ws_serialization r = Some (format_name Portable)"
    and "\<And>m. es_from_str (vc_error vc) (es_to_string (vc_error vc) (plain_payload m)) =
           Inr (plain_payload m) \<and> es_to_string (vc_error vc) (plain_payload m) \<noteq> []"
  shows "get_result vc NoChannel (db' # later) \<lparr>wh_id = w, wh_kind = Polling\<rparr> =
      Some (if ws_status r = as_str Cancelled then Inl (awaited_workflow_cancelled w)
            else (case result of
                    Inr out \<Rightarrow> stored_value vc (Some out) (Some (format_name Portable))
                  | Inl e \<Rightarrow> Inl (other (display e)))) \<and>
    get_result vc (Forwarded result) later \<lparr>wh_id = w, wh_kind = Owned\<rparr> =
      Some (case result of
              Inr out \<Rightarrow> stored_value vc (Some out) (Some (format_name Portable))
            | Inl e \<Rightarrow> Inl e)"
proof -
  obtain st0 db1 out err where d: "db' = update_workflow_outcome now w st0 out err db1"
    and st0: "case result of Inr v \<Rightarrow> st0 = Success \<and> out = Some v
      | Inl e \<Rightarrow> st0 = Error \<and> err = Some (serialize_workflow_error (vc_error vc) (display e) None Portable)"
    using assms(1-3)
    by (auto simp: run_task_def record_outcome_def split: option.splits sum.splits)
  obtain r0 where r0: "find_workflow db1 w = Some r0" and r: "ws_status r0 \<noteq> as_str Cancelled \<longrightarrow>
      ws_status r = as_str st0 \<and> ws_output r = out \<and> ws_error r = err"
      "ws_status r0 = as_str Cancelled \<longrightarrow> r = r0"
    using assms(4) st0 unfolding d by (auto simp: find_workflow_outcome dest: find_workflow_SomeD split: sum.splits)
  have es: "deserialize_workflow_error (vc_error vc)
      (Some (serialize_workflow_error (vc_error vc) m None Portable)) (Some PORTABLE_NAME) =
      Some (PortableError (plain_payload m))" for m
    using assms(6) by (simp add: deserialize_workflow_error_def serialize_workflow_error_def plain_payload_def)
  have poll: "poll_workflow_result db' w = Some (if ws_status r = as_str Cancelled then AwaitCancelled
      else (case result of Inr v \<Rightarrow> AwaitSuccess (Some v) (Some PORTABLE_NAME)
        | Inl e \<Rightarrow> AwaitError (Some (serialize_workflow_error (vc_error vc) (display e) None Portable))
            (Some PORTABLE_NAME)))"
    using assms(4,5) r st0 by (auto simp: poll_workflow_result_def split: sum.splits)
  have pl: "pe_message (plain_payload m) = m" for m by (simp add: plain_payload_def)
  show ?thesis
    using poll es by (auto simp: get_result_def outcome_result_def pl split: sum.splits)
qed

definition sample_task :: "DbosError + string \<Rightarrow> task" where
  "sample_task r = \<lparr>tk_handler = (\<lambda>wc input fmt envs st. Some (r, st)),
     tk_context = \<lparr>wc_workflow_id = ''wf'', wc_auth = anonymous, wc_within_step = False\<rparr>,
     tk_input = None, tk_format = Portable\<rparr>"

definition sample_portable_db :: sysdb where
  "sample_portable_db = sample_db\<lparr>workflow_status :=
     [fresh_row (sample_input\<lparr>in_serialization := Some (format_name Portable)\<rparr>)]\<rparr>"

definition mini_codec :: "string value_codec" where
  "mini_codec = \<lparr>vc_serde = mini_serde, vc_error = mini_error_serde,
     vc_to = (\<lambda>x. Inr (String x)), vc_from = (\<lambda>j. case j of String x \<Rightarrow> Inr x | _ \<Rightarrow> Inl ''type''),
     vc_i64_from = (\<lambda>j. Inl ''type'')\<rparr>"

theorem awaiter_learns_the_outcome_witness:
  "\<exists>db'. run_task mini_error_serde 9 (sample_task (Inl (other ''boom''))) [] [] sample_portable_db =
       Some (Inl (other ''boom''), db') \<and>
     get_result mini_codec NoChannel [db'] \<lparr>wh_id = ''wf'', wh_kind = Polling\<rparr> =
       Some (Inl (other (display (other ''boom''))))"
proof -
  let ?t = "sample_task (Inl (other ''boom''))"
  let ?db = "update_workflow_outcome 9 ''wf'' Error None
    (Some (serialize_workflow_error mini_error_serde (display (other ''boom'')) None Portable)) sample_portable_db"
  have t: "tk_format ?t = Portable" "''wf'' = wc_workflow_id (tk_context ?t)"
    by (simp_all add: sample_task_def)
  have vc: "vc_error mini_codec = mini_error_serde" by (simp add: mini_codec_def)
  have run: "run_task (vc_error mini_codec) 9 ?t [] [] sample_portable_db = Some (Inl (other ''boom''), ?db)"
    by (simp add: run_task_def record_outcome_def sample_task_def new_run_def vc)
  have f: "find_workflow sample_portable_db ''wf'' =
      Some (fresh_row (sample_input\<lparr>in_serialization := Some (format_name Portable)\<rparr>))"
    by (simp add: sample_portable_db_def find_workflow_def)
  let ?r = "(fresh_row (sample_input\<lparr>in_serialization := Some (format_name Portable)\<rparr>))
    \<lparr>ws_status := as_str Error, ws_output := None,
     ws_error := Some (serialize_workflow_error mini_error_serde (display (other ''boom'')) None Portable),
     ws_updated_at := 9, ws_completed_at := Some 9, ws_deduplication_id := None\<rparr>"
  have g: "find_workflow ?db ''wf'' = Some ?r" by (simp add: find_workflow_outcome f)
  have sr: "ws_serialization ?r = Some (format_name Portable)" by (simp add: fresh_row_def)
  show ?thesis
    using awaiter_learns_the_outcome [OF run t g sr, of "[]"] mini_error_ok run by (simp add: vc)
qed

text \<open>
  C29. A replaying parent gets the child it started. Once a child start at a step succeeded, a
  later run of the parent that reaches the call with the same step counter, on any database that
  kept the parent's record, gets a handle to the very same child: it starts nothing, changes
  nothing, and ignores the name, the input and the options it passes now. The first start used the
  requested id, or the parent's id and the step.
\<close>

theorem child_start_replays:
  assumes "run_child_workflow sd args_to inner se wc name to_value input opts st = (Inr (h, t), st')"
    and "check_child_workflow (wc_workflow_id wc) f (rs_db st) = None" and "f = fst (next_step_id st)"
    and "rs_step st2 = rs_step st"
    and "\<And>r. find_operation (rs_db st') (wc_workflow_id wc) f = Some r \<Longrightarrow>
           find_operation (rs_db st2) (wc_workflow_id wc) f = Some r"
  shows "wh_id h = (case wo_workflow_id opts of Some i \<Rightarrow> i
        | None \<Rightarrow> wc_workflow_id wc @ ''-'' @ show_int f) \<and>
    find_workflow (rs_db st') (wh_id h) \<noteq> None \<and>
    run_child_workflow sd2 args_to2 inner2 se2 wc name2 to_value2 input2 opts2 st2 =
      (Inr (\<lparr>wh_id = wh_id h, wh_kind = Polling\<rparr>, None), snd (next_step_id st2))"
proof -
  obtain st1 where n: "next_step_id st = (f, st1)" using assms(3) by (metis surjective_pairing)
  obtain st3 where n2: "next_step_id st2 = (f, st3)" "rs_db st3 = rs_db st2"
    using n assms(4) by (simp add: next_step_id_def)
  have db1: "rs_db st1 = rs_db st" using n by (auto simp: next_step_id_def)
  have ws: "\<not> wc_within_step wc" using assms(1) by (auto simp: run_child_workflow_def)
  obtain encoded db' where st: "start_workflow sd inner se name (Some encoded) opts (Some (wc, f)) Portable
      False (rs_db st) = (Inr (h, t), db')" and st': "rs_db st' = db'"
    using assms(1,2) n db1 ws
    by (auto simp: run_child_workflow_def on_db_def split: sum.splits prod.splits)
  obtain entry i row db2 where i: "i = start_input sd inner se entry name (Some encoded) opts (Some (wc, f)) Portable False"
    and u: "upsert_workflow i (rs_db st) = Inr (row, db2)" and h: "wh_id h = in_workflow_id i"
    and rc0: "case Some (wc, f) of None \<Rightarrow> db' = db2
         | Some (pwc, step_id) \<Rightarrow>
             record_child_workflow (se_now_child se) (wc_workflow_id pwc) step_id name
               (in_workflow_id i) db2 = (Inr (), db')"
    by (rule start_workflow_InrE [OF st]) blast
  then have rc: "record_child_workflow (se_now_child se) (wc_workflow_id wc) f name (in_workflow_id i) db2 =
      (Inr (), db')" by simp
  have rec: "find_operation db' (wc_workflow_id wc) f =
      Some (operation_values (se_now_child se) (wc_workflow_id wc) f name None None (Some (wh_id h)) None)"
    using rc h by (auto simp: record_child_workflow_def record_operation_Inr find_operation_append)
  have "find_workflow db' (wh_id h) \<noteq> None"
    using upsert_find(1) [OF u] find_workflow_same [OF record_child_frame [OF rc]] h by simp
  moreover have "check_child_workflow (wc_workflow_id wc) f (rs_db st2) = Some (wh_id h)"
    using assms(5) rec st' by (simp add: check_child_workflow_def)
  moreover have "wh_id h = (case wo_workflow_id opts of Some i \<Rightarrow> i
        | None \<Rightarrow> wc_workflow_id wc @ ''-'' @ show_int f)"
    using h i by (simp add: choose_id_def split: option.splits)
  ultimately show ?thesis using n2 ws st' by (simp add: run_child_workflow_def)
qed

definition sample_parent :: WorkflowContext where
  "sample_parent = \<lparr>wc_workflow_id = ''wf'', wc_auth = anonymous, wc_within_step = False\<rparr>"

theorem child_start_replays_witness:
  "\<exists>t st'. run_child_workflow mini_serde (\<lambda>a. ''[]'') (sample_inner ''A'') (sample_start ''x'')
       sample_parent ''checkout'' (\<lambda>u. Inr Null) () default_options (new_run sample_db []) =
     (Inr (\<lparr>wh_id = ''wf-0'', wh_kind = Owned\<rparr>, t), st') \<and>
   run_child_workflow mini_serde (\<lambda>a. ''[]'') (sample_inner ''B'') (sample_start ''y'')
       sample_parent ''refund'' (\<lambda>u. Inr Null) () default_options (new_run (rs_db st') []) =
     (Inr (\<lparr>wh_id = ''wf-0'', wh_kind = Polling\<rparr>, None), snd (next_step_id (new_run (rs_db st') [])))"
proof -
  have id: "next_step_id (new_run sample_db []) =
      (0, (new_run sample_db [])\<lparr>rs_step := rs_step (new_run sample_db []) + 1\<rparr>)"
    by (simp add: next_step_id_def new_run_def)
  have none: "find_operation sample_db ''wf'' 0 = None" "find_workflow sample_db ''wf-0'' = None"
    by (simp_all add: sample_defs find_operation_def find_workflow_def)
  have par: "case Some (sample_parent, 0) of None \<Rightarrow> True | Some (pwc, f) \<Rightarrow>
      workflow_exists sample_db (wc_workflow_id pwc) \<and> find_operation sample_db (wc_workflow_id pwc) f = None"
    using none(1) sample_find by (simp add: sample_parent_def workflow_exists_def)
  have ch: "choose_id default_options (Some (sample_parent, 0)) (se_uuid (sample_start ''x'')) = ''wf-0''"
    by code_simp
  have wc: "\<not> wc_within_step sample_parent" "wc_workflow_id sample_parent = ''wf''"
    by (simp_all add: sample_parent_def)
  have rdb: "rs_db ((new_run sample_db [])\<lparr>rs_step := n\<rparr>) = sample_db" for n
    by (simp add: new_run_def)
  have reg: "di_registry (sample_inner ''A'') ''checkout'' = Some sample_entry"
    by (simp add: sample_inner_def)
  obtain t st' where run: "run_child_workflow mini_serde (\<lambda>a. ''[]'') (sample_inner ''A'') (sample_start ''x'')
       sample_parent ''checkout'' (\<lambda>u. Inr Null) () default_options (new_run sample_db []) =
     (Inr (\<lparr>wh_id = ''wf-0'', wh_kind = Owned\<rparr>, t), st')"
    using start_fresh [OF none(2) ch reg par, of mini_serde "Some ''[]''" Portable False] none(1)
    by (auto simp: run_child_workflow_def id wc rdb check_child_workflow_def encode_input_def on_db_def)
  have none': "check_child_workflow (wc_workflow_id sample_parent) 0 (rs_db (new_run sample_db [])) = None"
    using none(1) by (simp add: check_child_workflow_def sample_parent_def new_run_def)
  have "run_child_workflow mini_serde (\<lambda>a. ''[]'') (sample_inner ''B'') (sample_start ''y'')
       sample_parent ''refund'' (\<lambda>u. Inr Null) () default_options (new_run (rs_db st') []) =
     (Inr (\<lparr>wh_id = ''wf-0'', wh_kind = Polling\<rparr>, None), snd (next_step_id (new_run (rs_db st') [])))"
    using child_start_replays [OF run none', where ?st2.0 = "new_run (rs_db st') []"
        and ?to_value2.0 = "\<lambda>u. Inr Null" and ?input2.0 = "()"] id
    by (simp add: new_run_def)
  with run show ?thesis by blast
qed

text \<open>
  C30. Queue deduplication. Enqueueing a new registered workflow under a deduplication id is
  refused with QueueDeduplicated, without effect, exactly when an unfinished workflow of that
  queue holds the id (finished ones have released it). Otherwise the workflow is stored as
  ENQUEUED, or DELAYED until its due time, with the queue, priority and partition asked for, and
  every other workflow is left alone.
\<close>

theorem enqueue_deduplicates:
  assumes "terminal_clean db" and "di_registry inner name = Some entry"
    and "eo_deduplication_id opts = Some d" and "w = unwrap_or (eo_workflow_id opts) (se_uuid se)"
    and "find_workflow db w = None"
  shows "if \<exists>r \<in> set (workflow_status db). ws_queue_name r = Some q \<and>
            ws_deduplication_id r = Some d \<and> \<not> terminal_status (ws_status r)
    then enqueue_workflow inner se q name inp opts db = (Inl (queue_deduplicated w q d), db)
    else \<exists>db' r. enqueue_workflow inner se q name inp opts db =
           (Inr \<lparr>wh_id = w, wh_kind = Polling\<rparr>, db') \<and> find_workflow db' w = Some r \<and>
         ws_status r = (if eo_delay opts = None then ''ENQUEUED'' else ''DELAYED'') \<and>
         ws_queue_name r = Some q \<and> ws_deduplication_id r = Some d \<and>
         ws_priority r = unwrap_or (eo_priority opts) 0 \<and>
         ws_queue_partition_key r = eo_queue_partition_key opts \<and>
         ws_delay_until_epoch_ms r = map_option (\<lambda>ms. se_now se + cast_i64 (int ms)) (eo_delay opts) \<and>
         (\<forall>v. v = w \<or> find_workflow db' v = find_workflow db v)"
proof -
  define i where "i = enqueue_input inner se entry q name inp opts"
  have i: "in_workflow_id i = w" "in_queue_name i = Some q" "in_deduplication_id i = Some d"
    "in_name i = name" "in_status i = (if eo_delay opts = None then ''ENQUEUED'' else ''DELAYED'')"
    "in_recovery_attempts i = 0"
    using assms(3,4) by (simp_all add: i_def as_str.simps split: option.splits)
  have e: "dedup_entry (fresh_row i) = Some (q, d)" using i by (simp add: dedup_entry_def)
  have blocked: "(q, d) \<in> set (dedup_index (workflow_status db)) \<longleftrightarrow>
      (\<exists>r \<in> set (workflow_status db). ws_queue_name r = Some q \<and>
          ws_deduplication_id r = Some d \<and> \<not> terminal_status (ws_status r))"
    using assms(1)
    by (fastforce simp: set_dedup_index dedup_entry_def terminal_clean_def split: option.splits)
  show ?thesis
  proof (cases "(q, d) \<in> set (dedup_index (workflow_status db))")
    case True
    then have "upsert_workflow i db = Inl (unique_violation ''uq_workflow_status_dedup_id'')"
      using assms(5) i e by (simp add: upsert_workflow_def Let_def)
    then have "enqueue_workflow inner se q name inp opts db = (Inl (queue_deduplicated w q d), db)"
      using assms(2,3) i(1)
      by (simp add: enqueue_workflow_def Let_def i_def [symmetric] transaction_def insert_workflow_status_def)
    with True blocked show ?thesis by simp
  next
    case False
    define db1 where "db1 = db\<lparr>workflow_status := workflow_status db @ [fresh_row i]\<rparr>"
    have u: "upsert_workflow i db = Inr (fresh_row i, db1)"
      using assms(5) i e False by (simp add: upsert_workflow_def Let_def db1_def)
    have nd: "\<not> dead_letter (ws_status (fresh_row i)) (ws_recovery_attempts (fresh_row i)) (re_max_retries entry)"
      using i(6) by (simp add: dead_letter_def)
    have "enqueue_workflow inner se q name inp opts db = (Inr \<lparr>wh_id = w, wh_kind = Polling\<rparr>, db1)"
      using assms(2) i u nd
      by (simp add: enqueue_workflow_def Let_def i_def [symmetric] transaction_def
          insert_workflow_status_def finish_insert_def)
    moreover have "find_workflow db1 w = Some (fresh_row i)" using upsert_find(1) [OF u] i(1) by simp
    moreover have "\<forall>v. v = w \<or> find_workflow db1 v = find_workflow db v"
      using upsert_other [OF u] i(1) by blast
    moreover have "ws_priority (fresh_row i) = unwrap_or (eo_priority opts) 0"
      "ws_queue_partition_key (fresh_row i) = eo_queue_partition_key opts"
      "ws_delay_until_epoch_ms (fresh_row i) = map_option (\<lambda>ms. se_now se + cast_i64 (int ms)) (eo_delay opts)"
      by (simp_all add: i_def fresh_row_def enqueue_input_def)
    ultimately show ?thesis using False blocked i by simp
  qed
qed

definition sample_enqueue :: EnqueueOptions where
  "sample_enqueue = \<lparr>eo_workflow_id = Some ''second'', eo_deduplication_id = Some ''daily'',
     eo_priority = None, eo_queue_partition_key = None, eo_delay = None,
     eo_application_version = None\<rparr>"

definition sample_dedup_db :: sysdb where
  "sample_dedup_db = sample_db\<lparr>workflow_status := [fresh_row (sample_input\<lparr>in_status := as_str Enqueued,
     in_queue_name := Some ''jobs'', in_deduplication_id := Some ''daily''\<rparr>)]\<rparr>"

theorem enqueue_deduplicates_witness:
  "enqueue_workflow (sample_inner ''A'') (sample_start ''x'') ''jobs'' ''checkout'' None sample_enqueue
     sample_dedup_db = (Inl (queue_deduplicated ''second'' ''jobs'' ''daily''), sample_dedup_db)"
proof -
  have t: "terminal_clean sample_dedup_db"
    by (simp add: terminal_clean_def sample_dedup_db_def)
  have reg: "di_registry (sample_inner ''A'') ''checkout'' = Some sample_entry"
    by (simp add: sample_inner_def)
  have o: "eo_deduplication_id sample_enqueue = Some ''daily''"
    "''second'' = unwrap_or (eo_workflow_id sample_enqueue) (se_uuid (sample_start ''x''))"
    by (simp_all add: sample_enqueue_def)
  have f: "find_workflow sample_dedup_db ''second'' = None"
    by (simp add: sample_dedup_db_def find_workflow_def)
  show ?thesis
    using enqueue_deduplicates [OF t reg o f, of "''jobs''" None]
    by (simp add: sample_dedup_db_def)
qed

text \<open>
  A second start takes the recovery duty without doing the work. When executor B starts the
  id of a PENDING workflow that executor A is running, the start leaves the body alone but stores
  B as the row's executor: A's recovery no longer lists the workflow, and B's recovery does, while
  A may still be running it.
\<close>

theorem second_start_moves_recovery:
  assumes "db_wf db" and "find_workflow db w = Some r" and "ws_status r = as_str Pending"
    and "ws_owner_xid r \<noteq> Some (se_owner_xid se)" and "wo_workflow_id opts = Some w"
    and "start_workflow sd inner se name inp opts parent fmt False db = (Inr (h, t), db')"
    and "di_executor_id inner \<noteq> A"
  shows "t = None \<and> wh_kind h = Polling \<and>
    w \<notin> rw_id ` set (list_pending_for_recovery [A] v db') \<and>
    (ws_application_version r = Some v \<longrightarrow>
       w \<in> rw_id ` set (list_pending_for_recovery [di_executor_id inner] v db'))"
proof -
  have h: "wh_id h = w"
    by (rule start_workflow_InrE [OF assms(6)]) (simp add: assms(5))
  obtain r' where r': "find_workflow db' w = Some r'" "ws_status r' = ws_status r"
    "ws_executor_id r' = Some (di_executor_id inner)"
    "ws_application_version r' = ws_application_version r"
    and t: "t = None \<longleftrightarrow> ws_status r = as_str Success \<or> ws_status r = as_str Error \<or>
           \<not> False \<and> ws_owner_xid r \<noteq> Some (se_owner_xid se)"
    by (rule start_existing [OF assms(6), unfolded h, OF assms(2)]) blast
  have wf: "db_wf db'" using start_workflow_db_wf [OF assms(1), of sd inner] assms(6) by (metis snd_conv)
  have only: "x = r'" if "x \<in> set (workflow_status db')" "ws_workflow_uuid x = w" for x
    using find_workflow_member [OF wf that(1)] that(2) r'(1) by simp
  have "t = None" using t assms(4) by simp
  moreover have "wh_kind h = (if t = None then Polling else Owned)"
    by (rule start_workflow_InrE [OF assms(6)])
  moreover have "w \<notin> rw_id ` set (list_pending_for_recovery [A] v db')"
    using only r'(3) assms(7) by (auto simp: list_pending_for_recovery_def sql_select_def recoverable_def)
  moreover have "w \<in> rw_id ` set (list_pending_for_recovery [di_executor_id inner] v db')"
    if "ws_application_version r = Some v"
    using find_workflow_SomeD [OF r'(1)] r' assms(3) that
    by (force simp: list_pending_for_recovery_def sql_select_def recoverable_def)
  ultimately show ?thesis by simp
qed

theorem second_start_moves_recovery_witness:
  "\<exists>h db'. start_workflow mini_serde (sample_inner ''B'') (sample_start ''x2'') ''checkout'' None
       (default_options\<lparr>wo_workflow_id := Some ''wf''\<rparr>) None Portable False sample_db = (Inr (h, None), db') \<and>
     ''wf'' \<notin> rw_id ` set (list_pending_for_recovery [''local''] ''v1'' db')"
proof -
  let ?o = "default_options\<lparr>wo_workflow_id := Some ''wf''\<rparr>"
  let ?i = "start_input mini_serde (sample_inner ''B'') (sample_start ''x2'') sample_entry ''checkout'' None
     ?o None Portable False"
  have o: "wo_workflow_id ?o = Some ''wf''" by simp
  have wf: "db_wf sample_db"
    by (simp add: db_wf_def workflows_ok_def keys_ok_def refs_ok_def uuids_def sample_defs
        dedup_entry_def fresh_row_def)
  have s: "ws_status (fresh_row sample_input) = as_str Pending"
    "ws_owner_xid (fresh_row sample_input) \<noteq> Some (se_owner_xid (sample_start ''x2''))"
    "di_executor_id (sample_inner ''B'') \<noteq> ''local''"
    by (simp_all add: sample_start_def sample_inner_def)
  have reg: "di_registry (sample_inner ''B'') ''checkout'' = Some sample_entry"
    by (simp add: sample_inner_def)
  obtain h t db' where run: "start_workflow mini_serde (sample_inner ''B'') (sample_start ''x2'') ''checkout''
       None ?o None Portable False sample_db = (Inr (h, t), db')"
    using sample_find
    by (auto simp: start_workflow_def reg Let_def start_tx_def transaction_def andthen_def ret_def
        insert_workflow_status_def upsert_existing finish_insert_def dead_letter_def should_skip_def
        sample_entry_def on_conflict_row_def sample_start_def)
  show ?thesis using second_start_moves_recovery [OF wf sample_find s(1,2) o run s(3)] run by blast
qed

end
