(* ===== verification/Dbos_QueueDb.thy ===== *)
theory Dbos_QueueDb
  imports Dbos_Streams
begin

text \<open>
  Durable queues of \<open>crates/dbos/src/db/queue.rs\<close>: promotion of delayed workflows, clearing of a
  claim on recovery, partition discovery and the dequeue transaction. Unsigned counts are natural
  numbers. The rows other transactions hold locked are an argument: FOR UPDATE SKIP LOCKED leaves
  them out, FOR UPDATE NOWAIT fails with SQLSTATE 55P03 when one of the rows it would return is
  locked. The clock is read twice by the code and is two arguments.
\<close>

subsection \<open>The statements around dequeueing\<close>

definition transition_delayed_workflows :: "int \<Rightarrow> sysdb \<Rightarrow> sysdb" where
  "transition_delayed_workflows now db =
     db\<lparr>workflow_status :=
          sql_update (\<lambda>r. ws_status r = as_str Delayed \<and> sql_le (ws_delay_until_epoch_ms r) now)
            (\<lambda>r. r\<lparr>ws_status := as_str Enqueued\<rparr>) (workflow_status db)\<rparr>"

definition queue_assigned :: "string \<Rightarrow> workflow_row \<Rightarrow> bool" where
  "queue_assigned w r \<longleftrightarrow>
     ws_workflow_uuid r = w \<and> ws_queue_name r \<noteq> None \<and> ws_status r = as_str Pending"

definition clear_queue_assignment :: "string \<Rightarrow> sysdb \<Rightarrow> bool \<times> sysdb" where
  "clear_queue_assignment w db =
     (sql_count (queue_assigned w) (workflow_status db) > 0,
      db\<lparr>workflow_status :=
           sql_update (queue_assigned w)
             (\<lambda>r. r\<lparr>ws_status := as_str Enqueued, ws_started_at_epoch_ms := None\<rparr>)
             (workflow_status db)\<rparr>)"

definition get_queue_partitions :: "string \<Rightarrow> sysdb \<Rightarrow> string list" where
  "get_queue_partitions q db =
     remdups (List.map_filter ws_queue_partition_key
       (sql_select (\<lambda>r. sql_eq (ws_queue_name r) q \<and> ws_status r = as_str Enqueued \<and>
                        ws_queue_partition_key r \<noteq> None)
         (workflow_status db)))"

subsection \<open>The dequeue transaction\<close>

record DequeueInput =
  dq_queue_name :: string
  dq_executor_id :: string
  dq_application_version :: string
  dq_partition_key :: "string option"
  dq_local_running_count :: nat
  dq_worker_concurrency :: "nat option"
  dq_global_concurrency :: "nat option"
  dq_max_tasks_per_iteration :: nat
  dq_rate_limit :: "(nat \<times> nat) option"

record DequeuedWorkflow =
  dw_id :: string
  dw_name :: string
  dw_inputs :: "string option"
  dw_serialization :: "string option"
  dw_config_name :: "string option"

text \<open>\<open>partition_clause\<close>: no condition when the queue is not partitioned.\<close>

definition partition_clause :: "string option \<Rightarrow> workflow_row \<Rightarrow> bool" where
  "partition_clause pk r = (case pk of None \<Rightarrow> True | Some k \<Rightarrow> sql_eq (ws_queue_partition_key r) k)"

definition recently_started :: "DequeueInput \<Rightarrow> int \<Rightarrow> workflow_row \<Rightarrow> bool" where
  "recently_started i cutoff r \<longleftrightarrow>
     sql_eq (ws_queue_name r) (dq_queue_name i) \<and> ws_rate_limited r \<and>
     ws_status r \<notin> {as_str Enqueued, as_str Delayed} \<and>
     sql_gt (ws_started_at_epoch_ms r) cutoff \<and> partition_clause (dq_partition_key i) r"

definition running_globally :: "DequeueInput \<Rightarrow> workflow_row \<Rightarrow> bool" where
  "running_globally i r \<longleftrightarrow>
     sql_eq (ws_queue_name r) (dq_queue_name i) \<and> ws_status r = as_str Pending \<and>
     partition_clause (dq_partition_key i) r"

definition claimable :: "DequeueInput \<Rightarrow> workflow_row \<Rightarrow> bool" where
  "claimable i r \<longleftrightarrow>
     sql_eq (ws_queue_name r) (dq_queue_name i) \<and> ws_status r = as_str Enqueued \<and>
     (sql_eq (ws_application_version r) (dq_application_version i) \<or>
      ws_application_version r = None) \<and>
     partition_clause (dq_partition_key i) r"

definition num_recent :: "DequeueInput \<Rightarrow> int \<Rightarrow> sysdb \<Rightarrow> int" where
  "num_recent i now db =
     (case dq_rate_limit i of
        None \<Rightarrow> 0
      | Some (limit, period) \<Rightarrow>
          sql_count (recently_started i (now - int period)) (workflow_status db))"

definition rate_exhausted :: "DequeueInput \<Rightarrow> int \<Rightarrow> bool" where
  "rate_exhausted i recent =
     (case dq_rate_limit i of None \<Rightarrow> False | Some (limit, _) \<Rightarrow> recent \<ge> int limit)"

definition max_tasks :: "DequeueInput \<Rightarrow> sysdb \<Rightarrow> int" where
  "max_tasks i db =
     (let local_max =
        (case dq_worker_concurrency i of
           None \<Rightarrow> int (dq_max_tasks_per_iteration i)
         | Some wc \<Rightarrow> max (int wc - int (dq_local_running_count i)) 0)
      in case dq_global_concurrency i of
           None \<Rightarrow> local_max
         | Some gc \<Rightarrow>
             min local_max
               (max (int gc - sql_count (running_globally i) (workflow_status db)) 0))"

definition candidates :: "DequeueInput \<Rightarrow> sysdb \<Rightarrow> workflow_row list" where
  "candidates i db =
     sort_key (\<lambda>r. (ws_priority r, ws_created_at r))
       (sql_select (claimable i) (workflow_status db))"

definition lock_not_available :: sqlx_error where
  "lock_not_available = Database (Some ''55P03'') ''could not obtain lock on row''"

definition select_candidates ::
  "DequeueInput \<Rightarrow> (string \<Rightarrow> bool) \<Rightarrow> int \<Rightarrow> sysdb \<Rightarrow> DbosError + string list" where
  "select_candidates i locked n db =
     (if dq_global_concurrency i = None
      then Inr (map ws_workflow_uuid
             (sql_limit n (filter (\<lambda>r. \<not> locked (ws_workflow_uuid r)) (candidates i db))))
      else (let ids = map ws_workflow_uuid (sql_limit n (candidates i db))
            in if list_ex locked ids then Inl (from_sqlx lock_not_available) else Inr ids))"

definition claim_row :: "DequeueInput \<Rightarrow> int \<Rightarrow> workflow_row \<Rightarrow> workflow_row" where
  "claim_row i now r =
     r\<lparr>ws_status := as_str Pending,
       ws_application_version := Some (dq_application_version i),
       ws_executor_id := Some (dq_executor_id i),
       ws_started_at_epoch_ms := Some now,
       ws_rate_limited := (dq_rate_limit i \<noteq> None),
       ws_workflow_deadline_epoch_ms :=
         (case (ws_workflow_timeout_ms r, ws_workflow_deadline_epoch_ms r) of
            (Some ms, None) \<Rightarrow> Some (now + ms)
          | (_, deadline) \<Rightarrow> deadline)\<rparr>"

definition claim_update :: "DequeueInput \<Rightarrow> int \<Rightarrow> string \<Rightarrow> sysdb \<Rightarrow> sysdb" where
  "claim_update i now w db =
     db\<lparr>workflow_status :=
          sql_update (\<lambda>r. ws_workflow_uuid r = w \<and> ws_status r = as_str Enqueued)
            (claim_row i now) (workflow_status db)\<rparr>"

definition dequeued :: "workflow_row \<Rightarrow> DequeuedWorkflow" where
  "dequeued r = \<lparr>dw_id = ws_workflow_uuid r, dw_name = ws_name r, dw_inputs = ws_inputs r,
     dw_serialization = ws_serialization r, dw_config_name = ws_config_name r\<rparr>"

fun claim_loop ::
  "DequeueInput \<Rightarrow> int \<Rightarrow> int \<Rightarrow> DequeuedWorkflow list \<Rightarrow> string list \<Rightarrow> sysdb \<Rightarrow>
   DequeuedWorkflow list \<times> sysdb" where
  "claim_loop i now recent claimed [] db = (claimed, db)"
| "claim_loop i now recent claimed (w # ws) db =
     (if rate_exhausted i (int (length claimed) + recent) then (claimed, db)
      else (case find_workflow db w of
              None \<Rightarrow> claim_loop i now recent claimed ws db
            | Some r \<Rightarrow>
                if ws_status r = as_str Enqueued
                then claim_loop i now recent (claimed @ [dequeued r]) ws (claim_update i now w db)
                else claim_loop i now recent claimed ws db))"

definition dequeue_workflows ::
  "DequeueInput \<Rightarrow> int \<Rightarrow> int \<Rightarrow> (string \<Rightarrow> bool) \<Rightarrow> DequeuedWorkflow list db_op" where
  "dequeue_workflows i now1 now2 locked db =
     (let recent = num_recent i now1 db
      in if rate_exhausted i recent then (Inr [], db)
         else let n = max_tasks i db
              in if n \<le> 0 then (Inr [], db)
                 else (case select_candidates i locked n db of
                         Inl e \<Rightarrow> (Inl e, db)
                       | Inr ids \<Rightarrow>
                           (case claim_loop i now2 recent [] ids db of
                              (claimed, db') \<Rightarrow>
                                if claimed \<noteq> [] then (Inr claimed, db') else (Inr [], db))))"

subsection \<open>Facts: the candidates\<close>

lemma claim_row_frame [simp]:
  "ws_workflow_uuid (claim_row i now r) = ws_workflow_uuid r"
  "ws_status (claim_row i now r) = as_str Pending"
  "ws_queue_name (claim_row i now r) = ws_queue_name r"
  "ws_queue_partition_key (claim_row i now r) = ws_queue_partition_key r"
  "ws_deduplication_id (claim_row i now r) = ws_deduplication_id r"
  "ws_name (claim_row i now r) = ws_name r"
  "ws_priority (claim_row i now r) = ws_priority r"
  "ws_recovery_attempts (claim_row i now r) = ws_recovery_attempts r"
  by (simp_all add: claim_row_def)

lemma partition_clause_claim_row [simp]:
  "partition_clause pk (claim_row i now r) = partition_clause pk r"
  by (simp add: partition_clause_def split: option.splits)

lemma dedup_entry_claim_row [simp]: "dedup_entry (claim_row i now r) = dedup_entry r"
  by (simp add: dedup_entry_def)

lemma set_candidates: "set (candidates i db) = {r \<in> set (workflow_status db). claimable i r}"
  by (simp add: candidates_def sql_select_def)

lemma distinct_candidates:
  "db_wf db \<Longrightarrow> distinct (map ws_workflow_uuid (candidates i db))"
  using db_wf_distinct_ids [of db]
  by (auto simp: candidates_def sql_select_def distinct_map intro: inj_on_subset)

text \<open>The ids a dequeue selects: candidates that are not locked by others, in order.\<close>

lemma select_candidates_Inr:
  assumes "select_candidates i locked n db = Inr ids"
  shows "ids = map ws_workflow_uuid
    (sql_limit n (filter (\<lambda>r. \<not> locked (ws_workflow_uuid r)) (candidates i db)))"
proof (cases "dq_global_concurrency i")
  case None
  with assms show ?thesis by (simp add: select_candidates_def)
next
  case (Some g)
  let ?t = "take (nat n) (candidates i db)"
  from Some assms have ids: "ids = map ws_workflow_uuid ?t" and nl: "\<forall>r \<in> set ?t. \<not> locked (ws_workflow_uuid r)"
    by (auto simp: select_candidates_def Let_def sql_limit_def list_ex_iff split: if_splits)
  have "take (nat n) (filter (\<lambda>r. \<not> locked (ws_workflow_uuid r)) (?t @ drop (nat n) (candidates i db))) = ?t"
  proof (cases "length (candidates i db) \<le> nat n")
    case True
    with nl show ?thesis by (simp add: filter_id_conv)
  next
    case False
    with nl show ?thesis by (simp add: filter_id_conv del: append_take_drop_id)
  qed
  with ids show ?thesis by (simp add: sql_limit_def)
qed

subsection \<open>Facts: the claim loop\<close>

text \<open>How many of the selected ids the rate limit lets through.\<close>

definition rate_budget :: "DequeueInput \<Rightarrow> int \<Rightarrow> nat \<Rightarrow> nat" where
  "rate_budget i recent n =
     (case dq_rate_limit i of None \<Rightarrow> n | Some (limit, _) \<Rightarrow> min n (nat (int limit - recent)))"

lemma take_rate_budget:
  "take (rate_budget i x (length (take n xs))) (take n xs) = take (rate_budget i x n) xs"
proof (cases "length xs \<le> n")
  case True
  then show ?thesis by (auto simp: rate_budget_def min_def split: option.splits)
next
  case False
  then have "length (take n xs) = n" by simp
  moreover have "rate_budget i x n \<le> n" by (simp add: rate_budget_def split: option.splits prod.splits)
  ultimately show ?thesis by (simp only: take_take min_absorb1)
qed

definition claim_rows :: "DequeueInput \<Rightarrow> int \<Rightarrow> string list \<Rightarrow> sysdb \<Rightarrow> sysdb" where
  "claim_rows i now ids db =
     db\<lparr>workflow_status :=
          sql_update (\<lambda>r. ws_workflow_uuid r \<in> set ids \<and> ws_status r = as_str Enqueued)
            (claim_row i now) (workflow_status db)\<rparr>"

lemma claim_rows_Nil [simp]: "claim_rows i now [] db = db"
  by (simp add: claim_rows_def sql_update_no_match)

lemma claim_rows_Cons:
  "claim_rows i now ids (claim_update i now w db) = claim_rows i now (w # ids) db"
proof -
  have "sql_update (\<lambda>r. ws_workflow_uuid r \<in> set ids \<and> ws_status r = as_str Enqueued) (claim_row i now)
      (sql_update (\<lambda>r. ws_workflow_uuid r = w \<and> ws_status r = as_str Enqueued) (claim_row i now) t) =
    sql_update (\<lambda>r. ws_workflow_uuid r \<in> set (w # ids) \<and> ws_status r = as_str Enqueued)
      (claim_row i now) t" for t
    by (induction t) auto
  then show ?thesis by (simp add: claim_rows_def claim_update_def)
qed

lemma find_workflow_claim_update:
  "find_workflow (claim_update i now w db) v =
     map_option (\<lambda>r. if ws_workflow_uuid r = w \<and> ws_status r = as_str Enqueued
       then claim_row i now r else r) (find_workflow db v)"
  unfolding claim_update_def by (rule find_workflow_update) simp

lemma find_workflow_claim_rows:
  "find_workflow (claim_rows i now ids db) v =
     map_option (\<lambda>r. if ws_workflow_uuid r \<in> set ids \<and> ws_status r = as_str Enqueued
       then claim_row i now r else r) (find_workflow db v)"
  unfolding claim_rows_def by (rule find_workflow_update) simp

lemma claim_update_other:
  assumes "v \<noteq> w" shows "find_workflow (claim_update i now w db) v = find_workflow db v"
  using assms
  by (cases "find_workflow db v") (auto simp: find_workflow_claim_update dest: find_workflow_SomeD)

lemma claim_loop_spec:
  assumes "distinct ids"
    and "\<And>w. w \<in> set ids \<Longrightarrow> \<exists>r. find_workflow db w = Some r \<and> ws_status r = as_str Enqueued"
  shows "claim_loop i now recent acc ids db =
    (acc @ map (\<lambda>w. dequeued (the (find_workflow db w)))
       (take (rate_budget i (int (length acc) + recent) (length ids)) ids),
     claim_rows i now (take (rate_budget i (int (length acc) + recent) (length ids)) ids) db)"
  using assms
proof (induction ids arbitrary: acc db)
  case Nil
  then show ?case by simp
next
  case (Cons w ids)
  from Cons.prems(2) obtain r where r: "find_workflow db w = Some r" "ws_status r = as_str Enqueued"
    by auto
  show ?case
  proof (cases "rate_exhausted i (int (length acc) + recent)")
    case True
    then have "rate_budget i (int (length acc) + recent) (length (w # ids)) = 0"
      by (auto simp: rate_exhausted_def rate_budget_def split: option.splits prod.splits)
    with True show ?thesis by simp
  next
    case False
    let ?db = "claim_update i now w db"
    let ?b = "rate_budget i (int (length (acc @ [dequeued r])) + recent) (length ids)"
    have b: "rate_budget i (int (length acc) + recent) (length (w # ids)) = Suc ?b"
      using False by (auto simp: rate_exhausted_def rate_budget_def split: option.splits)
    have other: "find_workflow ?db v = find_workflow db v" if "v \<in> set ids" for v
      using that Cons.prems(1) by (auto intro: claim_update_other)
    have "claim_loop i now recent (acc @ [dequeued r]) ids ?db =
        ((acc @ [dequeued r]) @ map (\<lambda>w. dequeued (the (find_workflow ?db w))) (take ?b ids),
         claim_rows i now (take ?b ids) ?db)"
      using Cons.prems other by (intro Cons.IH) auto
    moreover have "map (\<lambda>w. dequeued (the (find_workflow ?db w))) (take ?b ids) =
        map (\<lambda>w. dequeued (the (find_workflow db w))) (take ?b ids)"
      using other by (auto dest: in_set_takeD)
    ultimately show ?thesis
      using False r b by (simp add: claim_rows_Cons)
  qed
qed

text \<open>
  What a successful dequeue claims: the first eligible rows in order, as many as the limits allow.
\<close>

definition claims :: "DequeueInput \<Rightarrow> int \<Rightarrow> (string \<Rightarrow> bool) \<Rightarrow> sysdb \<Rightarrow> workflow_row list" where
  "claims i now locked db =
     take (rate_budget i (num_recent i now db) (nat (max_tasks i db)))
       (filter (\<lambda>r. \<not> locked (ws_workflow_uuid r)) (candidates i db))"

lemma claims_subset: "set (claims i now locked db) \<subseteq> {r \<in> set (workflow_status db). claimable i r}"
proof -
  have "set (claims i now locked db) \<subseteq> set (filter (\<lambda>r. \<not> locked (ws_workflow_uuid r)) (candidates i db))"
    unfolding claims_def by (rule set_take_subset)
  then show ?thesis by (auto simp: set_candidates)
qed

lemma claims_distinct: "db_wf db \<Longrightarrow> distinct (map ws_workflow_uuid (claims i now locked db))"
  using distinct_candidates [of db i]
  by (simp add: claims_def distinct_map_filter flip: take_map)

lemma claims_none:
  "rate_exhausted i (num_recent i now db) \<or> max_tasks i db \<le> 0 \<Longrightarrow> claims i now locked db = []"
  by (auto simp: claims_def rate_exhausted_def rate_budget_def split: option.splits)

lemma dequeue_spec:
  assumes wf: "db_wf db" and dq: "dequeue_workflows i now1 now2 locked db = (Inr claimed, db')"
  shows "claimed = map dequeued (claims i now1 locked db) \<and>
    db' = claim_rows i now2 (map ws_workflow_uuid (claims i now1 locked db)) db"
proof (cases "rate_exhausted i (num_recent i now1 db) \<or> max_tasks i db \<le> 0")
  case True
  with dq show ?thesis by (auto simp: dequeue_workflows_def claims_none Let_def split: if_splits)
next
  case False
  let ?free = "filter (\<lambda>r. \<not> locked (ws_workflow_uuid r)) (candidates i db)"
  let ?recent = "num_recent i now1 db"
  let ?n = "max_tasks i db"
  let ?rs = "claims i now1 locked db"
  from False dq obtain ids where ids: "select_candidates i locked ?n db = Inr ids"
    by (auto simp: dequeue_workflows_def Let_def split: sum.splits)
  obtain cl0 db0 where lp: "claim_loop i now2 ?recent [] ids db = (cl0, db0)" by force
  have out: "claimed = cl0" "db' = (if cl0 = [] then db else db0)"
    using False dq ids lp by (auto simp: dequeue_workflows_def Let_def split: if_splits)
  define sel where "sel = take (nat ?n) ?free"
  have ids_sel: "ids = map ws_workflow_uuid sel"
    using select_candidates_Inr [OF ids] by (simp add: sel_def sql_limit_def)
  have "set sel \<subseteq> set ?free" unfolding sel_def by (rule set_take_subset)
  then have sub: "set sel \<subseteq> {r \<in> set (workflow_status db). claimable i r}"
    by (auto simp: set_candidates)
  have dst: "distinct (map ws_workflow_uuid sel)"
    using distinct_candidates [OF wf, of i]
    by (simp add: sel_def distinct_map_filter flip: take_map)
  have fnd: "find_workflow db (ws_workflow_uuid r) = Some r" if "r \<in> set sel" for r
    using that sub find_workflow_member [OF wf, of r] by auto
  define b where "b = rate_budget i ?recent (length ids)"
  have rs: "take b sel = ?rs"
    by (simp only: sel_def b_def ids_sel claims_def length_map take_rate_budget)
  have st: "\<exists>r. find_workflow db w = Some r \<and> ws_status r = as_str Enqueued" if w: "w \<in> set ids" for w
  proof -
    from w obtain r where r: "r \<in> set sel" "w = ws_workflow_uuid r" by (auto simp: ids_sel)
    with sub have "ws_status r = as_str Enqueued" by (auto simp: claimable_def)
    with r fnd show ?thesis by blast
  qed
  have "claim_loop i now2 ?recent [] ids db =
      ([] @ map (\<lambda>w. dequeued (the (find_workflow db w))) (take b ids),
       claim_rows i now2 (take b ids) db)"
    using claim_loop_spec [of ids db i now2 ?recent "[]"] dst st by (simp add: ids_sel b_def)
  then have cl0: "cl0 = map (\<lambda>w. dequeued (the (find_workflow db w))) (map ws_workflow_uuid ?rs)"
    and db0: "db0 = claim_rows i now2 (map ws_workflow_uuid ?rs) db"
    using lp by (simp_all add: ids_sel take_map rs)
  have "set ?rs \<subseteq> set sel" using rs set_take_subset by metis
  with fnd have "map (\<lambda>r. dequeued (the (find_workflow db (ws_workflow_uuid r)))) ?rs = map dequeued ?rs"
    by auto
  with cl0 db0 out show ?thesis by (auto simp: comp_def)
qed

lemma dequeue_db_wf: "preserves db_wf (dequeue_workflows i now1 now2 locked)"
proof (rule preservesI)
  fix db assume wf: "db_wf db"
  show "db_wf (snd (dequeue_workflows i now1 now2 locked db))"
  proof (cases "fst (dequeue_workflows i now1 now2 locked db)")
    case (Inl e)
    with wf show ?thesis
      by (auto simp: dequeue_workflows_def Let_def split: if_splits sum.splits prod.splits)
  next
    case (Inr claimed)
    then have "dequeue_workflows i now1 now2 locked db =
        (Inr claimed, snd (dequeue_workflows i now1 now2 locked db))"
      by (metis prod.collapse)
    from dequeue_spec [OF wf this] show ?thesis
      using wf by (auto simp: claim_rows_def intro!: db_wf_update_workflows)
  qed
qed

lemma transition_delayed_db_wf: "db_wf db \<Longrightarrow> db_wf (transition_delayed_workflows now db)"
  unfolding transition_delayed_workflows_def
  by (rule db_wf_update_workflows) (auto simp: dedup_entry_def)

lemma clear_queue_assignment_db_wf: "db_wf db \<Longrightarrow> db_wf (snd (clear_queue_assignment w db))"
  unfolding clear_queue_assignment_def snd_conv
  by (rule db_wf_update_workflows) (auto simp: dedup_entry_def)

subsection \<open>Facts: counting the claimed rows\<close>

lemma sql_count_update:
  "(\<And>r. r \<in> set t \<Longrightarrow> P r \<Longrightarrow> Q (f r) \<and> \<not> Q r) \<Longrightarrow>
   sql_count Q (sql_update P f t) = sql_count Q t + sql_count P t"
  by (induction t) auto

lemma sql_count_update_le:
  "sql_count Q (sql_update P f t) \<le> sql_count Q t + sql_count P t"
  by (induction t) auto

lemma sql_count_ids:
  assumes "distinct (map key t)" and "set rs \<subseteq> {r \<in> set t. E r}" and "distinct (map key rs)"
  shows "sql_count (\<lambda>r. key r \<in> set (map key rs) \<and> E r) t = int (length rs)"
proof -
  have inj: "inj_on key (set t)" and dt: "distinct t" using assms(1) by (simp_all add: distinct_map)
  have "set (filter (\<lambda>r. key r \<in> set (map key rs) \<and> E r) t) = set rs"
  proof (intro set_eqI iffI)
    fix x assume "x \<in> set (filter (\<lambda>r. key r \<in> set (map key rs) \<and> E r) t)"
    then obtain y where "y \<in> set rs" "x \<in> set t" "key x = key y" by auto
    with inj assms(2) have "x = y" by (intro inj_onD [OF inj]) auto
    with \<open>y \<in> set rs\<close> show "x \<in> set rs" by simp
  qed (use assms(2) in auto)
  moreover have "distinct (filter (\<lambda>r. key r \<in> set (map key rs) \<and> E r) t)" "distinct rs"
    using dt assms(3) by (simp_all add: distinct_map)
  ultimately have "length (filter (\<lambda>r. key r \<in> set (map key rs) \<and> E r) t) = length rs"
    by (metis distinct_card)
  then show ?thesis by (simp add: sql_count_def)
qed

lemma claims_count:
  assumes "db_wf db"
  shows "sql_count (\<lambda>r. ws_workflow_uuid r \<in> set (map ws_workflow_uuid (claims i now locked db)) \<and>
      ws_status r = as_str Enqueued) (workflow_status db) = int (length (claims i now locked db))"
proof (rule sql_count_ids)
  show "set (claims i now locked db) \<subseteq> {r \<in> set (workflow_status db). ws_status r = as_str Enqueued}"
    using claims_subset [of i now locked db] by (auto simp: claimable_def)
qed (use assms in \<open>simp_all add: db_wf_distinct_ids claims_distinct\<close>)

subsection \<open>Properties\<close>

lemma dequeue_Inl:
  assumes "dequeue_workflows i now1 now2 locked db = (Inl e, db')"
  shows "db' = db \<and> is_db_contention e \<and> dq_global_concurrency i \<noteq> None"
  using assms
  by (auto simp: dequeue_workflows_def select_candidates_def Let_def is_db_contention_def
      is_lock_not_available_def lock_not_available_def
      split: if_splits sum.splits prod.splits)

text \<open>
  A dequeue claims eligible workflows in priority order, first created first. The claimed
  rows are a prefix of the eligible unlocked rows in that order: none left behind comes before a
  claimed one. Each was ENQUEUED on the queue, becomes PENDING on this executor with its start
  time and its deadline materialised, and no other workflow changes.
\<close>

theorem dequeue_claims_in_priority_order:
  assumes "db_wf db" and "dequeue_workflows i now1 now2 locked db = (Inr claimed, db')"
  shows "\<exists>rs rest. filter (\<lambda>r. \<not> locked (ws_workflow_uuid r)) (candidates i db) = rs @ rest \<and>
    claimed = map dequeued rs \<and>
    list_all (\<lambda>r. list_all (\<lambda>s. (ws_priority r, ws_created_at r) \<le> (ws_priority s, ws_created_at s))
      rest) rs \<and>
    list_all (\<lambda>r. find_workflow db (ws_workflow_uuid r) = Some r \<and>
      ws_queue_name r = Some (dq_queue_name i) \<and> ws_status r = as_str Enqueued \<and>
      find_workflow db' (ws_workflow_uuid r) = Some (claim_row i now2 r)) rs \<and>
    (\<forall>w. w \<in> ws_workflow_uuid ` set rs \<or> find_workflow db' w = find_workflow db w)"
proof -
  let ?free = "filter (\<lambda>r. \<not> locked (ws_workflow_uuid r)) (candidates i db)"
  let ?b = "rate_budget i (num_recent i now1 db) (nat (max_tasks i db))"
  let ?rs = "claims i now1 locked db"
  from dequeue_spec [OF assms] have cl: "claimed = map dequeued ?rs"
    and db': "db' = claim_rows i now2 (map ws_workflow_uuid ?rs) db" by simp_all
  have split: "?free = ?rs @ drop ?b ?free" by (simp add: claims_def)
  have "sorted_wrt (\<lambda>r s. (ws_priority r, ws_created_at r) \<le> (ws_priority s, ws_created_at s)) (candidates i db)"
    using sorted_sort_key [of "\<lambda>r. (ws_priority r, ws_created_at r)"
        "sql_select (claimable i) (workflow_status db)"]
    by (simp add: candidates_def sorted_wrt_map del: less_eq_prod_simp sorted_sort_key)
  then have "sorted_wrt (\<lambda>r s. (ws_priority r, ws_created_at r) \<le> (ws_priority s, ws_created_at s)) ?free"
    by (rule sorted_wrt_filter)
  then have "sorted_wrt (\<lambda>r s. (ws_priority r, ws_created_at r) \<le> (ws_priority s, ws_created_at s))
      (?rs @ drop ?b ?free)"
    using split by simp
  then have ord: "list_all (\<lambda>r. list_all (\<lambda>s. (ws_priority r, ws_created_at r) \<le>
      (ws_priority s, ws_created_at s)) (drop ?b ?free)) ?rs"
    by (auto simp: sorted_wrt_append list_all_iff simp del: less_eq_prod_simp)
  have mem: "find_workflow db (ws_workflow_uuid r) = Some r \<and> claimable i r" if "r \<in> set ?rs" for r
    using that claims_subset [of i now1 locked db] find_workflow_member [OF assms(1)] by blast
  have rows: "list_all (\<lambda>r. find_workflow db (ws_workflow_uuid r) = Some r \<and>
      ws_queue_name r = Some (dq_queue_name i) \<and> ws_status r = as_str Enqueued \<and>
      find_workflow db' (ws_workflow_uuid r) = Some (claim_row i now2 r)) ?rs"
    using mem by (auto simp: list_all_iff db' find_workflow_claim_rows claimable_def sql_eq_def)
  have other: "find_workflow db' w = find_workflow db w" if "w \<notin> ws_workflow_uuid ` set ?rs" for w
    using that by (cases "find_workflow db w")
      (auto simp: db' find_workflow_claim_rows dest: find_workflow_SomeD)
  show ?thesis
    by (rule exI [of _ ?rs], rule exI [of _ "drop ?b ?free"]) (use split cl ord rows other in blast)
qed

definition sample_queue_row :: "string \<Rightarrow> int \<Rightarrow> int \<Rightarrow> workflow_row" where
  "sample_queue_row w prio created =
     (fresh_row sample_input)\<lparr>ws_workflow_uuid := w, ws_status := as_str Enqueued,
        ws_queue_name := Some ''q'', ws_priority := prio, ws_created_at := created\<rparr>"

definition sample_queue_db :: sysdb where
  "sample_queue_db = empty_db\<lparr>workflow_status :=
     [sample_queue_row ''a'' 5 10, sample_queue_row ''b'' 0 20, sample_queue_row ''c'' 0 15]\<rparr>"

definition sample_dequeue :: DequeueInput where
  "sample_dequeue = \<lparr>dq_queue_name = ''q'', dq_executor_id = ''e1'',
     dq_application_version = ''v1'', dq_partition_key = None, dq_local_running_count = 0,
     dq_worker_concurrency = Some 2, dq_global_concurrency = Some 5,
     dq_max_tasks_per_iteration = 100, dq_rate_limit = Some (10, 1000)\<rparr>"

lemma sample_queue_row_simps [simp]:
  "ws_workflow_uuid (sample_queue_row w p c) = w" "ws_status (sample_queue_row w p c) = as_str Enqueued"
  "ws_queue_name (sample_queue_row w p c) = Some ''q''" "ws_priority (sample_queue_row w p c) = p"
  "ws_created_at (sample_queue_row w p c) = c" "ws_deduplication_id (sample_queue_row w p c) = None"
  "ws_application_version (sample_queue_row w p c) = Some ''v1''"
  "ws_rate_limited (sample_queue_row w p c) = False"
  by (simp_all add: sample_queue_row_def sample_defs fresh_row_def)

lemma sample_queue_wf: "db_wf sample_queue_db"
  by (simp add: db_wf_def workflows_ok_def keys_ok_def refs_ok_def uuids_def sample_queue_db_def
      empty_db_def dedup_entry_def)

lemma sample_limits:
  "dq_rate_limit sample_dequeue = Some (10, 1000)"
  by (simp add: sample_dequeue_def)

lemma sample_dequeue_run:
  "dequeue_workflows sample_dequeue 1000 1001 (\<lambda>_. False) sample_queue_db =
     (Inr [dequeued (sample_queue_row ''c'' 0 15), dequeued (sample_queue_row ''b'' 0 20)],
      claim_rows sample_dequeue 1001 [''c'', ''b''] sample_queue_db)"
proof -
  have cand: "candidates sample_dequeue sample_queue_db =
      [sample_queue_row ''c'' 0 15, sample_queue_row ''b'' 0 20, sample_queue_row ''a'' 5 10]"
    by (simp add: candidates_def sql_select_def claimable_def sample_dequeue_def sample_queue_db_def
        partition_clause_def)
  have recent: "num_recent sample_dequeue 1000 sample_queue_db = 0"
    by (simp add: num_recent_def recently_started_def sample_dequeue_def sample_queue_db_def)
  have mx: "max_tasks sample_dequeue sample_queue_db = 2"
    by (simp add: max_tasks_def running_globally_def sample_dequeue_def sample_queue_db_def)
  have cl: "claims sample_dequeue 1000 (\<lambda>_. False) sample_queue_db =
      [sample_queue_row ''c'' 0 15, sample_queue_row ''b'' 0 20]"
    by (simp add: claims_def cand recent mx rate_budget_def sample_limits)
  have "\<exists>claimed db'. dequeue_workflows sample_dequeue 1000 1001 (\<lambda>_. False) sample_queue_db =
      (Inr claimed, db')"
    by (auto simp: dequeue_workflows_def Let_def select_candidates_def list_ex_iff
        split: sum.splits prod.splits)
  then obtain claimed db' where run: "dequeue_workflows sample_dequeue 1000 1001 (\<lambda>_. False)
      sample_queue_db = (Inr claimed, db')" by blast
  from dequeue_spec [OF sample_queue_wf this] cl show ?thesis by (simp add: run)
qed

theorem dequeue_claims_in_priority_order_witness:
  "\<exists>rs rest. filter (\<lambda>r. True) (candidates sample_dequeue sample_queue_db) = rs @ rest \<and>
     map dw_id (map dequeued rs) = [''c'', ''b'']"
proof -
  from dequeue_claims_in_priority_order [OF sample_queue_wf sample_dequeue_run]
  obtain rs rest where "filter (\<lambda>r. \<not> False) (candidates sample_dequeue sample_queue_db) = rs @ rest"
    and "[dequeued (sample_queue_row ''c'' 0 15), dequeued (sample_queue_row ''b'' 0 20)] = map dequeued rs"
    by (elim exE conjE) (erule that, assumption)
  moreover have "map dw_id (map dequeued rs) = [''c'', ''b'']"
    unfolding \<open>_ = map dequeued rs\<close> [symmetric] by (simp add: dequeued_def)
  ultimately show ?thesis by auto
qed

text \<open>
  C17. A dequeue respects every limit. When it claims anything: with a worker limit, the local
  count plus the claims stay within it; without one, the claims stay within the iteration limit;
  with a global limit, the PENDING workflows of the queue (partition) afterwards stay within it;
  with a rate limit, the workflows started within the window afterwards stay within it.
\<close>

theorem dequeue_respects_limits:
  assumes "db_wf db" and "dequeue_workflows i now1 now2 locked db = (Inr claimed, db')"
  shows "claimed = [] \<or>
    (case dq_worker_concurrency i of
       Some wc \<Rightarrow> dq_local_running_count i + length claimed \<le> wc
     | None \<Rightarrow> length claimed \<le> dq_max_tasks_per_iteration i) \<and>
    (case dq_global_concurrency i of
       Some gc \<Rightarrow> sql_count (running_globally i) (workflow_status db') \<le> int gc
     | None \<Rightarrow> True) \<and>
    (case dq_rate_limit i of
       Some (limit, period) \<Rightarrow>
         sql_count (recently_started i (now1 - int period)) (workflow_status db') \<le> int limit
     | None \<Rightarrow> True)"
proof (cases "claimed = []")
  case False
  let ?rs = "claims i now1 locked db"
  let ?E = "\<lambda>r. ws_workflow_uuid r \<in> set (map ws_workflow_uuid ?rs) \<and> ws_status r = as_str Enqueued"
  from dequeue_spec [OF assms] have cl: "claimed = map dequeued ?rs"
    and db': "workflow_status db' = sql_update ?E (claim_row i now2) (workflow_status db)"
    by (simp_all add: claim_rows_def)
  from False cl have ne: "?rs \<noteq> []" by simp
  then have pos: "max_tasks i db > 0" "\<not> rate_exhausted i (num_recent i now1 db)"
    using claims_none [of i now1 db locked] by force+
  have "length ?rs \<le> rate_budget i (num_recent i now1 db) (nat (max_tasks i db))"
    by (simp add: claims_def)
  then have len: "length claimed \<le> rate_budget i (num_recent i now1 db) (nat (max_tasks i db))"
    using cl by simp
  then have len_max: "int (length claimed) \<le> max_tasks i db"
    using pos by (auto simp: rate_budget_def split: option.splits)
  have count: "sql_count ?E (workflow_status db) = int (length claimed)"
    using claims_count [OF assms(1), of i now1 locked] cl by simp
  have le: "sql_count Q (workflow_status db') \<le> sql_count Q (workflow_status db) + int (length claimed)" for Q
    using sql_count_update_le [of Q ?E "claim_row i now2" "workflow_status db"]
    unfolding db' count .
  have "case dq_worker_concurrency i of
       Some wc \<Rightarrow> dq_local_running_count i + length claimed \<le> wc
     | None \<Rightarrow> length claimed \<le> dq_max_tasks_per_iteration i"
    using len_max pos by (auto simp: max_tasks_def Let_def split: option.splits)
  moreover have "case dq_global_concurrency i of
       Some gc \<Rightarrow> sql_count (running_globally i) (workflow_status db') \<le> int gc | None \<Rightarrow> True"
    using len_max pos le [of "running_globally i"]
    by (auto simp: max_tasks_def Let_def split: option.splits)
  moreover have "case dq_rate_limit i of
       Some (limit, period) \<Rightarrow>
         sql_count (recently_started i (now1 - int period)) (workflow_status db') \<le> int limit
     | None \<Rightarrow> True"
  proof (cases "dq_rate_limit i")
    case (Some lp)
    obtain limit period where lp: "lp = (limit, period)" by force
    let ?Q = "recently_started i (now1 - int period)"
    have "sql_count ?Q (workflow_status db') \<le> sql_count ?Q (workflow_status db) + int (length claimed)"
      by (rule le)
    moreover have "sql_count ?Q (workflow_status db) + int (length claimed) \<le> int limit"
      using len pos Some lp by (auto simp: rate_budget_def rate_exhausted_def num_recent_def)
    ultimately show ?thesis using Some lp by simp
  qed simp
  ultimately show ?thesis by blast
qed simp

theorem dequeue_respects_limits_witness:
  "sql_count (running_globally sample_dequeue)
     (workflow_status (claim_rows sample_dequeue 1001 [''c'', ''b''] sample_queue_db)) \<le> 5"
  using dequeue_respects_limits [OF sample_queue_wf sample_dequeue_run]
  by (simp add: sample_dequeue_def)

text \<open>
  A claim that was lost in a crash can be taken again. Clearing the queue assignment of a
  workflow reports a reset exactly when the workflow is PENDING and on a queue; it is then
  ENQUEUED with no start time and eligible again for every executor of its application version,
  under its old partition. Any other workflow is left alone, and clearing twice changes nothing more.
\<close>

theorem cleared_claim_is_eligible_again:
  assumes "db_wf db" and "find_workflow db w = Some r"
    and "clear_queue_assignment w db = (reset, db')"
  shows "reset = (ws_queue_name r \<noteq> None \<and> ws_status r = as_str Pending) \<and>
    (if reset
     then \<exists>r'. find_workflow db' w = Some r' \<and> ws_status r' = as_str Enqueued \<and>
       ws_started_at_epoch_ms r' = None \<and>
       claimable \<lparr>dq_queue_name = the (ws_queue_name r), dq_executor_id = any_executor,
         dq_application_version = unwrap_or (ws_application_version r) any_version,
         dq_partition_key = ws_queue_partition_key r, dq_local_running_count = 0,
         dq_worker_concurrency = None, dq_global_concurrency = None,
         dq_max_tasks_per_iteration = 1, dq_rate_limit = None\<rparr> r'
     else db' = db) \<and>
    (v = w \<or> find_workflow db' v = find_workflow db v) \<and>
    clear_queue_assignment w db' = (False, db')"
proof -
  from assms(2) have r: "r \<in> set (workflow_status db)" "ws_workflow_uuid r = w"
    by (auto dest: find_workflow_SomeD)
  have only: "queue_assigned w x \<Longrightarrow> x \<in> set (workflow_status db) \<Longrightarrow> x = r" for x
    using find_workflow_member [OF assms(1), of x] assms(2) by (simp add: queue_assigned_def)
  have db': "db' = db\<lparr>workflow_status := sql_update (queue_assigned w)
      (\<lambda>r. r\<lparr>ws_status := as_str Enqueued, ws_started_at_epoch_ms := None\<rparr>) (workflow_status db)\<rparr>"
    and reset: "reset = (\<exists>x \<in> set (workflow_status db). queue_assigned w x)"
    using assms(3) by (auto simp: clear_queue_assignment_def sql_count_def filter_empty_conv)
  have reset': "reset = queue_assigned w r" using reset r only by blast
  have fnd: "find_workflow db' v = map_option (\<lambda>r. if queue_assigned w r
      then r\<lparr>ws_status := as_str Enqueued, ws_started_at_epoch_ms := None\<rparr> else r)
      (find_workflow db v)" for v
    unfolding db' by (rule find_workflow_update) simp
  have same: "db' = db" if "\<not> reset"
    using that reset unfolding db' by (subst sql_update_no_match) auto
  have other: "v = w \<or> find_workflow db' v = find_workflow db v"
    by (cases "find_workflow db v") (auto simp: fnd queue_assigned_def dest: find_workflow_SomeD)
  have none: "\<not> queue_assigned w x" if "x \<in> set (workflow_status db')" for x
  proof -
    have "x \<in> set (sql_update (queue_assigned w)
        (\<lambda>r. r\<lparr>ws_status := as_str Enqueued, ws_started_at_epoch_ms := None\<rparr>) (workflow_status db))"
      using that by (simp add: db')
    then obtain y where "x = (if queue_assigned w y
        then y\<lparr>ws_status := as_str Enqueued, ws_started_at_epoch_ms := None\<rparr> else y)"
      by (rule sql_update_memberE)
    then show ?thesis by (cases "queue_assigned w y") (simp_all add: queue_assigned_def)
  qed
  have again: "clear_queue_assignment w db' = (False, db')"
    using none by (simp add: clear_queue_assignment_def sql_update_no_match sql_count_def filter_empty_conv)
  have iff: "reset = (ws_queue_name r \<noteq> None \<and> ws_status r = as_str Pending)"
    using reset' r(2) by (simp add: queue_assigned_def)
  have eligible: "claimable \<lparr>dq_queue_name = the (ws_queue_name r), dq_executor_id = any_executor,
         dq_application_version = unwrap_or (ws_application_version r) any_version,
         dq_partition_key = ws_queue_partition_key r, dq_local_running_count = 0,
         dq_worker_concurrency = None, dq_global_concurrency = None,
         dq_max_tasks_per_iteration = 1, dq_rate_limit = None\<rparr>
       (r\<lparr>ws_status := as_str Enqueued, ws_started_at_epoch_ms := None\<rparr>)" if reset
    using that iff by (cases "ws_application_version r"; cases "ws_queue_partition_key r")
      (auto simp: claimable_def partition_clause_def)
  have there: "find_workflow db' w =
      Some (r\<lparr>ws_status := as_str Enqueued, ws_started_at_epoch_ms := None\<rparr>)" if reset
    using that reset' fnd [of w] assms(2) by simp
  show ?thesis
  proof (cases reset)
    case True
    with eligible there iff other again show ?thesis by auto
  next
    case False
    with same iff other again show ?thesis by simp
  qed
qed

theorem cleared_claim_is_eligible_again_witness:
  "clear_queue_assignment ''b'' (claim_rows sample_dequeue 1001 [''b''] sample_queue_db) =
     (True, snd (clear_queue_assignment ''b'' (claim_rows sample_dequeue 1001 [''b''] sample_queue_db)))"
proof -
  let ?db = "claim_rows sample_dequeue 1001 [''b''] sample_queue_db"
  have wf: "db_wf ?db"
    using sample_queue_wf unfolding claim_rows_def by (intro db_wf_update_workflows) simp_all
  have f: "find_workflow ?db ''b'' = Some (claim_row sample_dequeue 1001 (sample_queue_row ''b'' 0 20))"
  proof -
    have "find_workflow sample_queue_db ''b'' = Some (sample_queue_row ''b'' 0 20)"
      by (simp add: find_workflow_def sample_queue_db_def empty_db_def)
    then show ?thesis by (simp add: find_workflow_claim_rows)
  qed
  obtain reset db' where c: "clear_queue_assignment ''b'' ?db = (reset, db')" by force
  from cleared_claim_is_eligible_again [OF wf f c] c show ?thesis by simp
qed

end
