(* ===== verification/Dbos_Recovery.thy ===== *)
theory Dbos_Recovery
  imports Dbos_Workflow Dbos_QueueDb
begin

text \<open>
  Crash recovery, \<open>crates/dbos/src/runtime/recovery.rs\<close>: on launch an executor re-runs its PENDING
  workflows and pushes its claimed queued ones back to their queue. Errors of single workflows
  are logged by the code and skipped, so the pass itself does not fail. The spawned tasks are part
  of the result; each workflow's start has its own fresh ids, given by its id.
\<close>

subsection \<open>One recovery pass\<close>

definition as_json_string :: "json \<Rightarrow> string option" where
  "as_json_string j = (case j of String s \<Rightarrow> Some s | _ \<Rightarrow> None)"

text \<open>\<open>serde_json::from_str::<Vec<String>>(s).ok()\<close>.\<close>

definition roles_from_json :: "serde \<Rightarrow> string \<Rightarrow> string list option" where
  "roles_from_json sd s =
     (case sd_from_str sd s of
        Inr (Array js) \<Rightarrow> those (map as_json_string js)
      | _ \<Rightarrow> None)"

definition recovery_options :: "serde \<Rightarrow> RecoverableWorkflow \<Rightarrow> WorkflowOptions" where
  "recovery_options sd rw = default_options\<lparr>
     wo_workflow_id := Some (rw_id rw),
     wo_authenticated_user := rw_authenticated_user rw,
     wo_assumed_role := rw_assumed_role rw,
     wo_authenticated_roles := Option.bind (rw_authenticated_roles rw) (roles_from_json sd)\<rparr>"

definition recover_one ::
  "serde \<Rightarrow> DbosInner \<Rightarrow> (string \<Rightarrow> start_env) \<Rightarrow> RecoverableWorkflow \<Rightarrow> sysdb \<Rightarrow>
   (string list \<times> task list) \<times> sysdb" where
  "recover_one sd inner se rw db =
     (if rw_queue_name rw \<noteq> None
      then (case clear_queue_assignment (rw_id rw) db of
              (True, db1) \<Rightarrow> (([rw_id rw], []), db1)
            | (False, db1) \<Rightarrow> (([], []), db1))
      else if di_registry inner (rw_name rw) = None then (([], []), db)
      else (case start_workflow sd inner (se (rw_id rw)) (rw_name rw) (rw_inputs rw)
                   (recovery_options sd rw) None (from_name (rw_serialization rw)) True db of
              (Inr (h, t), db1) \<Rightarrow>
                (([rw_id rw], case t of None \<Rightarrow> [] | Some k \<Rightarrow> [k]), db1)
            | (Inl e, db1) \<Rightarrow> (([], []), db1)))"

fun recover_list ::
  "serde \<Rightarrow> DbosInner \<Rightarrow> (string \<Rightarrow> start_env) \<Rightarrow> RecoverableWorkflow list \<Rightarrow> sysdb \<Rightarrow>
   (string list \<times> task list) \<times> sysdb" where
  "recover_list sd inner se [] db = (([], []), db)"
| "recover_list sd inner se (rw # rws) db =
     (case recover_one sd inner se rw db of
        ((ids, ts), db1) \<Rightarrow>
          (case recover_list sd inner se rws db1 of
             ((ids', ts'), db2) \<Rightarrow> ((ids @ ids', ts @ ts'), db2)))"

definition recover_pending_workflows ::
  "serde \<Rightarrow> DbosInner \<Rightarrow> (string \<Rightarrow> start_env) \<Rightarrow> string list \<Rightarrow> sysdb \<Rightarrow>
   (string list \<times> task list) \<times> sysdb" where
  "recover_pending_workflows sd inner se executor_ids db =
     recover_list sd inner se
       (list_pending_for_recovery executor_ids (di_application_version inner) db) db"

subsection \<open>Facts\<close>

lemma recoverable_id [simp]: "rw_id (recoverable r) = ws_workflow_uuid r"
  by (simp add: recoverable_def)

lemma recovery_options_id [simp]: "wo_workflow_id (recovery_options sd rw) = Some (rw_id rw)"
  by (simp add: recovery_options_def default_options_def)

text \<open>A start touches no row but the one of its id.\<close>

lemma start_other:
  assumes "start_workflow sd inner se name inp opts None fmt rcv db = (x, db')"
    and "wo_workflow_id opts = Some w" and "v \<noteq> w"
  shows "find_workflow db' v = find_workflow db v"
proof (cases x)
  case (Inr p)
  obtain h t where p: "p = (h, t)" by force
  note st = assms(1) [unfolded Inr p]
  have h: "wh_id h = w" by (rule start_workflow_InrE [OF st]) (simp add: assms(2))
  show ?thesis
  proof (cases "find_workflow db w")
    case None
    show ?thesis by (rule start_new [OF st, unfolded h, OF None]) (simp add: assms(3))
  next
    case (Some r)
    show ?thesis by (rule start_existing [OF st, unfolded h, OF Some]) (simp add: assms(3))
  qed
next
  case (Inl e)
  consider "db' = db" | entry i where "i = start_input sd inner se entry name inp opts None fmt rcv"
      and "start_tx i (re_max_retries entry) (se_now_child se) None db = (Inr None, db')"
    using assms(1) Inl
    by (auto simp: start_workflow_def Let_def split: option.splits prod.splits sum.splits if_splits
        dest: start_tx_Inl)
  then show ?thesis
  proof cases
    case (2 entry i)
    then have i: "in_workflow_id i = w" using assms(2) by simp
    obtain res where ins: "insert_workflow_status i (re_max_retries entry) db = (Inr res, db')"
      by (rule start_tx_NoneE [OF 2(2)])
    obtain row db1 where u: "upsert_workflow i db = Inr (row, db1)"
      and fin: "finish_insert i (re_max_retries entry) row db1 = (Inr res, db')"
      by (rule insert_workflow_status_InrE [OF ins])
    have "find_workflow db1 v = find_workflow db v" using upsert_other [OF u] i assms(3) by simp
    moreover have "find_workflow (dlq_update w db1) v = find_workflow db1 v"
      using assms(3) by (cases "find_workflow db1 v") (auto simp: find_workflow_dlq_update dest: find_workflow_SomeD)
    ultimately show ?thesis using fin i by (auto simp: finish_insert_Inr)
  qed simp
qed

lemma clear_queue_other:
  assumes "v \<noteq> w" shows "find_workflow (snd (clear_queue_assignment w db)) v = find_workflow db v"
proof -
  have "map_option (\<lambda>r. if queue_assigned w r then f r else r) (find_workflow db v) = find_workflow db v"
    for f using assms by (cases "find_workflow db v") (auto simp: queue_assigned_def dest: find_workflow_SomeD)
  then show ?thesis
    unfolding clear_queue_assignment_def snd_conv by (subst find_workflow_update) auto
qed

lemma recover_one_other:
  assumes "recover_one sd inner se rw db = (out, db')" and "v \<noteq> rw_id rw"
  shows "find_workflow db' v = find_workflow db v"
  using assms clear_queue_other [OF assms(2), of db]
  by (auto simp: recover_one_def split: if_splits prod.splits sum.splits bool.splits
      dest!: start_other)

lemma recover_one_ids: "recover_one sd inner se rw db = ((ids, ts), db') \<Longrightarrow> set ids \<subseteq> {rw_id rw}"
  by (auto simp: recover_one_def split: if_splits prod.splits sum.splits bool.splits)

lemma recover_one_db_wf: "db_wf db \<Longrightarrow> db_wf (snd (recover_one sd inner se rw db))"
  using clear_queue_assignment_db_wf [of db "rw_id rw"] start_workflow_db_wf [of db]
  by (auto simp: recover_one_def split: if_splits prod.splits sum.splits bool.splits) (metis snd_conv)+

lemma recover_list_other:
  "recover_list sd inner se rws db = (out, db') \<Longrightarrow> v \<notin> rw_id ` set rws \<Longrightarrow>
     find_workflow db' v = find_workflow db v"
  by (induction rws arbitrary: out db db') (fastforce split: prod.splits dest: recover_one_other)+

lemma recover_list_ids: "recover_list sd inner se rws db = ((ids, ts), db') \<Longrightarrow> set ids \<subseteq> rw_id ` set rws"
  by (induction rws arbitrary: ids ts db db') (fastforce split: prod.splits dest: recover_one_ids)+

lemma recover_list_db_wf: "db_wf db \<Longrightarrow> db_wf (snd (recover_list sd inner se rws db))"
proof (induction rws arbitrary: db)
  case (Cons rw rws)
  have "db_wf (snd (recover_one sd inner se rw db))" by (rule recover_one_db_wf [OF Cons.prems])
  with Cons.IH show ?case by (auto split: prod.splits) (metis snd_conv)
qed simp

lemma recover_list_append:
  "recover_list sd inner se (xs @ ys) db =
     (case recover_list sd inner se xs db of ((ids, ts), db1) \<Rightarrow>
        (case recover_list sd inner se ys db1 of ((ids', ts'), db2) \<Rightarrow> ((ids @ ids', ts @ ts'), db2)))"
  by (induction xs arbitrary: db) (simp_all split: prod.splits)

text \<open>In a pass over distinct workflows, each one sees its own row as it was before the pass.\<close>

lemma recover_list_member:
  assumes "rw \<in> set rws" and "distinct (map rw_id rws)"
  obtains db1 ids ts db2 where "find_workflow db1 (rw_id rw) = find_workflow db (rw_id rw)"
    and "recover_one sd inner se rw db1 = ((ids, ts), db2)"
    and "find_workflow (snd (recover_list sd inner se rws db)) (rw_id rw) = find_workflow db2 (rw_id rw)"
    and "rw_id rw \<in> set (fst (fst (recover_list sd inner se rws db))) \<longleftrightarrow> ids \<noteq> []"
    and "set ts \<subseteq> set (snd (fst (recover_list sd inner se rws db)))"
    and "db_wf db \<Longrightarrow> db_wf db1"
proof -
  obtain xs ys where w: "rws = xs @ rw # ys" using assms(1) by (meson split_list)
  have out: "rw_id rw \<notin> rw_id ` set xs" "rw_id rw \<notin> rw_id ` set ys" using assms(2) w by auto
  obtain i1 t1 d1 where a: "recover_list sd inner se xs db = ((i1, t1), d1)" by (metis surj_pair)
  obtain i2 t2 d2 where b: "recover_one sd inner se rw d1 = ((i2, t2), d2)" by (metis surj_pair)
  obtain i3 t3 d3 where c: "recover_list sd inner se ys d2 = ((i3, t3), d3)" by (metis surj_pair)
  have all: "recover_list sd inner se rws db = ((i1 @ i2 @ i3, t1 @ t2 @ t3), d3)"
    using a b c w by (simp add: recover_list_append)
  have "rw_id rw \<in> set i2 \<longleftrightarrow> i2 \<noteq> []" using recover_one_ids [OF b] by (cases i2) auto
  with recover_list_ids [OF a] recover_list_ids [OF c] out
  have "rw_id rw \<in> set (i1 @ i2 @ i3) \<longleftrightarrow> i2 \<noteq> []" by auto
  with that [OF recover_list_other [OF a out(1)] b] recover_list_other [OF c out(2)] all a
    recover_list_db_wf [of db sd inner se xs]
  show thesis by (simp add: Un_upper1 le_supI1 le_supI2)
qed

text \<open>Recovering one PENDING workflow that was started directly.\<close>

lemma recover_one_direct:
  assumes "find_workflow db w = Some r" and "ws_status r = as_str Pending" and "ws_queue_name r = None"
    and "di_registry inner (ws_name r) = Some entry" and "rw = recoverable r"
  defines "a \<equiv> ws_recovery_attempts r + 1" and "m \<equiv> re_max_retries entry"
  obtains r' db' where "find_workflow db' w = Some r'" and "ws_recovery_attempts r' = a"
    and "ws_name r' = ws_name r" and "ws_queue_name r' = None" and "ws_inputs r' = ws_inputs r"
    and "ws_executor_id r' = Some (di_executor_id inner)"
    and "ws_application_version r' = ws_application_version r"
    and "if m > 0 \<and> a > m + 1
         then recover_one sd inner se rw db = (([], []), db') \<and>
           ws_status r' = as_str MaxRecoveryAttemptsExceeded
         else (\<exists>k. recover_one sd inner se rw db = (([w], [k]), db') \<and> tk_handler k = re_handler entry \<and>
                tk_input k = ws_inputs r \<and> wc_workflow_id (tk_context k) = w \<and>
                tk_format k = from_name (ws_serialization r)) \<and>
           ws_status r' = as_str Pending"
proof -
  have w: "ws_workflow_uuid r = w" using assms(1) by (auto dest: find_workflow_SomeD)
  have rw: "rw_id rw = w" "rw_name rw = ws_name r" "rw_queue_name rw = None" "rw_inputs rw = ws_inputs r"
    "rw_serialization rw = ws_serialization r"
    using assms(3) w by (simp_all add: assms(5) recoverable_def)
  define fmt where "fmt = from_name (ws_serialization r)"
  define i where "i = start_input sd inner (se w) entry (ws_name r) (ws_inputs r)
    (recovery_options sd rw) None fmt True"
  have i: "in_workflow_id i = w" "in_name i = ws_name r" "in_queue_name i = None"
    "in_status i = as_str Pending" "in_increment i = 1" "in_executor_id i = di_executor_id inner"
    using rw(1) by (simp_all add: i_def)
  define row where "row = on_conflict_row i r"
  have row: "ws_status row = as_str Pending" "ws_recovery_attempts row = a" "ws_name row = ws_name r"
    "ws_queue_name row = None" "ws_inputs row = ws_inputs r"
    "ws_executor_id row = Some (di_executor_id inner)"
    "ws_application_version row = ws_application_version r"
    using assms(2,3) i by (simp_all add: row_def a_def on_conflict_row_def Let_def)
  obtain db1 where u: "upsert_workflow i db = Inr (row, db1)"
    using assms(1) i(1) by (simp add: upsert_existing row_def)
  have here: "find_workflow db1 w = Some row" "ws_workflow_uuid row = w" using upsert_find [OF u] i(1) by simp_all
  obtain res db2 where fin: "finish_insert i m row db1 = (Inr res, db2)"
    by (simp add: finish_insert_def Let_def)
  have ins: "insert_workflow_status i m db = (Inr res, db2)"
    using u fin i row by (simp add: insert_workflow_status_def)
  have res: "ir_dlq_triggered res = (m > 0 \<and> a > m + 1)" "ir_status res = as_str Pending"
    "db2 = (if ir_dlq_triggered res then dlq_update w db1 else db1)"
    using fin row i(1) by (simp_all add: finish_insert_Inr dead_letter_def)
  have tx: "start_tx i m (se_now_child (se w)) None db =
      (if ir_dlq_triggered res then (Inr None, db2) else (Inr (Some res), db2))"
    using ins by (simp add: start_tx_def transaction_def andthen_def ret_def)
  note defs = recover_one_def rw assms(4) start_workflow_def Let_def fmt_def [symmetric]
    i_def [symmetric] m_def [symmetric] tx i(1) should_skip_def
  show thesis
  proof (cases "m > 0 \<and> a > m + 1")
    case True
    let ?r = "row\<lparr>ws_status := as_str MaxRecoveryAttemptsExceeded, ws_deduplication_id := None,
        ws_started_at_epoch_ms := None, ws_queue_name := None\<rparr>"
    have "recover_one sd inner se rw db = (([], []), db2)" using True res by (simp add: defs)
    moreover have "find_workflow db2 w = Some ?r"
      using True res here row by (simp add: find_workflow_dlq_update)
    ultimately show thesis using that [of db2 ?r] True row by simp
  next
    case False
    have "find_workflow db2 w = Some row" using False res here by auto
    moreover have "\<exists>k. recover_one sd inner se rw db = (([w], [k]), db2) \<and> tk_handler k = re_handler entry \<and>
        tk_input k = ws_inputs r \<and> wc_workflow_id (tk_context k) = w \<and> tk_format k = fmt"
      using False res by (auto simp: defs)
    ultimately show thesis using that [of db2 row] False row unfolding fmt_def by simp
  qed
qed

lemma list_pending_distinct: "db_wf db \<Longrightarrow> distinct (map rw_id (list_pending_for_recovery ex v db))"
  using db_wf_distinct_ids [of db]
  by (simp add: list_pending_for_recovery_def sql_select_def recoverable_def comp_def distinct_map_filter)

lemma list_pending_row:
  assumes "db_wf db" and "find_workflow db w = Some r"
  shows "w \<in> rw_id ` set (list_pending_for_recovery ex v db) \<longleftrightarrow>
     ws_status r = as_str Pending \<and> sql_any (ws_executor_id r) ex \<and>
     sql_eq (ws_application_version r) v"
    and "ws_status r = as_str Pending \<Longrightarrow> sql_any (ws_executor_id r) ex \<Longrightarrow>
      sql_eq (ws_application_version r) v \<Longrightarrow> recoverable r \<in> set (list_pending_for_recovery ex v db)"
proof -
  have r: "r \<in> set (workflow_status db)" "ws_workflow_uuid r = w"
    using find_workflow_SomeD [OF assms(2)] by auto
  have only: "x = r" if "x \<in> set (workflow_status db)" "ws_workflow_uuid x = w" for x
    using find_workflow_member [OF assms(1) that(1)] that(2) assms(2) by simp
  show "ws_status r = as_str Pending \<Longrightarrow> sql_any (ws_executor_id r) ex \<Longrightarrow>
      sql_eq (ws_application_version r) v \<Longrightarrow> recoverable r \<in> set (list_pending_for_recovery ex v db)"
    using r by (auto simp: list_pending_for_recovery_def sql_select_def)
  show "w \<in> rw_id ` set (list_pending_for_recovery ex v db) \<longleftrightarrow>
     ws_status r = as_str Pending \<and> sql_any (ws_executor_id r) ex \<and>
     sql_eq (ws_application_version r) v"
  proof -
    have "w \<in> rw_id ` set (list_pending_for_recovery ex v db) \<longleftrightarrow>
        (\<exists>x \<in> set (workflow_status db). (ws_status x = as_str Pending \<and> sql_any (ws_executor_id x) ex \<and>
          sql_eq (ws_application_version x) v) \<and> ws_workflow_uuid x = w)"
      by (auto simp: list_pending_for_recovery_def sql_select_def image_iff)
    also have "\<dots> \<longleftrightarrow> ws_status r = as_str Pending \<and> sql_any (ws_executor_id r) ex \<and>
        sql_eq (ws_application_version r) v"
      using r only by blast
    finally show ?thesis .
  qed
qed

text \<open>One pass, seen from one PENDING workflow that the executor may recover.\<close>

lemma recovery_pass:
  assumes "db_wf db" and "find_workflow db w = Some r" and "ws_status r = as_str Pending"
    and "sql_any (ws_executor_id r) ex" and "ws_application_version r = Some (di_application_version inner)"
  obtains db1 ids ts db2 where "find_workflow db1 w = Some r" and "db_wf db1"
    and "recover_one sd inner se (recoverable r) db1 = ((ids, ts), db2)"
    and "find_workflow (snd (recover_pending_workflows sd inner se ex db)) w = find_workflow db2 w"
    and "w \<in> set (fst (fst (recover_pending_workflows sd inner se ex db))) \<longleftrightarrow> ids \<noteq> []"
    and "set ts \<subseteq> set (snd (fst (recover_pending_workflows sd inner se ex db)))"
proof -
  have w: "ws_workflow_uuid r = w" using assms(2) by (auto dest: find_workflow_SomeD)
  have mem: "recoverable r \<in> set (list_pending_for_recovery ex (di_application_version inner) db)"
    using list_pending_row(2) [OF assms(1-4)] assms(5) by (simp add: sql_eq_def)
  show thesis
    by (rule recover_list_member [OF mem list_pending_distinct [OF assms(1)], of db sd inner se])
      (rule that; simp add: recover_pending_workflows_def w assms(1,2))
qed

lemma recovery_pass_skips:
  assumes "db_wf db" and "find_workflow db w = Some r" and "ws_status r \<noteq> as_str Pending"
  shows "find_workflow (snd (recover_pending_workflows sd inner se ex db)) w = Some r \<and>
    w \<notin> set (fst (fst (recover_pending_workflows sd inner se ex db)))"
proof -
  let ?l = "list_pending_for_recovery ex (di_application_version inner) db"
  have out: "w \<notin> rw_id ` set ?l" using list_pending_row(1) [OF assms(1,2)] assms(3) by blast
  obtain ids ts db' where rec: "recover_list sd inner se ?l db = ((ids, ts), db')" by (metis surj_pair)
  from recover_list_other [OF rec out] recover_list_ids [OF rec] out rec assms(2) show ?thesis
    by (auto simp: recover_pending_workflows_def)
qed

lemma recovery_db_wf: "db_wf db \<Longrightarrow> db_wf (snd (recover_pending_workflows sd inner se ex db))"
  unfolding recover_pending_workflows_def by (rule recover_list_db_wf)

subsection \<open>A crash loop\<close>

text \<open>
  The database before the n-th recovery pass of an executor that dies before any recovered
  workflow finishes; \<open>others\<close> is what happens to the database between the passes.
\<close>

fun recoveries ::
  "serde \<Rightarrow> DbosInner \<Rightarrow> (nat \<Rightarrow> string \<Rightarrow> start_env) \<Rightarrow> (nat \<Rightarrow> sysdb \<Rightarrow> sysdb) \<Rightarrow> nat \<Rightarrow> sysdb \<Rightarrow> sysdb" where
  "recoveries sd inner ses others 0 db = others 0 db"
| "recoveries sd inner ses others (Suc n) db =
     others (Suc n) (snd (recover_pending_workflows sd inner (ses n) [di_executor_id inner]
       (recoveries sd inner ses others n db)))"

definition keeps_workflow :: "string \<Rightarrow> (sysdb \<Rightarrow> sysdb) \<Rightarrow> bool" where
  "keeps_workflow w f \<longleftrightarrow>
     (\<forall>db. (db_wf db \<longrightarrow> db_wf (f db)) \<and> find_workflow (f db) w = find_workflow db w)"

definition crash_loop_row :: "DbosInner \<Rightarrow> string \<Rightarrow> int \<Rightarrow> nat \<Rightarrow> workflow_row \<Rightarrow> bool" where
  "crash_loop_row inner name m n r \<longleftrightarrow>
     ws_name r = name \<and> ws_queue_name r = None \<and> ws_executor_id r = Some (di_executor_id inner) \<and>
     ws_application_version r = Some (di_application_version inner) \<and>
     ws_recovery_attempts r = min (1 + int n) (m + 2) \<and>
     ws_status r = (if int n \<le> m then as_str Pending else as_str MaxRecoveryAttemptsExceeded)"

lemma crash_loop_pass:
  assumes "db_wf db" and "find_workflow db w = Some r" and "crash_loop_row inner name m n r"
    and "di_registry inner name = Some entry" and "re_max_retries entry = m" and "m > 0"
  shows "\<exists>r'. find_workflow (snd (recover_pending_workflows sd inner se [di_executor_id inner] db)) w =
      Some r' \<and> crash_loop_row inner name m (Suc n) r'"
    and "w \<in> set (fst (fst (recover_pending_workflows sd inner se [di_executor_id inner] db))) \<longleftrightarrow> int n < m"
proof -
  let ?p = "recover_pending_workflows sd inner se [di_executor_id inner] db"
  have "(\<exists>r'. find_workflow (snd ?p) w = Some r' \<and> crash_loop_row inner name m (Suc n) r') \<and>
    (w \<in> set (fst (fst ?p)) \<longleftrightarrow> int n < m)"
  proof (cases "int n \<le> m")
    case False
    then have "ws_status r \<noteq> as_str Pending" "crash_loop_row inner name m (Suc n) r"
      using assms(3) by (auto simp: crash_loop_row_def)
    with recovery_pass_skips [OF assms(1,2), of sd inner se] False show ?thesis by auto
  next
    case True
    then have r: "ws_status r = as_str Pending" "ws_queue_name r = None" "ws_name r = name"
      "sql_any (ws_executor_id r) [di_executor_id inner]"
      "ws_application_version r = Some (di_application_version inner)"
      "ws_recovery_attempts r = 1 + int n"
      using assms(3) by (simp_all add: crash_loop_row_def)
    obtain db1 ids ts db2 where d1: "find_workflow db1 w = Some r"
      and one: "recover_one sd inner se (recoverable r) db1 = ((ids, ts), db2)"
      and fin: "find_workflow (snd ?p) w = find_workflow db2 w" "w \<in> set (fst (fst ?p)) \<longleftrightarrow> ids \<noteq> []"
      by (rule recovery_pass [OF assms(1,2) r(1,4,5)]) blast
    have reg: "di_registry inner (ws_name r) = Some entry" using assms(4) r(3) by simp
    show ?thesis
    proof (rule recover_one_direct [OF d1 r(1,2) reg refl, of sd se], unfold assms(5))
      fix r' db'
      assume "find_workflow db' w = Some r'" and "ws_recovery_attempts r' = ws_recovery_attempts r + 1"
        and "ws_name r' = ws_name r" and "ws_queue_name r' = None"
        and "ws_executor_id r' = Some (di_executor_id inner)"
        and "ws_application_version r' = ws_application_version r"
        and *: "if 0 < m \<and> m + 1 < ws_recovery_attempts r + 1
         then recover_one sd inner se (recoverable r) db1 = (([], []), db') \<and>
           ws_status r' = as_str MaxRecoveryAttemptsExceeded
         else (\<exists>k. recover_one sd inner se (recoverable r) db1 = (([w], [k]), db') \<and>
                tk_handler k = re_handler entry \<and> tk_input k = ws_inputs r \<and>
                wc_workflow_id (tk_context k) = w \<and> tk_format k = from_name (ws_serialization r)) \<and>
           ws_status r' = as_str Pending"
      moreover have "db' = db2" "ids \<noteq> [] \<longleftrightarrow> int n < m"
        using * one r(6) True assms(6) by (auto split: if_splits)
      ultimately show ?thesis
        using fin r True assms(6) by (auto simp: crash_loop_row_def split: if_splits)
    qed
  qed
  then show "\<exists>r'. find_workflow (snd ?p) w = Some r' \<and> crash_loop_row inner name m (Suc n) r'"
    and "w \<in> set (fst (fst ?p)) \<longleftrightarrow> int n < m" by blast+
qed

lemma crash_loop_state:
  assumes "db_wf db" and "find_workflow db w = Some r" and "crash_loop_row inner name m 0 r"
    and "di_registry inner name = Some entry" and "re_max_retries entry = m" and "m > 0"
    and "\<forall>n. keeps_workflow w (others n)"
  shows "db_wf (recoveries sd inner ses others n db) \<and>
    (\<exists>r'. find_workflow (recoveries sd inner ses others n db) w = Some r' \<and> crash_loop_row inner name m n r')"
proof (induction n)
  case 0
  with assms show ?case by (auto simp: keeps_workflow_def)
next
  case (Suc n)
  let ?db = "recoveries sd inner ses others n db"
  from Suc obtain r' where r': "find_workflow ?db w = Some r'" "crash_loop_row inner name m n r'" by blast
  from crash_loop_pass(1) [OF conjunct1 [OF Suc] r' assms(4-6), of sd "ses n"]
    recovery_db_wf [OF conjunct1 [OF Suc], of sd inner "ses n"] assms(7)
  show ?case by (simp add: keeps_workflow_def)
qed

subsection \<open>Properties\<close>

text \<open>
  C16. Recovery picks up every interrupted workflow. For a PENDING workflow of the recovered
  executors at this application version, a pass does one thing, whatever else it recovers: a
  claimed queued workflow goes back to ENQUEUED and is reported; a direct one is re-run from its
  stored inputs in their stored format and reported, with one more recovery attempt, and stays
  PENDING, unless its limit is exceeded, when it is dead-lettered and not run; a workflow whose
  name is not registered stays as it is. Workflows in another status are not touched.
\<close>

theorem recovery_resumes_pending:
  assumes "db_wf db" and "find_workflow db w = Some r"
    and "sql_any (ws_executor_id r) ex" and "ws_application_version r = Some (di_application_version inner)"
    and "recover_pending_workflows sd inner se ex db = ((ids, ts), db')"
  shows "if ws_status r \<noteq> as_str Pending then w \<notin> set ids \<and> find_workflow db' w = Some r
    else if ws_queue_name r \<noteq> None
    then w \<in> set ids \<and> find_workflow db' w =
      Some (r\<lparr>ws_status := as_str Enqueued, ws_started_at_epoch_ms := None\<rparr>)
    else (case di_registry inner (ws_name r) of
        None \<Rightarrow> w \<notin> set ids \<and> find_workflow db' w = Some r
      | Some entry \<Rightarrow>
          \<exists>r'. find_workflow db' w = Some r' \<and> ws_recovery_attempts r' = ws_recovery_attempts r + 1 \<and>
            ws_inputs r' = ws_inputs r \<and>
            (if re_max_retries entry > 0 \<and> ws_recovery_attempts r > re_max_retries entry
             then w \<notin> set ids \<and> ws_status r' = as_str MaxRecoveryAttemptsExceeded
             else w \<in> set ids \<and> ws_status r' = as_str Pending \<and>
               (\<exists>k \<in> set ts. tk_handler k = re_handler entry \<and> tk_input k = ws_inputs r \<and>
                  wc_workflow_id (tk_context k) = w \<and> tk_format k = from_name (ws_serialization r))))"
proof (cases "ws_status r = as_str Pending")
  case False
  with recovery_pass_skips [OF assms(1,2), of sd inner se ex] assms(5) show ?thesis by simp
next
  case True
  obtain db1 i1 t1 db2 where d1: "find_workflow db1 w = Some r" "db_wf db1"
    and one: "recover_one sd inner se (recoverable r) db1 = ((i1, t1), db2)"
    and fin: "find_workflow db' w = find_workflow db2 w" "w \<in> set ids \<longleftrightarrow> i1 \<noteq> []" "set t1 \<subseteq> set ts"
    using recovery_pass [OF assms(1,2) True assms(3,4), of sd se] assms(5) by (metis fst_conv snd_conv)
  have w: "ws_workflow_uuid r = w" using assms(2) by (auto dest: find_workflow_SomeD)
  show ?thesis
  proof (cases "ws_queue_name r")
    case (Some q)
    have "queue_assigned w r" using True Some w by (simp add: queue_assigned_def)
    then have "i1 = [w]" "find_workflow db2 w =
        Some (r\<lparr>ws_status := as_str Enqueued, ws_started_at_epoch_ms := None\<rparr>)"
      using one Some d1 w find_workflow_SomeD [OF d1(1)]
      by (auto simp: recover_one_def recoverable_def clear_queue_assignment_def find_workflow_update
          sql_count_def sql_select_def filter_empty_conv split: bool.splits if_splits)
    with True Some fin show ?thesis by simp
  next
    case None
    show ?thesis
    proof (cases "di_registry inner (ws_name r)")
      case unreg: None
      then have "i1 = []" "db2 = db1" using one None by (simp_all add: recover_one_def recoverable_def)
      with True None unreg fin d1 show ?thesis by simp
    next
      case (Some entry)
      show ?thesis
        by (rule recover_one_direct [OF d1(1) True None Some refl, of sd se])
          (use one fin True None Some in \<open>auto split: if_splits\<close>)
    qed
  qed
qed

definition interrupted_db :: sysdb where
  "interrupted_db = sample_db\<lparr>workflow_status :=
     [fresh_row sample_input, fresh_row (sample_input\<lparr>in_workflow_id := ''q'', in_queue_name := Some ''jobs''\<rparr>)]\<rparr>"

definition sample_runner :: DbosInner where
  "sample_runner = sample_inner ''local''"

lemma interrupted_db_facts:
  "db_wf interrupted_db" "find_workflow interrupted_db ''wf'' = Some (fresh_row sample_input)"
  "sql_any (ws_executor_id (fresh_row sample_input)) [''local'']"
  "ws_application_version (fresh_row sample_input) = Some (di_application_version sample_runner)"
  "di_registry sample_runner ''checkout'' = Some sample_entry"
  by (simp_all add: interrupted_db_def db_wf_def workflows_ok_def keys_ok_def refs_ok_def uuids_def
      sample_defs dedup_entry_def find_workflow_def sample_runner_def sample_inner_def)

theorem recovery_resumes_pending_witness:
  "\<exists>ids ts db'. recover_pending_workflows mini_serde sample_runner (\<lambda>w. sample_start w) [''local''] interrupted_db =
     ((ids, ts), db') \<and> ''wf'' \<in> set ids \<and> (\<exists>k \<in> set ts. wc_workflow_id (tk_context k) = ''wf'')"
proof -
  obtain ids ts db' where run: "recover_pending_workflows mini_serde sample_runner (\<lambda>w. sample_start w)
      [''local''] interrupted_db = ((ids, ts), db')" by (metis surj_pair)
  from recovery_resumes_pending [OF interrupted_db_facts(1-4) run] run interrupted_db_facts(5) show ?thesis
    by (auto simp: sample_entry_def)
qed

text \<open>
  C14. The crash loop of a direct workflow ends in the dead-letter queue. A directly started workflow
  (one without a queue) with a positive retry limit m, whose executor dies before it finishes, is re-launched by exactly the first m
  recovery passes of that executor, whatever else happens to the database that leaves its row
  alone; the next pass moves it to MAX_RECOVERY_ATTEMPTS_EXCEEDED, it stays there with m + 2
  recorded attempts, and every awaiter gets the dead-letter error with the limit m. (A queued workflow is put back on its
  queue instead, and its attempts are not counted.)
\<close>

theorem crash_loop_is_dead_lettered:
  assumes "db_wf db" and "find_workflow db w = Some r" and "crash_loop_row inner name m 0 r"
    and "di_registry inner name = Some entry" and "re_max_retries entry = m" and "m > 0"
    and "\<forall>n. keeps_workflow w (others n)"
  shows "(w \<in> set (fst (fst (recover_pending_workflows sd inner (ses n) [di_executor_id inner]
            (recoveries sd inner ses others n db)))) \<longleftrightarrow> int n < m) \<and>
    (int n > m \<longrightarrow>
       get_status (recoveries sd inner ses others n db) w = Some ''MAX_RECOVERY_ATTEMPTS_EXCEEDED'' \<and>
       get_result vc NoChannel [recoveries sd inner ses others n db] \<lparr>wh_id = w, wh_kind = Polling\<rparr> =
         Some (Inl (dead_letter_queue w m)))"
proof -
  let ?db = "recoveries sd inner ses others n db"
  note st = crash_loop_state [OF assms, of sd ses n]
  obtain r' where r': "find_workflow ?db w = Some r'" "crash_loop_row inner name m n r'"
    using st by blast
  show ?thesis
    using crash_loop_pass(2) [OF conjunct1 [OF st] r' assms(4-6)] r' assms(6)
    by (auto simp: crash_loop_row_def get_status_def get_result_def poll_workflow_result_def
        outcome_result_def as_str.simps from_str_def)
qed

theorem crash_loop_is_dead_lettered_witness:
  "get_result mini_codec NoChannel
     [recoveries mini_serde sample_runner (\<lambda>n w. sample_start w) (\<lambda>n. id) 3 interrupted_db]
     \<lparr>wh_id = ''wf'', wh_kind = Polling\<rparr> = Some (Inl (dead_letter_queue ''wf'' 2))"
proof -
  have row: "crash_loop_row sample_runner ''checkout'' 2 0 (fresh_row sample_input)"
    by (simp add: crash_loop_row_def sample_runner_def sample_inner_def sample_defs fresh_row_def)
  have m: "re_max_retries sample_entry = 2" "(2::int) > 0" by (simp_all add: sample_entry_def)
  have k: "\<forall>n. keeps_workflow ''wf'' ((\<lambda>n. id) n)" by (simp add: keeps_workflow_def)
  show ?thesis
    using crash_loop_is_dead_lettered [OF interrupted_db_facts(1,2) row interrupted_db_facts(5) m k,
        where n = 3 and sd = mini_serde and ses = "\<lambda>n w. sample_start w" and vc = mini_codec] by simp
qed

end
