(* ===== verification/Dbos_Management.thy ===== *)
theory Dbos_Management
  imports Dbos_QueueDb
begin

text \<open>
  Workflow management of \<open>crates/dbos/src/db/management.rs\<close>: listing, step listing, cancel,
  resume, fork, delete and garbage collection. \<open>decode\<close> stands for \<open>decode_value\<close> or
  \<open>decode_input\<close> of the serializer. Postgres refuses a negative LIMIT or OFFSET, which is an error
  here too; the order of rows with equal sort keys, and of \<open>RETURNING\<close> lists, is the table's.
\<close>

definition INTERNAL_QUEUE_NAME :: string where
  "INTERNAL_QUEUE_NAME = ''_dbos_internal_queue''"

type_synonym 'j decoder = "string option \<Rightarrow> string option \<Rightarrow> DbosError + 'j"

subsection \<open>Listing\<close>

record 'j WorkflowStatus =
  wf_id :: string
  wf_status :: WorkflowStatusType
  wf_name :: string
  wf_queue_name :: "string option"
  wf_executor_id :: "string option"
  wf_application_version :: "string option"
  wf_recovery_attempts :: int
  wf_created_at :: int
  wf_updated_at :: int
  wf_completed_at :: "int option"
  wf_started_at :: "int option"
  wf_priority :: int
  wf_deduplication_id :: "string option"
  wf_parent_workflow_id :: "string option"
  wf_forked_from :: "string option"
  wf_was_forked_from :: bool
  wf_config_name :: "string option"
  wf_input :: "'j option"
  wf_output :: "'j option"
  wf_error :: "string option"

record 'j StepInfo =
  si_step_id :: int
  si_step_name :: string
  si_output :: "'j option"
  si_error :: "string option"
  si_child_workflow_id :: "string option"
  si_started_at :: "int option"
  si_completed_at :: "int option"

record ListWorkflowsFilter =
  lf_workflow_ids :: "string list option"
  lf_status :: "WorkflowStatusType list option"
  lf_workflow_name :: "string option"
  lf_queue_name :: "string option"
  lf_queues_only :: bool
  lf_application_version :: "string option"
  lf_executor_ids :: "string list option"
  lf_start_time :: "int option"
  lf_end_time :: "int option"
  lf_limit :: "int option"
  lf_offset :: "int option"
  lf_sort_desc :: bool

definition default_filter :: ListWorkflowsFilter where
  "default_filter = \<lparr>lf_workflow_ids = None, lf_status = None, lf_workflow_name = None,
     lf_queue_name = None, lf_queues_only = False, lf_application_version = None,
     lf_executor_ids = None, lf_start_time = None, lf_end_time = None, lf_limit = None,
     lf_offset = None, lf_sort_desc = False\<rparr>"

definition decode_opt :: "'j decoder \<Rightarrow> string option \<Rightarrow> string option \<Rightarrow> 'j option" where
  "decode_opt decode s ser =
     (case s of
        None \<Rightarrow> None
      | Some _ \<Rightarrow> (case decode s ser of Inl _ \<Rightarrow> None | Inr v \<Rightarrow> Some v))"

text \<open>A condition that is added only when the filter sets the field.\<close>

definition when_set :: "'a option \<Rightarrow> ('a \<Rightarrow> bool) \<Rightarrow> bool" where
  "when_set x P = (case x of None \<Rightarrow> True | Some v \<Rightarrow> P v)"

definition effective_status :: "ListWorkflowsFilter \<Rightarrow> WorkflowStatusType list option" where
  "effective_status f =
     (if lf_queues_only f \<and> lf_status f = None then Some [Enqueued, Pending, Delayed]
      else lf_status f)"

definition list_condition :: "ListWorkflowsFilter \<Rightarrow> workflow_row \<Rightarrow> bool" where
  "list_condition f r \<longleftrightarrow>
     when_set (lf_workflow_ids f) (\<lambda>ids. ws_workflow_uuid r \<in> set ids) \<and>
     when_set (effective_status f) (\<lambda>st. st = [] \<or> ws_status r \<in> as_str ` set st) \<and>
     when_set (lf_workflow_name f) (\<lambda>n. ws_name r = n) \<and>
     (if lf_queues_only f then ws_queue_name r \<noteq> None
      else when_set (lf_queue_name f) (\<lambda>q. sql_eq (ws_queue_name r) q)) \<and>
     when_set (lf_application_version f) (\<lambda>v. sql_eq (ws_application_version r) v) \<and>
     when_set (lf_executor_ids f) (\<lambda>es. es = [] \<or> sql_any (ws_executor_id r) es) \<and>
     when_set (lf_start_time f) (\<lambda>t. ws_created_at r \<ge> t) \<and>
     when_set (lf_end_time f) (\<lambda>t. ws_created_at r \<le> t)"

definition workflow_status_of ::
  "'j decoder \<Rightarrow> 'j decoder \<Rightarrow> workflow_row \<Rightarrow> 'j WorkflowStatus" where
  "workflow_status_of decode_input decode_value r =
     \<lparr>wf_id = ws_workflow_uuid r, wf_status = unwrap_or (from_str (ws_status r)) Pending,
      wf_name = ws_name r, wf_queue_name = ws_queue_name r, wf_executor_id = ws_executor_id r,
      wf_application_version = ws_application_version r,
      wf_recovery_attempts = ws_recovery_attempts r, wf_created_at = ws_created_at r,
      wf_updated_at = ws_updated_at r, wf_completed_at = ws_completed_at r,
      wf_started_at = ws_started_at_epoch_ms r, wf_priority = ws_priority r,
      wf_deduplication_id = ws_deduplication_id r,
      wf_parent_workflow_id = ws_parent_workflow_id r, wf_forked_from = ws_forked_from r,
      wf_was_forked_from = ws_was_forked_from r, wf_config_name = ws_config_name r,
      wf_input = decode_opt decode_input (ws_inputs r) (ws_serialization r),
      wf_output = decode_opt decode_value (ws_output r) (ws_serialization r),
      wf_error = ws_error r\<rparr>"

definition negative_limit :: sqlx_error where
  "negative_limit = Database (Some ''2201W'') ''LIMIT must not be negative''"

definition negative_offset :: sqlx_error where
  "negative_offset = Database (Some ''2201X'') ''OFFSET must not be negative''"

definition list_workflows ::
  "'j decoder \<Rightarrow> 'j decoder \<Rightarrow> ListWorkflowsFilter \<Rightarrow> sysdb \<Rightarrow> DbosError + 'j WorkflowStatus list" where
  "list_workflows decode_input decode_value f db =
     (if unwrap_or (lf_limit f) 0 < 0 then Inl (from_sqlx negative_limit)
      else if unwrap_or (lf_offset f) 0 < 0 then Inl (from_sqlx negative_offset)
      else
        let rows = sort_key (\<lambda>r. if lf_sort_desc f then - ws_created_at r else ws_created_at r)
                     (sql_select (list_condition f) (workflow_status db));
            after = drop (nat (unwrap_or (lf_offset f) 0)) rows;
            page = (case lf_limit f of None \<Rightarrow> after | Some l \<Rightarrow> sql_limit l after)
        in Inr (map (workflow_status_of decode_input decode_value) page))"

definition get_workflow_steps :: "'j decoder \<Rightarrow> string \<Rightarrow> sysdb \<Rightarrow> 'j StepInfo list" where
  "get_workflow_steps decode_value w db =
     map (\<lambda>r. \<lparr>si_step_id = oo_function_id r, si_step_name = oo_function_name r,
               si_output = decode_opt decode_value (oo_output r) (oo_serialization r),
               si_error = oo_error r, si_child_workflow_id = oo_child_workflow_id r,
               si_started_at = oo_started_at_epoch_ms r,
               si_completed_at = oo_completed_at_epoch_ms r\<rparr>)
       (sort_key oo_function_id
         (sql_select (\<lambda>r. oo_workflow_uuid r = w) (operation_outputs db)))"

subsection \<open>Cancel, resume, delete\<close>

definition existing_ids :: "string list \<Rightarrow> sysdb \<Rightarrow> string list" where
  "existing_ids ids db =
     map ws_workflow_uuid (sql_select (\<lambda>r. ws_workflow_uuid r \<in> set ids) (workflow_status db))"

definition cancel_row :: "int \<Rightarrow> workflow_row \<Rightarrow> workflow_row" where
  "cancel_row now r =
     r\<lparr>ws_status := as_str Cancelled, ws_updated_at := now, ws_completed_at := Some now,
       ws_started_at_epoch_ms := None, ws_queue_name := None, ws_deduplication_id := None\<rparr>"

definition cancel_workflows :: "int \<Rightarrow> string list \<Rightarrow> sysdb \<Rightarrow> string list \<times> sysdb" where
  "cancel_workflows now ids db =
     (existing_ids ids db,
      db\<lparr>workflow_status :=
           sql_update
             (\<lambda>r. ws_workflow_uuid r \<in> set ids \<and>
                  ws_status r \<notin> {as_str Success, as_str Error, as_str Cancelled})
             (cancel_row now) (workflow_status db)\<rparr>)"

definition resume_row :: "int \<Rightarrow> string \<Rightarrow> workflow_row \<Rightarrow> workflow_row" where
  "resume_row now queue_name r =
     r\<lparr>ws_status := as_str Enqueued, ws_queue_name := Some queue_name,
       ws_recovery_attempts := 0, ws_workflow_deadline_epoch_ms := None,
       ws_deduplication_id := None, ws_started_at_epoch_ms := None, ws_updated_at := now,
       ws_completed_at := None\<rparr>"

definition resume_workflows :: "int \<Rightarrow> string list \<Rightarrow> string \<Rightarrow> sysdb \<Rightarrow> string list \<times> sysdb" where
  "resume_workflows now ids queue_name db =
     (existing_ids ids db,
      db\<lparr>workflow_status :=
           sql_update
             (\<lambda>r. ws_workflow_uuid r \<in> set ids \<and>
                  ws_status r \<notin> {as_str Success, as_str Error})
             (resume_row now queue_name) (workflow_status db)\<rparr>)"

definition delete_workflows :: "string list \<Rightarrow> sysdb \<Rightarrow> sysdb" where
  "delete_workflows ids db = cascade_delete (\<lambda>r. ws_workflow_uuid r \<in> set ids) db"

definition cancel_all_before ::
  "'j decoder \<Rightarrow> 'j decoder \<Rightarrow> int \<Rightarrow> int \<Rightarrow> unit db_op" where
  "cancel_all_before decode_input decode_value now cutoff db =
     (case list_workflows decode_input decode_value
             (default_filter\<lparr>lf_status := Some [Pending, Enqueued, Delayed],
                             lf_end_time := Some cutoff\<rparr>) db of
        Inl e \<Rightarrow> (Inl e, db)
      | Inr found \<Rightarrow>
          let ids = map wf_id found
          in if ids \<noteq> [] then (Inr (), snd (cancel_workflows now ids db)) else (Inr (), db))"

subsection \<open>Fork\<close>

record ForkWorkflowInput =
  fk_original_workflow_id :: string
  fk_forked_workflow_id :: "string option"
  fk_start_step :: int
  fk_application_version :: "string option"
  fk_queue_name :: "string option"
  fk_queue_partition_key :: "string option"

definition fork_row ::
  "int \<Rightarrow> string \<Rightarrow> ForkWorkflowInput \<Rightarrow> workflow_row \<Rightarrow> workflow_row" where
  "fork_row now new_id i o_row =
     \<lparr>ws_workflow_uuid = new_id, ws_status = as_str Enqueued, ws_name = ws_name o_row,
      ws_queue_name = Some (unwrap_or (fk_queue_name i) INTERNAL_QUEUE_NAME),
      ws_authenticated_user = ws_authenticated_user o_row,
      ws_assumed_role = ws_assumed_role o_row,
      ws_authenticated_roles = ws_authenticated_roles o_row, ws_executor_id = None,
      ws_application_version = fk_application_version i,
      ws_application_id = ws_application_id o_row, ws_created_at = now, ws_updated_at = now,
      ws_recovery_attempts = 0, ws_workflow_timeout_ms = None,
      ws_workflow_deadline_epoch_ms = None, ws_inputs = ws_inputs o_row, ws_output = None,
      ws_error = None, ws_started_at_epoch_ms = None, ws_completed_at = None,
      ws_deduplication_id = None, ws_priority = 0,
      ws_queue_partition_key = fk_queue_partition_key i, ws_owner_xid = None,
      ws_parent_workflow_id = None, ws_class_name = ws_class_name o_row,
      ws_config_name = ws_config_name o_row, ws_serialization = ws_serialization o_row,
      ws_delay_until_epoch_ms = None, ws_rate_limited = False,
      ws_forked_from = Some (fk_original_workflow_id i), ws_was_forked_from = False\<rparr>"

text \<open>The steps, event history, latest events and stream entries below the start step.\<close>

definition copied_operations :: "string \<Rightarrow> string \<Rightarrow> int \<Rightarrow> sysdb \<Rightarrow> operation_row list" where
  "copied_operations new_id orig start db =
     map (\<lambda>r. r\<lparr>oo_workflow_uuid := new_id\<rparr>)
       (sql_select (\<lambda>r. oo_workflow_uuid r = orig \<and> oo_function_id r < start)
         (operation_outputs db))"

definition history_below :: "string \<Rightarrow> int \<Rightarrow> sysdb \<Rightarrow> event_history_row list" where
  "history_below orig start db =
     sql_select (\<lambda>h. eh_workflow_uuid h = orig \<and> eh_function_id h < start)
       (workflow_events_history db)"

definition copied_history :: "string \<Rightarrow> string \<Rightarrow> int \<Rightarrow> sysdb \<Rightarrow> event_history_row list" where
  "copied_history new_id orig start db =
     map (\<lambda>h. h\<lparr>eh_workflow_uuid := new_id\<rparr>) (history_below orig start db)"

text \<open>The join with \<open>MAX(function_id) GROUP BY key\<close> keeps the last value of each key.\<close>

definition latest_of :: "event_history_row list \<Rightarrow> event_history_row \<Rightarrow> bool" where
  "latest_of hs h \<longleftrightarrow>
     sql_max (map eh_function_id (sql_select (\<lambda>g. eh_key g = eh_key h) hs)) =
       Some (eh_function_id h)"

definition copied_events :: "string \<Rightarrow> string \<Rightarrow> int \<Rightarrow> sysdb \<Rightarrow> event_row list" where
  "copied_events new_id orig start db =
     map (\<lambda>h. \<lparr>ev_workflow_uuid = new_id, ev_key = eh_key h, ev_value = eh_value h,
               ev_serialization = eh_serialization h\<rparr>)
       (sql_select (latest_of (history_below orig start db)) (history_below orig start db))"

definition copied_streams :: "string \<Rightarrow> string \<Rightarrow> int \<Rightarrow> sysdb \<Rightarrow> stream_row list" where
  "copied_streams new_id orig start db =
     map (\<lambda>r. r\<lparr>st_workflow_uuid := new_id\<rparr>)
       (sql_select (\<lambda>r. st_workflow_uuid r = orig \<and> st_function_id r < start) (streams db))"

definition fork_workflow :: "string \<Rightarrow> int \<Rightarrow> ForkWorkflowInput \<Rightarrow> string db_op" where
  "fork_workflow uuid now i db =
     (let new_id = unwrap_or (fk_forked_workflow_id i) uuid;
          orig = fk_original_workflow_id i
      in case find_workflow db orig of
           None \<Rightarrow> (Inl (non_existent_workflow orig), db)
         | Some o_row \<Rightarrow>
             if workflow_exists db new_id
             then (Inl (from_sqlx (unique_violation ''workflow_status_pkey'')), db)
             else
               let db1 = db\<lparr>workflow_status :=
                     sql_update (\<lambda>r. ws_workflow_uuid r = orig)
                       (\<lambda>r. r\<lparr>ws_was_forked_from := True\<rparr>)
                       (workflow_status db @ [fork_row now new_id i o_row])\<rparr>
               in if fk_start_step i > 0
                  then (Inr new_id,
                        db1\<lparr>operation_outputs := operation_outputs db1 @
                               copied_operations new_id orig (fk_start_step i) db,
                            workflow_events_history := workflow_events_history db1 @
                               copied_history new_id orig (fk_start_step i) db,
                            workflow_events := workflow_events db1 @
                               copied_events new_id orig (fk_start_step i) db,
                            streams := streams db1 @
                               copied_streams new_id orig (fk_start_step i) db\<rparr>)
                  else (Inr new_id, db1))"

subsection \<open>Garbage collection\<close>

text \<open>
  \<open>ORDER BY created_at DESC LIMIT 1 OFFSET threshold - 1\<close>: the creation time of the
  threshold-th newest row, if there are that many.
\<close>

definition rows_cutoff :: "int option \<Rightarrow> sysdb \<Rightarrow> int option" where
  "rows_cutoff rows_threshold db =
     (case rows_threshold of
        None \<Rightarrow> None
      | Some threshold \<Rightarrow>
          if threshold > 0
          then (case sql_limit 1 (drop (nat (threshold - 1))
                       (rev (sort_key id (map ws_created_at (workflow_status db))))) of
                  [] \<Rightarrow> None
                | c # _ \<Rightarrow> Some c)
          else None)"

definition gc_cutoff :: "int option \<Rightarrow> int option \<Rightarrow> sysdb \<Rightarrow> int option" where
  "gc_cutoff cutoff rows_threshold db =
     (case rows_cutoff rows_threshold db of
        None \<Rightarrow> cutoff
      | Some rc \<Rightarrow> Some (case cutoff of None \<Rightarrow> rc | Some c \<Rightarrow> max c rc))"

definition garbage_collect :: "int option \<Rightarrow> int option \<Rightarrow> sysdb \<Rightarrow> sysdb" where
  "garbage_collect cutoff_epoch_ms rows_threshold db =
     (case gc_cutoff cutoff_epoch_ms rows_threshold db of
        None \<Rightarrow> db
      | Some cutoff \<Rightarrow>
          cascade_delete
            (\<lambda>r. ws_created_at r < cutoff \<and>
                 ws_status r \<notin> {as_str Pending, as_str Enqueued, as_str Delayed}) db)"

subsection \<open>Facts: cancel, resume, delete, collect\<close>

lemma set_existing_ids: "set (existing_ids ids db) = set ids \<inter> uuids db"
  by (auto simp: existing_ids_def sql_select_def uuids_def)

lemma cancel_db_wf: "db_wf db \<Longrightarrow> db_wf (snd (cancel_workflows now ids db))"
  unfolding cancel_workflows_def snd_conv
  by (rule db_wf_update_workflows) (auto simp: cancel_row_def dedup_entry_def)

lemma resume_db_wf: "db_wf db \<Longrightarrow> db_wf (snd (resume_workflows now ids q db))"
  unfolding resume_workflows_def snd_conv
  by (rule db_wf_update_workflows) (auto simp: resume_row_def dedup_entry_def)

lemma delete_db_wf: "db_wf db \<Longrightarrow> db_wf (delete_workflows ids db)"
  unfolding delete_workflows_def by (rule db_wf_cascade_delete)

lemma garbage_collect_db_wf: "db_wf db \<Longrightarrow> db_wf (garbage_collect c t db)"
  by (auto simp: garbage_collect_def db_wf_cascade_delete split: option.splits)

lemma cancel_all_before_db_wf: "preserves db_wf (cancel_all_before di dv now cutoff)"
  by (auto simp: preserves_def cancel_all_before_def Let_def cancel_db_wf split: sum.splits)

lemma find_workflow_cancel:
  "find_workflow (snd (cancel_workflows now ids db)) w =
     map_option (\<lambda>r. if ws_workflow_uuid r \<in> set ids \<and>
         ws_status r \<notin> {as_str Success, as_str Error, as_str Cancelled}
       then cancel_row now r else r) (find_workflow db w)"
  unfolding cancel_workflows_def snd_conv by (rule find_workflow_update) (simp add: cancel_row_def)

lemma find_workflow_resume:
  "find_workflow (snd (resume_workflows now ids q db)) w =
     map_option (\<lambda>r. if ws_workflow_uuid r \<in> set ids \<and>
         ws_status r \<notin> {as_str Success, as_str Error}
       then resume_row now q r else r) (find_workflow db w)"
  unfolding resume_workflows_def snd_conv by (rule find_workflow_update) (simp add: resume_row_def)

lemma find_workflow_cascade_delete:
  "db_wf db \<Longrightarrow> find_workflow (cascade_delete P db) w =
     (case find_workflow db w of None \<Rightarrow> None | Some r \<Rightarrow> if P r then None else Some r)"
  by (simp add: find_workflow_def cascade_delete_def Let_def find_key_delete db_wf_distinct_ids)

lemma find_operation_cascade_delete:
  assumes "db_wf db"
  shows "find_operation (cascade_delete P db) w f =
     (if find_workflow (cascade_delete P db) w = None then None else find_operation db w f)"
proof -
  let ?live = "\<lambda>w. w \<in> ws_workflow_uuid ` set (sql_delete P (workflow_status db))"
  have live: "?live w \<longleftrightarrow> find_workflow (cascade_delete P db) w \<noteq> None"
    by (auto simp: find_workflow_def cascade_delete_def Let_def find_key_None)
  have "find_key op_key (w, f) (filter (\<lambda>r. ?live (oo_workflow_uuid r)) t) =
      (if ?live w then find_key op_key (w, f) t else None)" for t
    by (induction t) auto
  then show ?thesis by (simp add: live find_operation_def cascade_delete_def Let_def)
qed

subsection \<open>Facts: fork\<close>

lemma fork_row_simps [simp]:
  "ws_workflow_uuid (fork_row now w i r) = w" "ws_status (fork_row now w i r) = as_str Enqueued"
  "dedup_entry (fork_row now w i r) = None" "ws_deduplication_id (fork_row now w i r) = None"
  "ws_name (fork_row now w i r) = ws_name r" "ws_inputs (fork_row now w i r) = ws_inputs r"
  "ws_queue_name (fork_row now w i r) = Some (unwrap_or (fk_queue_name i) INTERNAL_QUEUE_NAME)"
  "ws_application_version (fork_row now w i r) = fk_application_version i"
  "ws_forked_from (fork_row now w i r) = Some (fk_original_workflow_id i)"
  "ws_recovery_attempts (fork_row now w i r) = 0"
  by (simp_all add: fork_row_def dedup_entry_def)

lemma fold_max_in: "fold max xs (x :: int) \<in> insert x (set xs)"
proof (induction xs arbitrary: x)
  case (Cons y ys)
  from Cons [of "max y x"] show ?case by (auto simp: max_def)
qed simp

lemma sql_max_iff: "sql_max xs = Some m \<longleftrightarrow> m \<in> set xs \<and> (\<forall>y \<in> set xs. y \<le> m)"
proof (cases xs)
  case (Cons x ys)
  have top: "\<forall>y \<in> set xs. y \<le> fold max ys x" and mem: "fold max ys x \<in> set xs"
    using fold_max_ge [of x ys] fold_max_in [of ys x] Cons by auto
  have "fold max ys x = m" if "m \<in> set xs" "\<forall>y \<in> set xs. y \<le> m"
    using top mem that by (intro antisym) auto
  with top mem show ?thesis using Cons by auto
qed simp

lemma latest_of_iff:
  "latest_of hs h \<longleftrightarrow> (\<exists>g \<in> set hs. eh_key g = eh_key h \<and> eh_function_id g = eh_function_id h) \<and>
     (\<forall>g \<in> set hs. eh_key g = eh_key h \<longrightarrow> eh_function_id g \<le> eh_function_id h)"
  by (auto simp: latest_of_def sql_max_iff sql_select_def image_iff)

lemma latest_exists:
  assumes "h \<in> set hs"
  shows "\<exists>g \<in> set hs. eh_key g = eh_key h \<and> latest_of hs g"
proof -
  let ?xs = "map eh_function_id (sql_select (\<lambda>g. eh_key g = eh_key h) hs)"
  have "eh_function_id h \<in> set ?xs" using assms by (simp add: sql_select_def)
  then obtain m where m: "sql_max ?xs = Some m" using sql_max_ge by blast
  then have "m \<in> set ?xs" by (simp add: sql_max_iff)
  then obtain g where "g \<in> set hs" "eh_key g = eh_key h" "eh_function_id g = m"
    by (auto simp: sql_select_def)
  with m show ?thesis by (auto simp: latest_of_def)
qed

lemma history_below_iff:
  "h \<in> set (history_below orig start db) \<longleftrightarrow>
     h \<in> set (workflow_events_history db) \<and> eh_workflow_uuid h = orig \<and> eh_function_id h < start"
  by (auto simp: history_below_def sql_select_def)

text \<open>Shifting rows of one workflow to a fresh id keeps the keys distinct.\<close>

lemma distinct_shift:
  assumes "distinct (map key t)" and "inj_on g (set (filter P t))"
    and "\<And>x. x \<in> set (filter P t) \<Longrightarrow> g x \<notin> set (map key t)"
  shows "distinct (map key t @ map g (filter P t))"
proof -
  have "distinct (filter P t)" using assms(1) by (simp add: distinct_map)
  with assms(2) have "distinct (map g (filter P t))" by (simp add: distinct_map)
  moreover have "set (map key t) \<inter> set (map g (filter P t)) = {}"
  proof (rule equals0I)
    fix k assume "k \<in> set (map key t) \<inter> set (map g (filter P t))"
    then have k: "k \<in> set (map key t)" and "k \<in> g ` set (filter P t)" by simp_all
    then obtain y where "k = g y" "y \<in> set (filter P t)" by (elim imageE)
    with assms(3) [of y] k show False by simp
  qed
  ultimately show ?thesis using assms(1) by (simp only: distinct_append)
qed

lemma copied_operations_keys:
  assumes "db_wf db" and "w \<notin> uuids db"
  shows "distinct (map op_key (operation_outputs db @ copied_operations w orig start db))"
proof -
  let ?P = "\<lambda>r. oo_workflow_uuid r = orig \<and> oo_function_id r < start"
  have "distinct (map op_key (operation_outputs db) @
      map (\<lambda>r. (w, oo_function_id r)) (filter ?P (operation_outputs db)))"
  proof (rule distinct_shift)
    show "inj_on (\<lambda>r. (w, oo_function_id r)) (set (filter ?P (operation_outputs db)))"
      using assms(1) by (auto simp: db_wf_def keys_ok_def distinct_map inj_on_def)
    show "(w, oo_function_id x) \<notin> set (map op_key (operation_outputs db))" for x
      using db_wf_child_uuids(1) [OF assms(1)] assms(2) by auto
  qed (use assms(1) in \<open>simp add: db_wf_def keys_ok_def\<close>)
  then show ?thesis by (simp add: copied_operations_def sql_select_def comp_def)
qed

lemma copied_history_keys:
  assumes "db_wf db" and "w \<notin> uuids db"
  shows "distinct (map history_key (workflow_events_history db @ copied_history w orig start db))"
proof -
  let ?P = "\<lambda>h. eh_workflow_uuid h = orig \<and> eh_function_id h < start"
  have "distinct (map history_key (workflow_events_history db) @
      map (\<lambda>h. (w, eh_function_id h, eh_key h)) (filter ?P (workflow_events_history db)))"
  proof (rule distinct_shift)
    show "inj_on (\<lambda>h. (w, eh_function_id h, eh_key h)) (set (filter ?P (workflow_events_history db)))"
      using assms(1) by (auto simp: db_wf_def keys_ok_def distinct_map inj_on_def)
    show "(w, eh_function_id x, eh_key x) \<notin> set (map history_key (workflow_events_history db))" for x
      using db_wf_child_uuids(3) [OF assms(1)] assms(2) by auto
  qed (use assms(1) in \<open>simp add: db_wf_def keys_ok_def\<close>)
  then show ?thesis by (simp add: copied_history_def history_below_def sql_select_def comp_def)
qed

lemma copied_streams_keys:
  assumes "db_wf db" and "w \<notin> uuids db"
  shows "distinct (map stream_key (streams db @ copied_streams w orig start db))"
proof -
  let ?P = "\<lambda>r. st_workflow_uuid r = orig \<and> st_function_id r < start"
  have "distinct (map stream_key (streams db) @
      map (\<lambda>r. (w, st_key r, st_offset r)) (filter ?P (streams db)))"
  proof (rule distinct_shift)
    show "inj_on (\<lambda>r. (w, st_key r, st_offset r)) (set (filter ?P (streams db)))"
      using assms(1) by (auto simp: db_wf_def keys_ok_def distinct_map inj_on_def)
    show "(w, st_key x, st_offset x) \<notin> set (map stream_key (streams db))" for x
      using db_wf_child_uuids(4) [OF assms(1)] assms(2) by auto
  qed (use assms(1) in \<open>simp add: db_wf_def keys_ok_def\<close>)
  then show ?thesis by (simp add: copied_streams_def sql_select_def comp_def)
qed

lemma copied_events_keys:
  assumes "db_wf db" and "w \<notin> uuids db"
  shows "distinct (map event_key (workflow_events db @ copied_events w orig start db))"
proof -
  let ?hs = "history_below orig start db"
  let ?ls = "filter (latest_of ?hs) ?hs"
  have "inj_on (\<lambda>h. (w, eh_key h)) (set ?ls)"
  proof (rule inj_onI)
    fix x y assume xy: "x \<in> set ?ls" "y \<in> set ?ls" "(w, eh_key x) = (w, eh_key y)"
    then have "eh_function_id x = eh_function_id y"
      by (auto simp: latest_of_iff intro: antisym)
    with xy assms(1) show "x = y"
      by (auto simp: history_below_iff db_wf_def keys_ok_def distinct_map inj_on_def)
  qed
  moreover have "distinct ?hs"
    using assms(1) by (simp add: history_below_def sql_select_def db_wf_def keys_ok_def distinct_map)
  ultimately have "distinct (map (\<lambda>h. (w, eh_key h)) ?ls)" by (simp add: distinct_map)
  moreover have "w \<notin> ev_workflow_uuid ` set (workflow_events db)"
    using db_wf_child_uuids(2) [OF assms(1)] assms(2) by auto
  ultimately show ?thesis
    using assms(1) by (auto simp: copied_events_def sql_select_def comp_def db_wf_def keys_ok_def)
qed

text \<open>The workflow table after a fork, and the whole effect of a successful fork.\<close>

definition fork_base :: "int \<Rightarrow> string \<Rightarrow> ForkWorkflowInput \<Rightarrow> workflow_row \<Rightarrow> sysdb \<Rightarrow> sysdb" where
  "fork_base now new_id i o_row db =
     db\<lparr>workflow_status :=
          sql_update (\<lambda>r. ws_workflow_uuid r = fk_original_workflow_id i)
            (\<lambda>r. r\<lparr>ws_was_forked_from := True\<rparr>)
            (workflow_status db @ [fork_row now new_id i o_row])\<rparr>"

lemma fork_InrE:
  assumes "fork_workflow uuid now i db = (Inr nid, db')"
  obtains o_row where "nid = unwrap_or (fk_forked_workflow_id i) uuid"
    and "find_workflow db (fk_original_workflow_id i) = Some o_row" and "nid \<notin> uuids db"
    and "db' = (if fk_start_step i > 0
      then (fork_base now nid i o_row db)
        \<lparr>operation_outputs := operation_outputs db @
             copied_operations nid (fk_original_workflow_id i) (fk_start_step i) db,
         workflow_events_history := workflow_events_history db @
             copied_history nid (fk_original_workflow_id i) (fk_start_step i) db,
         workflow_events := workflow_events db @
             copied_events nid (fk_original_workflow_id i) (fk_start_step i) db,
         streams := streams db @
             copied_streams nid (fk_original_workflow_id i) (fk_start_step i) db\<rparr>
      else fork_base now nid i o_row db)"
  using assms
  by (auto simp: fork_workflow_def Let_def fork_base_def workflow_exists_iff
      split: option.splits if_splits)

lemma fork_base_db_wf:
  assumes "db_wf db" and "nid \<notin> uuids db"
  shows "db_wf (fork_base now nid i o_row db)"
    and "uuids (fork_base now nid i o_row db) = insert nid (uuids db)"
proof -
  let ?db0 = "db\<lparr>workflow_status := workflow_status db @ [fork_row now nid i o_row]\<rparr>"
  have base: "fork_base now nid i o_row db = ?db0\<lparr>workflow_status :=
      sql_update (\<lambda>r. ws_workflow_uuid r = fk_original_workflow_id i)
        (\<lambda>r. r\<lparr>ws_was_forked_from := True\<rparr>) (workflow_status ?db0)\<rparr>"
    by (simp add: fork_base_def)
  have wf0: "db_wf ?db0" using assms by (intro db_wf_insert_workflow) simp_all
  show "db_wf (fork_base now nid i o_row db)"
    unfolding base by (rule db_wf_update_workflows [OF wf0]) (simp_all add: dedup_entry_def)
  have "uuids (fork_base now nid i o_row db) = uuids ?db0"
    unfolding base by (rule uuids_update) simp
  then show "uuids (fork_base now nid i o_row db) = insert nid (uuids db)"
    by (auto simp: uuids_def)
qed

lemma fork_base_frame [simp]:
  "operation_outputs (fork_base now nid i o_row db) = operation_outputs db"
  "workflow_events (fork_base now nid i o_row db) = workflow_events db"
  "workflow_events_history (fork_base now nid i o_row db) = workflow_events_history db"
  "streams (fork_base now nid i o_row db) = streams db"
  "notifications (fork_base now nid i o_row db) = notifications db"
  by (simp_all add: fork_base_def)

lemma copied_uuids:
  "oo_workflow_uuid ` set (copied_operations w orig start db) \<subseteq> {w}"
  "eh_workflow_uuid ` set (copied_history w orig start db) \<subseteq> {w}"
  "ev_workflow_uuid ` set (copied_events w orig start db) \<subseteq> {w}"
  "st_workflow_uuid ` set (copied_streams w orig start db) \<subseteq> {w}"
  by (auto simp: copied_operations_def copied_history_def copied_events_def copied_streams_def)

lemma image_append_subset:
  "f ` set xs \<subseteq> U \<Longrightarrow> f ` set ys \<subseteq> {w} \<Longrightarrow> f ` set (xs @ ys) \<subseteq> insert w U"
  by (auto simp: image_Un)

lemma fork_db_wf: "preserves db_wf (fork_workflow uuid now i)"
proof (rule preservesI)
  fix db assume wf: "db_wf db"
  show "db_wf (snd (fork_workflow uuid now i db))"
  proof (cases "fst (fork_workflow uuid now i db)")
    case (Inl e)
    with wf show ?thesis
      by (auto simp: fork_workflow_def Let_def split: option.splits if_splits)
  next
    case (Inr nid)
    let ?db' = "snd (fork_workflow uuid now i db)"
    let ?o = "fk_original_workflow_id i" and ?s = "fk_start_step i"
    from Inr have "fork_workflow uuid now i db = (Inr nid, ?db')" by (metis prod.collapse)
    then obtain o_row where new: "nid \<notin> uuids db"
      and db': "?db' = (if ?s > 0 then (fork_base now nid i o_row db)
        \<lparr>operation_outputs := operation_outputs db @ copied_operations nid ?o ?s db,
         workflow_events_history := workflow_events_history db @ copied_history nid ?o ?s db,
         workflow_events := workflow_events db @ copied_events nid ?o ?s db,
         streams := streams db @ copied_streams nid ?o ?s db\<rparr>
        else fork_base now nid i o_row db)"
      by (rule fork_InrE)
    note base = fork_base_db_wf [OF wf new]
    let ?b0 = "fork_base now nid i o_row db"
    note sub = copied_uuids [of nid ?o ?s db] db_wf_child_uuids [OF wf]
    have in1: "oo_workflow_uuid ` set (operation_outputs db @ copied_operations nid ?o ?s db) \<subseteq> insert nid (uuids db)"
      and in2: "eh_workflow_uuid ` set (workflow_events_history db @ copied_history nid ?o ?s db) \<subseteq> insert nid (uuids db)"
      and in3: "ev_workflow_uuid ` set (workflow_events db @ copied_events nid ?o ?s db) \<subseteq> insert nid (uuids db)"
      and in4: "st_workflow_uuid ` set (streams db @ copied_streams nid ?o ?s db) \<subseteq> insert nid (uuids db)"
      using image_append_subset [OF sub(5,1)] image_append_subset [OF sub(7,2)]
        image_append_subset [OF sub(6,3)] image_append_subset [OF sub(8,4)] by simp_all
    have "db_wf (?b0\<lparr>operation_outputs := operation_outputs db @ copied_operations nid ?o ?s db\<rparr>)"
      by (rule db_wf_replace(1) [OF base(1) copied_operations_keys [OF wf new]]) (simp only: base(2) in1)
    then have "db_wf (?b0
        \<lparr>operation_outputs := operation_outputs db @ copied_operations nid ?o ?s db,
         workflow_events_history := workflow_events_history db @ copied_history nid ?o ?s db\<rparr>)"
      by (rule db_wf_replace(3) [OF _ copied_history_keys [OF wf new]])
        (simp only: uuids_frame base(2) in2)
    then have "db_wf (?b0
        \<lparr>operation_outputs := operation_outputs db @ copied_operations nid ?o ?s db,
         workflow_events_history := workflow_events_history db @ copied_history nid ?o ?s db,
         workflow_events := workflow_events db @ copied_events nid ?o ?s db\<rparr>)"
      by (rule db_wf_replace(2) [OF _ copied_events_keys [OF wf new]])
        (simp only: uuids_frame base(2) in3)
    then have "db_wf (?b0
        \<lparr>operation_outputs := operation_outputs db @ copied_operations nid ?o ?s db,
         workflow_events_history := workflow_events_history db @ copied_history nid ?o ?s db,
         workflow_events := workflow_events db @ copied_events nid ?o ?s db,
         streams := streams db @ copied_streams nid ?o ?s db\<rparr>)"
      by (rule db_wf_replace(4) [OF _ copied_streams_keys [OF wf new]])
        (simp only: uuids_frame base(2) in4)
    with base(1) db' show ?thesis by simp
  qed
qed

lemma find_copied_operation:
  "find_key op_key (w, f) (copied_operations nid orig start db) =
     (if w = nid \<and> f < start
      then map_option (\<lambda>r. r\<lparr>oo_workflow_uuid := nid\<rparr>) (find_operation db orig f) else None)"
proof -
  have "find_key op_key (w, f) (map (\<lambda>r. r\<lparr>oo_workflow_uuid := nid\<rparr>)
      (filter (\<lambda>r. oo_workflow_uuid r = orig \<and> oo_function_id r < start) t)) =
    (if w = nid \<and> f < start
      then map_option (\<lambda>r. r\<lparr>oo_workflow_uuid := nid\<rparr>) (find_key op_key (orig, f) t) else None)" for t
    by (induction t) auto
  then show ?thesis by (simp add: copied_operations_def sql_select_def find_operation_def)
qed

lemma find_copied_event:
  assumes "find_key event_key (nid, k) (copied_events nid orig start db) = Some e"
  shows "\<exists>h \<in> set (history_below orig start db). eh_key h = k \<and> ev_value e = eh_value h \<and>
    ev_serialization e = eh_serialization h \<and>
    list_all (\<lambda>g. eh_key g \<noteq> k \<or> eh_function_id g \<le> eh_function_id h) (history_below orig start db)"
  using find_key_SomeD [OF assms]
  by (auto simp: copied_events_def sql_select_def latest_of_iff list_all_iff)

lemma copied_event_none:
  "find_key event_key (nid, k) (copied_events nid orig start db) = None \<longleftrightarrow>
     list_all (\<lambda>g. eh_key g \<noteq> k) (history_below orig start db)"
proof -
  have "(nid, k) \<notin> event_key ` set (copied_events nid orig start db) \<longleftrightarrow>
      (\<forall>h \<in> set (history_below orig start db). latest_of (history_below orig start db) h \<longrightarrow> eh_key h \<noteq> k)"
    by (auto simp: copied_events_def sql_select_def image_image image_iff)
  then show ?thesis
    using latest_exists [of _ "history_below orig start db"]
    by (auto simp: find_key_None list_all_iff)
qed

lemma find_workflow_fork_base:
  assumes "nid \<notin> uuids db" and "fk_original_workflow_id i \<in> uuids db"
  shows "find_workflow (fork_base now nid i o_row db) w =
    (if w = nid then Some (fork_row now nid i o_row)
     else if w = fk_original_workflow_id i
     then map_option (\<lambda>r. r\<lparr>ws_was_forked_from := True\<rparr>) (find_workflow db w)
     else find_workflow db w)"
proof -
  have ne: "nid \<noteq> fk_original_workflow_id i" using assms by auto
  have "find_workflow (fork_base now nid i o_row db) w =
      map_option (\<lambda>r. if ws_workflow_uuid r = fk_original_workflow_id i
        then r\<lparr>ws_was_forked_from := True\<rparr> else r)
        (find_key ws_workflow_uuid w (workflow_status db @ [fork_row now nid i o_row]))"
    unfolding fork_base_def find_workflow_def by (simp add: find_key_update del: sql_update_append)
  also have "find_key ws_workflow_uuid w (workflow_status db @ [fork_row now nid i o_row]) =
      (if w = nid then Some (fork_row now nid i o_row) else find_workflow db w)"
    using assms(1) find_key_None [of ws_workflow_uuid nid "workflow_status db"]
    by (cases "find_workflow db w") (auto simp: find_key_append find_workflow_def uuids_def)
  finally show ?thesis
    using ne by (cases "find_workflow db w") (auto dest: find_workflow_SomeD)
qed

subsection \<open>Properties\<close>

text \<open>
  C35. Cancelling stops a workflow at its next step. The call reports exactly the ids that exist;
  every listed workflow that is not SUCCESS or ERROR is CANCELLED afterwards (also one that was in
  the dead-letter status), off its queue and without deduplication id, and any step lookup in it
  fails with \<open>WorkflowCancelled\<close>; all other workflows and all recorded steps are unchanged.
\<close>

theorem cancel_stops_at_next_step:
  assumes "cancel_workflows now ids db = (found, db')" and "find_workflow db w = Some r"
  shows "set found = set ids \<inter> uuids db \<and> operation_outputs db' = operation_outputs db \<and>
    (if w \<in> set ids \<and> ws_status r \<noteq> as_str Success \<and> ws_status r \<noteq> as_str Error
     then \<exists>r'. find_workflow db' w = Some r' \<and> ws_status r' = as_str Cancelled \<and>
       (ws_status r = as_str Cancelled \<or>
        ws_queue_name r' = None \<and> ws_deduplication_id r' = None \<and> ws_completed_at r' = Some now) \<and>
       check_operation_execution w f name db' = Inl (workflow_cancelled w)
     else find_workflow db' w = Some r)"
proof -
  have db': "db' = snd (cancel_workflows now ids db)" and found: "found = existing_ids ids db"
    using assms(1) by (auto simp: cancel_workflows_def)
  have id: "ws_workflow_uuid r = w" using assms(2) by (auto dest: find_workflow_SomeD)
  have fnd: "find_workflow db' w = Some (if w \<in> set ids \<and>
      ws_status r \<notin> {as_str Success, as_str Error, as_str Cancelled} then cancel_row now r else r)"
    using id assms(2) unfolding db' find_workflow_cancel by simp
  have ops: "operation_outputs db' = operation_outputs db"
    by (simp add: db' cancel_workflows_def)
  have fail: "check_operation_execution w f name db' = Inl (workflow_cancelled w)"
    if "find_workflow db' w = Some r'" "ws_status r' = as_str Cancelled" for r'
    using that by (simp add: check_operation_execution_def get_status_def)
  show ?thesis
  proof (cases "w \<in> set ids \<and> ws_status r \<noteq> as_str Success \<and> ws_status r \<noteq> as_str Error")
    case True
    show ?thesis
    proof (cases "ws_status r = as_str Cancelled")
      case True
      with fnd have "find_workflow db' w = Some r" by simp
      with True fail [OF this] show ?thesis
        using ops by (simp add: found set_existing_ids)
    next
      case False
      with fnd True have c: "find_workflow db' w = Some (cancel_row now r)" by simp
      with True fail [OF c] ops show ?thesis by (simp add: found set_existing_ids cancel_row_def)
    qed
  next
    case False
    with fnd have "find_workflow db' w = Some r" by auto
    with False ops show ?thesis by (auto simp: found set_existing_ids)
  qed
qed

theorem cancel_stops_at_next_step_witness:
  "check_operation_execution ''wf'' 0 ''charge'' (snd (cancel_workflows 9 [''wf''] sample_db_op)) =
     Inl (workflow_cancelled ''wf'')"
proof -
  have f: "find_workflow sample_db_op ''wf'' = Some (fresh_row sample_input)"
    by (simp add: sample_db_op_def sample_find)
  obtain found db' where c: "cancel_workflows 9 [''wf''] sample_db_op = (found, db')" by force
  from cancel_stops_at_next_step [OF c f, of 0 "''charge''"] c show ?thesis by auto
qed

text \<open>
  C34. A fork replays the original up to the start step. A successful fork creates an ENQUEUED
  workflow with the original's name and inputs; at every step id below the start step it has the
  original's recorded operation, from the start step on it has none; each event key has the last
  value the original published below the start step. The original only gains the mark that it was
  forked; every other workflow and its steps are unchanged, and the constraints hold again.
\<close>

theorem fork_copies_prefix:
  assumes "db_wf db" and "fork_workflow uuid now i db = (Inr nid, db')"
    and "start = fk_start_step i" and "start > 0" and "orig = fk_original_workflow_id i"
  shows "\<exists>r. find_workflow db orig = Some r \<and>
    find_workflow db' nid = Some (fork_row now nid i r) \<and>
    find_workflow db' orig = Some (r\<lparr>ws_was_forked_from := True\<rparr>) \<and>
    find_operation db' nid f =
      (if f < start then map_option (\<lambda>o_op. o_op\<lparr>oo_workflow_uuid := nid\<rparr>) (find_operation db orig f)
       else None) \<and>
    (case find_event db' nid k of
       None \<Rightarrow> list_all (\<lambda>h. eh_key h \<noteq> k) (history_below orig start db)
     | Some e \<Rightarrow> list_ex (\<lambda>h. eh_key h = k \<and> ev_value e = eh_value h \<and>
         ev_serialization e = eh_serialization h \<and>
         list_all (\<lambda>g. eh_key g \<noteq> k \<or> eh_function_id g \<le> eh_function_id h)
           (history_below orig start db)) (history_below orig start db)) \<and>
    (v = nid \<or> find_operation db' v f = find_operation db v f \<and>
       find_event db' v k = find_event db v k \<and>
       (v = orig \<or> find_workflow db' v = find_workflow db v)) \<and>
    db_wf db'"
proof -
  obtain r where r: "find_workflow db orig = Some r" and new: "nid \<notin> uuids db"
    and db': "db' = (fork_base now nid i r db)
        \<lparr>operation_outputs := operation_outputs db @ copied_operations nid orig start db,
         workflow_events_history := workflow_events_history db @ copied_history nid orig start db,
         workflow_events := workflow_events db @ copied_events nid orig start db,
         streams := streams db @ copied_streams nid orig start db\<rparr>"
    by (rule fork_InrE [OF assms(2)]) (use assms(3-5) in simp)
  have orig: "orig \<in> uuids db" using r by (simp flip: workflow_exists_iff add: workflow_exists_def)
  have wfl: "find_workflow db' w = (if w = nid then Some (fork_row now nid i r)
      else if w = orig then map_option (\<lambda>r. r\<lparr>ws_was_forked_from := True\<rparr>) (find_workflow db w)
      else find_workflow db w)" for w
    using find_workflow_fork_base [OF new, of i now r w] orig assms(5) by (simp add: db')
  have no_op: "find_operation db nid f = None"
    using db_wf_child_uuids(1) [OF assms(1)] new by (auto simp: find_operation_def find_key_None)
  have no_ev: "find_event db nid k = None"
    using db_wf_child_uuids(2) [OF assms(1)] new by (auto simp: find_event_def find_key_None)
  have ops: "find_operation db' w f = (case find_operation db w f of
      None \<Rightarrow> find_key op_key (w, f) (copied_operations nid orig start db) | Some x \<Rightarrow> Some x)" for w
    by (simp add: db' find_operation_def find_key_append)
  have evs: "find_event db' w k = (case find_event db w k of
      None \<Rightarrow> find_key event_key (w, k) (copied_events nid orig start db) | Some x \<Rightarrow> Some x)" for w
    by (simp add: db' find_event_def find_key_append)
  have ev_other: "find_key event_key (v, k) (copied_events nid orig start db) = None" if "v \<noteq> nid"
    using that by (auto simp: find_key_None copied_events_def)
  have ev_new: "case find_event db' nid k of
       None \<Rightarrow> list_all (\<lambda>h. eh_key h \<noteq> k) (history_below orig start db)
     | Some e \<Rightarrow> list_ex (\<lambda>h. eh_key h = k \<and> ev_value e = eh_value h \<and>
         ev_serialization e = eh_serialization h \<and>
         list_all (\<lambda>g. eh_key g \<noteq> k \<or> eh_function_id g \<le> eh_function_id h)
           (history_below orig start db)) (history_below orig start db)"
    using copied_event_none [of nid k orig start db] find_copied_event [of nid k orig start db]
    by (auto simp: evs no_ev list_ex_iff split: option.splits)
  have other: "v = nid \<or> find_operation db' v f = find_operation db v f \<and>
       find_event db' v k = find_event db v k \<and>
       (v = orig \<or> find_workflow db' v = find_workflow db v)"
    using wfl [of v] ev_other by (auto simp: ops evs find_copied_operation split: option.splits)
  have "db_wf db'" using preservesD [OF fork_db_wf assms(1), of uuid now i] assms(2) by simp
  then show ?thesis
    using r wfl [of nid] wfl [of orig] orig new ev_new other
    by (auto simp: ops no_op find_copied_operation)
qed

definition sample_fork :: ForkWorkflowInput where
  "sample_fork = \<lparr>fk_original_workflow_id = ''wf'', fk_forked_workflow_id = Some ''wf2'',
     fk_start_step = 1, fk_application_version = None, fk_queue_name = None,
     fk_queue_partition_key = None\<rparr>"

lemma sample_db_op_wf: "db_wf sample_db_op"
  by (simp add: sample_db_op_def sample_defs db_wf_def workflows_ok_def keys_ok_def refs_ok_def
      uuids_def dedup_entry_def)

theorem fork_copies_prefix_witness:
  "\<exists>db'. fork_workflow ''u'' 50 sample_fork sample_db_op = (Inr ''wf2'', db') \<and>
     map_option oo_output (find_operation db' ''wf2'' 0) = Some (Some ''42'') \<and>
     find_operation db' ''wf2'' 1 = None"
proof -
  have "find_workflow sample_db_op ''wf'' = Some (fresh_row sample_input)"
    "\<not> workflow_exists sample_db_op ''wf2''"
    by (simp_all add: sample_db_op_def sample_find workflow_exists_def find_workflow_def sample_defs)
  then obtain db' where f: "fork_workflow ''u'' 50 sample_fork sample_db_op = (Inr ''wf2'', db')"
    by (auto simp: fork_workflow_def sample_fork_def Let_def)
  have s: "1 = fk_start_step sample_fork" "(1::int) > 0" "''wf'' = fk_original_workflow_id sample_fork"
    by (simp_all add: sample_fork_def)
  from fork_copies_prefix [OF sample_db_op_wf f s, of 0] fork_copies_prefix [OF sample_db_op_wf f s, of 1]
  have "find_operation db' ''wf2'' 1 = None"
    and "find_operation db' ''wf2'' 0 = map_option (\<lambda>o_op. o_op\<lparr>oo_workflow_uuid := ''wf2''\<rparr>)
      (find_operation sample_db_op ''wf'' 0)"
    by auto
  with f show ?thesis by (simp add: sample_db_op_facts(2) operation_values_def)
qed

text \<open>
  C36. Garbage collection removes old finished workflows and nothing else. With an effective
  cutoff (the later of the given time and the creation time of the threshold-th newest row) a
  workflow disappears, with its recorded steps, exactly when it was created before the cutoff and
  is neither PENDING, ENQUEUED nor DELAYED; with no effective cutoff nothing changes.
\<close>

theorem garbage_collect_spares_live:
  assumes "db_wf db"
  shows "(case gc_cutoff cutoff threshold db of
      None \<Rightarrow> garbage_collect cutoff threshold db = db
    | Some c \<Rightarrow>
        (case find_workflow db w of
           None \<Rightarrow> find_workflow (garbage_collect cutoff threshold db) w = None
         | Some r \<Rightarrow>
             if ws_created_at r < c \<and>
                ws_status r \<notin> {as_str Pending, as_str Enqueued, as_str Delayed}
             then find_workflow (garbage_collect cutoff threshold db) w = None \<and>
                  find_operation (garbage_collect cutoff threshold db) w f = None
             else find_workflow (garbage_collect cutoff threshold db) w = Some r \<and>
                  find_operation (garbage_collect cutoff threshold db) w f = find_operation db w f)) \<and>
    db_wf (garbage_collect cutoff threshold db)"
  using assms garbage_collect_db_wf [OF assms]
  by (auto simp: garbage_collect_def find_workflow_cascade_delete find_operation_cascade_delete
      split: option.splits)

theorem garbage_collect_spares_live_witness:
  "find_workflow (garbage_collect (Some 1000) None sample_db_op) ''wf'' = Some (fresh_row sample_input)"
proof -
  have "find_workflow sample_db_op ''wf'' = Some (fresh_row sample_input)"
    by (simp add: sample_db_op_def sample_find)
  then show ?thesis
    using garbage_collect_spares_live [OF sample_db_op_wf, of "Some 1000" None "''wf''" 0]
    by (simp add: gc_cutoff_def rows_cutoff_def)
qed

text \<open>
  Resuming puts a workflow back to work. Every listed workflow that is not SUCCESS or ERROR,
  also a cancelled or dead-lettered one, is ENQUEUED on the given queue with its recovery count
  at zero and no deadline, deduplication id or start time, its recorded steps are kept, and its
  step lookups answer again; finished workflows are left alone.
\<close>

theorem resume_restarts_unfinished:
  assumes "resume_workflows now ids q db = (found, db')" and "find_workflow db w = Some r"
  shows "set found = set ids \<inter> uuids db \<and> operation_outputs db' = operation_outputs db \<and>
    (if w \<in> set ids \<and> ws_status r \<noteq> as_str Success \<and> ws_status r \<noteq> as_str Error
     then \<exists>r'. find_workflow db' w = Some r' \<and> ws_status r' = as_str Enqueued \<and>
       ws_queue_name r' = Some q \<and> ws_recovery_attempts r' = 0 \<and>
       ws_workflow_deadline_epoch_ms r' = None \<and> ws_deduplication_id r' = None \<and>
       ws_started_at_epoch_ms r' = None \<and>
       check_operation_execution w f name db' =
         (case find_operation db w f of
            None \<Rightarrow> Inr None
          | Some x \<Rightarrow> if oo_function_name x = name then Inr (Some (recorded x))
              else Inl (unexpected_step w f name (oo_function_name x)))
     else find_workflow db' w = Some r)"
proof -
  have db': "db' = snd (resume_workflows now ids q db)" and found: "found = existing_ids ids db"
    using assms(1) by (auto simp: resume_workflows_def)
  have id: "ws_workflow_uuid r = w" using assms(2) by (auto dest: find_workflow_SomeD)
  have fnd: "find_workflow db' w = Some (if w \<in> set ids \<and>
      ws_status r \<notin> {as_str Success, as_str Error} then resume_row now q r else r)"
    using id assms(2) unfolding db' find_workflow_resume by simp
  have ops: "operation_outputs db' = operation_outputs db" "find_operation db' w f = find_operation db w f"
    by (simp_all add: db' resume_workflows_def)
  show ?thesis
    using fnd ops
    by (auto simp: found set_existing_ids resume_row_def check_operation_execution_def get_status_def
        split: option.splits)
qed

theorem resume_restarts_unfinished_witness:
  "check_operation_execution ''wf'' 0 ''charge''
     (snd (resume_workflows 20 [''wf''] ''q'' (snd (cancel_workflows 9 [''wf''] sample_db_op)))) =
   Inr (Some (recorded (operation_values 5 ''wf'' 0 ''charge'' (Some ''42'') None None
     (Some ''portable_json''))))"
proof -
  let ?db = "snd (cancel_workflows 9 [''wf''] sample_db_op)"
  have f: "find_workflow ?db ''wf'' = Some (cancel_row 9 (fresh_row sample_input))"
    by (simp add: find_workflow_cancel sample_db_op_def sample_find)
  have o: "find_operation ?db ''wf'' 0 = find_operation sample_db_op ''wf'' 0"
    by (simp add: cancel_workflows_def)
  obtain found db' where r: "resume_workflows 20 [''wf''] ''q'' ?db = (found, db')" by force
  from resume_restarts_unfinished [OF r f, of 0 "''charge''"] r o sample_db_op_facts(2)
  show ?thesis by (auto simp: cancel_row_def)
qed

end
