(* ===== verification/Dbos_System.thy ===== *)
theory Dbos_System
  imports Dbos_Recovery Dbos_Management
begin

text \<open>
  The system database under every operation of the runtime together: a datatype of the calls that
  write it, the constraints they all keep, and what they never do to a finished workflow.
\<close>

subsection \<open>Calls\<close>

datatype 'j db_call =
    StartCall serde DbosInner start_env string "string option" WorkflowOptions
      "(WorkflowContext \<times> int) option" Format bool
  | EnqueueCall DbosInner start_env string string "string option" EnqueueOptions
  | OutcomeCall error_serde int string Format "DbosError + string"
  | RecordCall int string int string "string option" "string option" "string option" "string option"
  | SendCall string int string string string string
  | ConsumeCall string string
  | EventCall string string string string
  | HistoryCall string int string string string
  | StreamCall string int string string "string option"
  | PromoteCall int
  | ClearCall string
  | DequeueCall DequeueInput int int "string \<Rightarrow> bool"
  | CancelCall int "string list"
  | ResumeCall int "string list" string
  | DeleteCall "string list"
  | CancelBeforeCall "'j decoder" "'j decoder" int int
  | ForkCall string int ForkWorkflowInput
  | CollectCall "int option" "int option"

fun exec_call :: "'j db_call \<Rightarrow> sysdb \<Rightarrow> sysdb" where
  "exec_call (StartCall sd inner se name inp opts parent fmt rcv) db =
     snd (start_workflow sd inner se name inp opts parent fmt rcv db)"
| "exec_call (EnqueueCall inner se q name inp opts) db =
     snd (enqueue_workflow inner se q name inp opts db)"
| "exec_call (OutcomeCall es now w fmt result) db = record_outcome es now w fmt result db"
| "exec_call (RecordCall now w f n out err ch ser) db =
     snd (record_operation_result now w f n out err ch ser db)"
| "exec_call (SendCall u now dest topic message ser) db =
     snd (insert_notification u now dest topic message ser db)"
| "exec_call (ConsumeCall dest topic) db = snd (consume_oldest_notification dest topic db)"
| "exec_call (EventCall w k v ser) db = snd (upsert_workflow_event w k v ser db)"
| "exec_call (HistoryCall w f k v ser) db = snd (insert_workflow_event_history w f k v ser db)"
| "exec_call (StreamCall w f k v ser) db = snd (write_stream_entry w f k v ser db)"
| "exec_call (PromoteCall now) db = transition_delayed_workflows now db"
| "exec_call (ClearCall w) db = snd (clear_queue_assignment w db)"
| "exec_call (DequeueCall i now1 now2 locked) db = snd (dequeue_workflows i now1 now2 locked db)"
| "exec_call (CancelCall now ids) db = snd (cancel_workflows now ids db)"
| "exec_call (ResumeCall now ids q) db = snd (resume_workflows now ids q db)"
| "exec_call (DeleteCall ids) db = delete_workflows ids db"
| "exec_call (CancelBeforeCall di dv now cutoff) db = snd (cancel_all_before di dv now cutoff db)"
| "exec_call (ForkCall u now i) db = snd (fork_workflow u now i db)"
| "exec_call (CollectCall cutoff threshold) db = garbage_collect cutoff threshold db"

subsection \<open>Constraints\<close>

text \<open>The state after a start or an enqueue is the one of its transaction, whatever it returns.\<close>

lemma start_workflow_state:
  "di_registry inner name = None \<Longrightarrow> snd (start_workflow sd inner se name inp opts parent fmt rcv db) = db"
  "di_registry inner name = Some entry \<Longrightarrow>
     snd (start_workflow sd inner se name inp opts parent fmt rcv db) =
       snd (start_tx (start_input sd inner se entry name inp opts parent fmt rcv)
              (re_max_retries entry) (se_now_child se) parent db)"
  by (simp_all add: start_workflow_def Let_def split: prod.splits sum.splits option.splits)

lemma enqueue_workflow_state:
  "di_registry inner name = None \<Longrightarrow> snd (enqueue_workflow inner se q name inp opts db) = db"
  "di_registry inner name = Some entry \<Longrightarrow>
     snd (enqueue_workflow inner se q name inp opts db) =
       snd (transaction (insert_workflow_status (enqueue_input inner se entry q name inp opts)
              (re_max_retries entry)) db)"
  by (simp_all add: enqueue_workflow_def Let_def split: prod.splits sum.splits)

lemma enqueue_workflow_db_wf:
  assumes "db_wf db"
  shows "db_wf (snd (enqueue_workflow inner se q name inp opts db))"
proof -
  have "db_wf (snd (transaction (insert_workflow_status i m) db))" for i m
    by (rule preservesD [OF preserves_transaction [OF insert_workflow_status_preserves] assms])
  then show ?thesis
    by (cases "di_registry inner name") (simp_all add: enqueue_workflow_state assms)
qed

lemma record_outcome_db_wf: "db_wf db \<Longrightarrow> db_wf (record_outcome es now w fmt r db)"
  by (simp add: record_outcome_def update_workflow_outcome_db_wf split: sum.splits)

lemma exec_call_db_wf: "db_wf db \<Longrightarrow> db_wf (exec_call c db)"
  by (cases c)
    (simp_all add: start_workflow_db_wf enqueue_workflow_db_wf
      record_outcome_db_wf preservesD [OF record_operation_preserves]
      preservesD [OF insert_notification_preserves] consume_oldest_db_wf
      preservesD [OF upsert_event_db_wf] preservesD [OF insert_event_history_db_wf]
      preservesD [OF write_stream_db_wf] transition_delayed_db_wf clear_queue_assignment_db_wf
      preservesD [OF dequeue_db_wf] cancel_db_wf resume_db_wf delete_db_wf
      preservesD [OF cancel_all_before_db_wf] preservesD [OF fork_db_wf] garbage_collect_db_wf)

interpretation constraints: invariant_op exec_call db_wf
  by standard (rule exec_call_db_wf)

subsection \<open>The status machine\<close>

text \<open>The abstract life of a workflow: who may move it from which status to which.\<close>

datatype mover = Runner | Queue | Launcher | Recoverer | Canceller | Resumer | Bystander

inductive status_move :: "mover \<Rightarrow> WorkflowStatusType \<Rightarrow> WorkflowStatusType \<Rightarrow> bool" where
  finish: "s \<noteq> Cancelled \<Longrightarrow> t = Success \<or> t = Error \<Longrightarrow> status_move Runner s t"
| claim: "status_move Queue Enqueued Pending"
| promote: "status_move Queue Delayed Enqueued"
| reclaim: "status_move Recoverer Pending Enqueued"
| dead_letter: "status_move Launcher Pending MaxRecoveryAttemptsExceeded"
| cancel: "s \<notin> {Success, Error, Cancelled} \<Longrightarrow> status_move Canceller s Cancelled"
| resume: "s \<notin> {Success, Error} \<Longrightarrow> status_move Resumer s Enqueued"

inductive_simps status_move_simps [simp]:
  "status_move Runner s t" "status_move Queue s t" "status_move Launcher s t"
  "status_move Recoverer s t" "status_move Canceller s t" "status_move Resumer s t"
  "status_move Bystander s t"

fun mover_of :: "'j db_call \<Rightarrow> mover" where
  "mover_of (StartCall sd inner se name inp opts parent fmt rcv) = Launcher"
| "mover_of (EnqueueCall inner se q name inp opts) = Launcher"
| "mover_of (ClearCall w) = Recoverer"
| "mover_of (OutcomeCall es now w fmt result) = Runner"
| "mover_of (PromoteCall now) = Queue"
| "mover_of (DequeueCall i now1 now2 locked) = Queue"
| "mover_of (CancelCall now ids) = Canceller"
| "mover_of (ResumeCall now ids q) = Resumer"
| "mover_of (CancelBeforeCall di dv now cutoff) = Canceller"
| "mover_of _ = Bystander"

fun deletes :: "'j db_call \<Rightarrow> bool" where
  "deletes (DeleteCall ids) = True"
| "deletes (CollectCall cutoff threshold) = True"
| "deletes _ = False"

text \<open>What a call by a mover may do to an existing row.\<close>

definition row_move :: "mover \<Rightarrow> workflow_row \<Rightarrow> workflow_row \<Rightarrow> bool" where
  "row_move m r r' \<longleftrightarrow>
     ws_name r' = ws_name r \<and> ws_inputs r' = ws_inputs r \<and>
     (\<forall>s. ws_status r = as_str s \<longrightarrow>
        (\<exists>t. ws_status r' = as_str t \<and> (t = s \<or> status_move m s t))) \<and>
     (m \<noteq> Runner \<longrightarrow> ws_output r' = ws_output r \<and> ws_error r' = ws_error r) \<and>
     ((terminal_status (ws_status r) \<longrightarrow> ws_deduplication_id r = None) \<longrightarrow>
      terminal_status (ws_status r') \<longrightarrow> ws_deduplication_id r' = None)"

definition rows_move :: "mover \<Rightarrow> sysdb \<Rightarrow> sysdb \<Rightarrow> bool" where
  "rows_move m db db' \<longleftrightarrow>
     (\<forall>w r. find_workflow db w = Some r \<longrightarrow> (\<exists>r'. find_workflow db' w = Some r' \<and> row_move m r r'))"

lemma row_move_refl [simp]: "row_move m r r"
  by (auto simp: row_move_def)

lemma rows_move_same: "workflow_status db' = workflow_status db \<Longrightarrow> rows_move m db db'"
  by (simp add: rows_move_def find_workflow_def)

text \<open>An UPDATE moves rows when it moves each row it selects.\<close>

lemma rows_move_update:
  assumes "\<And>r. P r \<Longrightarrow> ws_workflow_uuid (f r) = ws_workflow_uuid r" and "\<And>r. P r \<Longrightarrow> row_move m r (f r)"
  shows "rows_move m db (db\<lparr>workflow_status := sql_update P f (workflow_status db)\<rparr>)"
  using assms by (auto simp: rows_move_def find_workflow_update)

lemma insert_row_move: "rows_move Launcher db (snd (insert_workflow_status i m db))"
proof (cases "upsert_workflow i db")
  case (Inl e)
  then show ?thesis by (simp add: insert_workflow_status_def rows_move_same)
next
  case (Inr p)
  obtain row db1 where u: "upsert_workflow i db = Inr (row, db1)" using Inr by (cases p) simp
  have up: "\<exists>r1. find_workflow db1 w = Some r1 \<and>
      (r1 = r \<or> r1 = on_conflict_row i r)" if "find_workflow db w = Some r" for w r
    using upsert_find [OF u] upsert_other [OF u, of w] that u
    by (cases "w = in_workflow_id i") (auto simp: upsert_existing)
  have ocr: "row_move Launcher r (on_conflict_row i r)" for r by (auto simp: row_move_def)
  have dlq: "row_move Launcher r (on_conflict_row i r\<lparr>ws_status := as_str MaxRecoveryAttemptsExceeded,
        ws_deduplication_id := None, ws_started_at_epoch_ms := None, ws_queue_name := None\<rparr>)"
    "row_move Launcher r (r\<lparr>ws_status := as_str MaxRecoveryAttemptsExceeded,
        ws_deduplication_id := None, ws_started_at_epoch_ms := None, ws_queue_name := None\<rparr>)"
    if "ws_status r = as_str Pending" for r
    using that by (auto simp: row_move_def)
  have "rows_move Launcher db db1"
    unfolding rows_move_def
  proof (intro allI impI)
    fix v r assume "find_workflow db v = Some r"
    then obtain r1 where "find_workflow db1 v = Some r1" "r1 = r \<or> r1 = on_conflict_row i r"
      using up by blast
    then show "\<exists>r'. find_workflow db1 v = Some r' \<and> row_move Launcher r r'" using ocr by auto
  qed
  moreover have "rows_move Launcher db (dlq_update w db1)" for w
    unfolding rows_move_def
  proof (intro allI impI)
    fix v r assume "find_workflow db v = Some r"
    then obtain r1 where "find_workflow db1 v = Some r1" "r1 = r \<or> r1 = on_conflict_row i r"
      using up by blast
    then show "\<exists>r'. find_workflow (dlq_update w db1) v = Some r' \<and> row_move Launcher r r'"
      using ocr dlq by (auto simp: find_workflow_dlq_update)
  qed
  ultimately show ?thesis
    using u by (auto simp: insert_workflow_status_def finish_insert_def Let_def split: option.splits)
qed

lemma start_tx_status:
  assumes "start_tx i m nc parent db = (Inr x, db')"
  shows "workflow_status db' = workflow_status (snd (insert_workflow_status i m db))"
proof (cases x)
  case None
  show ?thesis by (rule start_tx_NoneE [OF assms [unfolded None]]) simp
next
  case (Some res)
  show ?thesis
    by (rule start_tx_SomeE [OF assms [unfolded Some]]) (auto split: option.splits dest: record_child_frame)
qed

lemma start_row_move: "rows_move Launcher db (snd (start_workflow sd inner se name inp opts parent fmt rcv db))"
proof -
  have "rows_move Launcher db (snd (start_tx i m nc parent db))" for i m nc
  proof (cases "fst (start_tx i m nc parent db)")
    case (Inl e)
    then have "snd (start_tx i m nc parent db) = db" by (metis start_tx_Inl prod.collapse)
    then show ?thesis by (simp add: rows_move_same)
  next
    case (Inr x)
    obtain db' where tx: "start_tx i m nc parent db = (Inr x, db')" using Inr by (metis prod.collapse)
    note ws = start_tx_status [OF tx]
    show ?thesis
      using insert_row_move [of db i m] unfolding tx snd_conv rows_move_def find_workflow_same [OF ws] .
  qed
  then show ?thesis
    by (cases "di_registry inner name") (simp_all add: start_workflow_state rows_move_same)
qed

lemma enqueue_row_move: "rows_move Launcher db (snd (enqueue_workflow inner se q name inp opts db))"
proof -
  have "rows_move Launcher db (snd (transaction (insert_workflow_status i m) db))" for i m
    using insert_row_move [of db i m]
    by (auto simp: transaction_def rows_move_same split: prod.splits sum.splits)
  then show ?thesis
    by (cases "di_registry inner name") (simp_all add: enqueue_workflow_state rows_move_same)
qed

lemma outcome_row_move: "rows_move Runner db (record_outcome es now w fmt result db)"
  by (cases result)
    (auto simp: record_outcome_def update_workflow_outcome_def row_move_def intro!: rows_move_update)

lemma dequeue_row_move:
  assumes "db_wf db" shows "rows_move Queue db (snd (dequeue_workflows i now1 now2 locked db))"
proof (cases "fst (dequeue_workflows i now1 now2 locked db)")
  case (Inl e)
  then show ?thesis using dequeue_Inl [of i now1 now2 locked db e] by (metis prod.collapse rows_move_same)
next
  case (Inr claimed)
  then have "dequeue_workflows i now1 now2 locked db = (Inr claimed, snd (dequeue_workflows i now1 now2 locked db))"
    by (metis prod.collapse)
  from dequeue_spec [OF assms this] show ?thesis
    by (auto simp: claim_rows_def row_move_def claim_row_def intro!: rows_move_update)
qed

lemma cancel_row_move: "rows_move Canceller db (snd (cancel_workflows now ids db))"
  unfolding cancel_workflows_def snd_conv
  by (rule rows_move_update) (auto simp: cancel_row_def row_move_def)

lemma fork_row_move: "rows_move Bystander db (snd (fork_workflow u now i db))"
proof (cases "fst (fork_workflow u now i db)")
  case (Inl e)
  then have "snd (fork_workflow u now i db) = db"
    by (auto simp: fork_workflow_def Let_def split: option.splits if_splits)
  then show ?thesis by (simp add: rows_move_same)
next
  case (Inr nid)
  then have "fork_workflow u now i db = (Inr nid, snd (fork_workflow u now i db))" by (metis prod.collapse)
  then obtain o_row where o: "find_workflow db (fk_original_workflow_id i) = Some o_row"
    and n: "nid \<notin> uuids db"
    and ws: "workflow_status (snd (fork_workflow u now i db)) = workflow_status (fork_base now nid i o_row db)"
    by (rule fork_InrE) simp
  have "fk_original_workflow_id i \<in> uuids db"
    using find_workflow_SomeD [OF o] by (force simp: uuids_def)
  note fb = find_workflow_fork_base [OF n this]
  have "w \<noteq> nid" if "find_workflow db w = Some r" for w r
    using n find_workflow_SomeD [OF that] by (auto simp: uuids_def)
  with fb show ?thesis
    unfolding rows_move_def find_workflow_same [OF ws] by (auto simp: row_move_def)
qed

lemma exec_call_moves:
  assumes "db_wf db" and "\<not> deletes c"
  shows "rows_move (mover_of c) db (exec_call c db)"
proof (cases c)
  case (PromoteCall now)
  then show ?thesis
    by (auto simp: transition_delayed_workflows_def row_move_def intro!: rows_move_update)
next
  case (ClearCall w)
  then show ?thesis
    by (auto simp: clear_queue_assignment_def queue_assigned_def row_move_def intro!: rows_move_update)
next
  case (ResumeCall now ids q)
  then show ?thesis
    by (auto simp: resume_workflows_def resume_row_def row_move_def intro!: rows_move_update)
next
  case (CancelBeforeCall di dv now cutoff)
  then show ?thesis
    by (auto simp: cancel_all_before_def Let_def rows_move_same cancel_row_move split: sum.splits)
qed (use assms in \<open>simp_all add: start_row_move enqueue_row_move outcome_row_move dequeue_row_move
  cancel_row_move fork_row_move rows_move_same\<close>)

text \<open>New rows start unfinished and without a result.\<close>

definition new_row :: "workflow_row \<Rightarrow> bool" where
  "new_row r \<longleftrightarrow> ws_status r \<in> as_str ` {Pending, Enqueued, Delayed} \<and>
     ws_output r = None \<and> ws_error r = None"

definition rows_new :: "sysdb \<Rightarrow> sysdb \<Rightarrow> bool" where
  "rows_new db db' \<longleftrightarrow>
     (\<forall>w r'. find_workflow db w = None \<longrightarrow> find_workflow db' w = Some r' \<longrightarrow> new_row r')"

lemma rows_new_same: "workflow_status db' = workflow_status db \<Longrightarrow> rows_new db db'"
  by (simp add: rows_new_def find_workflow_def)

lemma rows_new_update:
  assumes "\<And>r. P r \<Longrightarrow> ws_workflow_uuid (f r) = ws_workflow_uuid r"
  shows "rows_new db (db\<lparr>workflow_status := sql_update P f (workflow_status db)\<rparr>)"
  using assms by (auto simp: rows_new_def find_workflow_update)

lemma insert_row_new:
  assumes "in_status i \<in> as_str ` {Pending, Enqueued, Delayed}" and "in_recovery_attempts i \<le> 1"
  shows "rows_new db (snd (insert_workflow_status i m db))"
proof (cases "upsert_workflow i db")
  case (Inl e)
  then show ?thesis by (simp add: insert_workflow_status_def rows_new_same)
next
  case (Inr p)
  obtain row db1 where u: "upsert_workflow i db = Inr (row, db1)" using Inr by (cases p) simp
  have fresh: "new_row (fresh_row i)" using assms(1) by (simp add: new_row_def) (simp add: fresh_row_def)
  have made: "w = in_workflow_id i \<and> row = fresh_row i \<and> r' = row"
    if "find_workflow db w = None" "find_workflow db1 w = Some r'" for w r'
    using that upsert_find(1) [OF u] upsert_other [OF u, of w] u
    by (cases "w = in_workflow_id i") (auto simp: upsert_workflow_def Let_def split: option.splits if_splits)
  have one: "rows_new db db1" unfolding rows_new_def using made fresh by blast
  have two: "rows_new db (if dead_letter (ws_status row) (ws_recovery_attempts row) m
      then dlq_update (in_workflow_id i) db1 else db1)"
  proof (cases "dead_letter (ws_status row) (ws_recovery_attempts row) m")
    case True
    then have "row \<noteq> fresh_row i" using assms(2) by (auto simp: dead_letter_def)
    with made have "find_workflow db1 w = None" if "find_workflow db w = None" for w
      using that by (cases "find_workflow db1 w") auto
    with True show ?thesis by (simp add: rows_new_def find_workflow_dlq_update)
  qed (simp add: one)
  show ?thesis
    using u one two by (auto simp: insert_workflow_status_def finish_insert_def Let_def split: option.splits)
qed

lemma start_row_new: "rows_new db (snd (start_workflow sd inner se name inp opts parent fmt rcv db))"
proof (cases "di_registry inner name")
  case (Some entry)
  let ?i = "start_input sd inner se entry name inp opts parent fmt rcv"
  have ins: "rows_new db (snd (insert_workflow_status ?i m db))" for m by (rule insert_row_new) simp_all
  have "rows_new db (snd (start_tx ?i m nc parent db))" for m nc
  proof (cases "fst (start_tx ?i m nc parent db)")
    case (Inl e)
    then have "snd (start_tx ?i m nc parent db) = db" by (metis start_tx_Inl prod.collapse)
    then show ?thesis by (simp add: rows_new_same)
  next
    case (Inr x)
    obtain db' where tx: "start_tx ?i m nc parent db = (Inr x, db')" using Inr by (metis prod.collapse)
    have ws: "workflow_status db' = workflow_status (snd (insert_workflow_status ?i m db))"
      by (rule start_tx_status [OF tx])
    show ?thesis using ins [of m] unfolding tx snd_conv rows_new_def find_workflow_same [OF ws] .
  qed
  with Some show ?thesis by (simp add: start_workflow_state)
qed (simp add: start_workflow_state rows_new_same)

lemma enqueue_row_new: "rows_new db (snd (enqueue_workflow inner se q name inp opts db))"
proof (cases "di_registry inner name")
  case (Some entry)
  let ?i = "enqueue_input inner se entry q name inp opts"
  have "rows_new db (snd (insert_workflow_status ?i m db))" for m
    by (rule insert_row_new) (simp_all split: option.splits)
  then have "rows_new db (snd (transaction (insert_workflow_status ?i m) db))" for m
    by (simp add: snd_transaction rows_new_same split: sum.splits)
  with Some show ?thesis by (simp add: enqueue_workflow_state)
qed (simp add: enqueue_workflow_state rows_new_same)

lemma cancel_row_new: "rows_new db (snd (cancel_workflows now ids db))"
  unfolding cancel_workflows_def snd_conv by (rule rows_new_update) (simp add: cancel_row_def)

lemma dequeue_row_new:
  assumes "db_wf db" shows "rows_new db (snd (dequeue_workflows i now1 now2 locked db))"
proof (cases "fst (dequeue_workflows i now1 now2 locked db)")
  case (Inl e)
  then show ?thesis using dequeue_Inl [of i now1 now2 locked db e] by (metis prod.collapse rows_new_same)
next
  case (Inr claimed)
  then have "dequeue_workflows i now1 now2 locked db = (Inr claimed, snd (dequeue_workflows i now1 now2 locked db))"
    by (metis prod.collapse)
  from dequeue_spec [OF assms this] show ?thesis
    by (auto simp: claim_rows_def intro!: rows_new_update)
qed

lemma fork_row_new: "rows_new db (snd (fork_workflow u now i db))"
proof (cases "fst (fork_workflow u now i db)")
  case (Inl e)
  then have "snd (fork_workflow u now i db) = db"
    by (auto simp: fork_workflow_def Let_def split: option.splits if_splits)
  then show ?thesis by (simp add: rows_new_same)
next
  case (Inr nid)
  then have "fork_workflow u now i db = (Inr nid, snd (fork_workflow u now i db))" by (metis prod.collapse)
  then obtain o_row where o: "find_workflow db (fk_original_workflow_id i) = Some o_row"
    and n: "nid \<notin> uuids db"
    and ws: "workflow_status (snd (fork_workflow u now i db)) = workflow_status (fork_base now nid i o_row db)"
    by (rule fork_InrE) simp
  have "fk_original_workflow_id i \<in> uuids db"
    using find_workflow_SomeD [OF o] by (force simp: uuids_def)
  from find_workflow_fork_base [OF n this] show ?thesis
    unfolding rows_new_def find_workflow_same [OF ws] by (auto simp: new_row_def fork_row_def)
qed

lemma exec_call_new:
  assumes "db_wf db" shows "rows_new db (exec_call c db)"
proof (cases c)
  case (OutcomeCall es now w fmt result)
  then show ?thesis
    by (cases result) (auto simp: record_outcome_def update_workflow_outcome_def intro!: rows_new_update)
next
  case (PromoteCall now)
  then show ?thesis by (auto simp: transition_delayed_workflows_def intro!: rows_new_update)
next
  case (ClearCall w)
  then show ?thesis by (auto simp: clear_queue_assignment_def intro!: rows_new_update)
next
  case (ResumeCall now ids q)
  then show ?thesis by (auto simp: resume_workflows_def resume_row_def intro!: rows_new_update)
next
  case (CancelBeforeCall di dv now cutoff)
  then show ?thesis
    by (auto simp: cancel_all_before_def Let_def rows_new_same cancel_row_new split: sum.splits)
next
  case (DeleteCall ids)
  then show ?thesis
    using assms by (simp add: rows_new_def delete_workflows_def find_workflow_cascade_delete)
next
  case (CollectCall cutoff threshold)
  then show ?thesis
    using assms by (auto simp: rows_new_def garbage_collect_def find_workflow_cascade_delete split: option.splits)
qed (use assms in \<open>simp_all add: start_row_new enqueue_row_new dequeue_row_new cancel_row_new
  fork_row_new rows_new_same\<close>)

subsection \<open>Reachable databases\<close>

definition row_ok :: "workflow_row \<Rightarrow> bool" where
  "row_ok r \<longleftrightarrow> from_str (ws_status r) \<noteq> None \<and>
     (terminal_status (ws_status r) \<longrightarrow> ws_deduplication_id r = None)"

definition system_ok :: "sysdb \<Rightarrow> bool" where
  "system_ok db \<longleftrightarrow> db_wf db \<and> (\<forall>w r. find_workflow db w = Some r \<longrightarrow> row_ok r)"

lemma row_move_ok: "row_ok r \<Longrightarrow> row_move m r r' \<Longrightarrow> row_ok r'"
  by (auto simp: row_ok_def row_move_def from_str_iff)

lemma new_row_ok: "new_row r \<Longrightarrow> row_ok r"
  by (auto simp: row_ok_def new_row_def)

lemma deleted_rows:
  assumes "db_wf db" and "deletes c" and "find_workflow (exec_call c db) w = Some r'"
  shows "find_workflow db w = Some r'"
  using assms(2,3)
  by (cases c)
    (auto simp: delete_workflows_def garbage_collect_def find_workflow_cascade_delete [OF assms(1)]
      split: option.splits if_splits)

lemma exec_call_system_ok:
  assumes "system_ok db" shows "system_ok (exec_call c db)"
proof -
  have wf: "db_wf db" using assms by (simp add: system_ok_def)
  have "row_ok r'" if f: "find_workflow (exec_call c db) w = Some r'" for w r'
  proof (cases "find_workflow db w")
    case None
    with exec_call_new [OF wf, of c] f show ?thesis by (simp add: rows_new_def new_row_ok)
  next
    case (Some r)
    then have ok: "row_ok r" using assms by (simp add: system_ok_def)
    show ?thesis
    proof (cases "deletes c")
      case True
      from deleted_rows [OF wf True f] Some ok show ?thesis by simp
    next
      case False
      from exec_call_moves [OF wf False] obtain r1 where "find_workflow (exec_call c db) w = Some r1"
        "row_move (mover_of c) r r1" using Some unfolding rows_move_def by blast
      with f have "row_move (mover_of c) r r'" by simp
      with ok show ?thesis by (rule row_move_ok)
    qed
  qed
  with exec_call_db_wf [OF wf] show ?thesis by (simp add: system_ok_def)
qed

interpretation system: invariant_op exec_call system_ok
  by standard (rule exec_call_system_ok)

lemma system_ok_empty: "system_ok empty_db"
  by (simp add: system_ok_def find_workflow_def empty_db_def) (simp add: db_wf_empty [unfolded empty_db_def])

lemma reachable_ok: "system_ok (fold exec_call calls empty_db)"
  by (rule system.run_inv [OF system_ok_empty])

lemma db_wf_dedup_unique:
  assumes "db_wf db" and "r1 \<in> set (workflow_status db)" and "r2 \<in> set (workflow_status db)"
    and "dedup_entry r1 = Some p" and "dedup_entry r2 = Some p"
  shows "r1 = r2"
proof (rule ccontr)
  assume ne: "r1 \<noteq> r2"
  have "\<not> distinct (dedup_index t)" if "r1 \<in> set t" "r2 \<in> set t" for t
    using that
  proof (induction t)
    case (Cons x t)
    then show ?case using ne assms(4,5) by (auto simp: set_dedup_index split: option.splits)
  qed simp
  with assms(1-3) show False by (simp add: db_wf_def workflows_ok_def)
qed

definition spares :: "string \<Rightarrow> 'j db_call \<Rightarrow> bool" where
  "spares w c \<longleftrightarrow> \<not> deletes c \<and> (\<forall>es now fmt result. c \<noteq> OutcomeCall es now w fmt result)"

definition finished_as :: "string \<Rightarrow> workflow_row \<Rightarrow> sysdb \<Rightarrow> bool" where
  "finished_as w r db \<longleftrightarrow> db_wf db \<and>
     (\<exists>r'. find_workflow db w = Some r' \<and> ws_status r' = ws_status r \<and>
        ws_output r' = ws_output r \<and> ws_error r' = ws_error r)"

lemma exec_call_finished:
  assumes "ws_status r = as_str Success \<or> ws_status r = as_str Error" and "spares w c"
    and "finished_as w r db"
  shows "finished_as w r (exec_call c db)"
proof -
  from assms(3) obtain r0 where wf: "db_wf db" and r0: "find_workflow db w = Some r0"
    "ws_status r0 = ws_status r" "ws_output r0 = ws_output r" "ws_error r0 = ws_error r"
    by (auto simp: finished_as_def)
  have nd: "\<not> deletes c" using assms(2) by (simp add: spares_def)
  obtain r' where r': "find_workflow (exec_call c db) w = Some r'" "row_move (mover_of c) r0 r'"
    using exec_call_moves [OF wf nd] r0(1) unfolding rows_move_def by blast
  have "ws_status r' = ws_status r0 \<and> ws_output r' = ws_output r0 \<and> ws_error r' = ws_error r0"
  proof (cases "mover_of c = Runner")
    case True
    then obtain es now v fmt result where c: "c = OutcomeCall es now v fmt result" by (cases c) auto
    then have "v \<noteq> w" using assms(2) by (auto simp: spares_def)
    then have "find_workflow (exec_call c db) w = find_workflow db w"
      using r0(1) find_workflow_SomeD [OF r0(1)]
      by (cases result) (auto simp: c record_outcome_def find_workflow_outcome)
    with r0 r' show ?thesis by simp
  next
    case False
    have "mover_of c \<noteq> Runner \<Longrightarrow> s \<in> {Success, Error} \<Longrightarrow> \<not> status_move (mover_of c) s t" for s t
      by (cases "mover_of c") auto
    with False r'(2) assms(1) r0(2) show ?thesis by (fastforce simp: row_move_def)
  qed
  with r0 r' exec_call_db_wf [OF wf] show ?thesis by (simp add: finished_as_def)
qed

interpretation finished: invariant_op
  "\<lambda>c. if spares w c then exec_call c else id"
  "\<lambda>db. (ws_status r = as_str Success \<or> ws_status r = as_str Error) \<and> finished_as w r db" for w r
  by standard (simp add: exec_call_finished)

subsection \<open>Properties\<close>

text \<open>
  C2. The constraints of the database hold for ever. After any sequence of operations of the
  runtime on an empty database: workflow ids are unique, a step of a workflow is recorded at most
  once, stream offsets are unique, every step, message, event, history and stream row belongs to
  an existing workflow, every status is one the code knows, a queue has at most one workflow per
  deduplication id, and a finished workflow holds none.
\<close>

theorem database_invariant:
  fixes calls :: "'j db_call list"
  defines "db \<equiv> fold exec_call calls empty_db"
  shows "distinct (map ws_workflow_uuid (workflow_status db)) \<and>
    distinct (map op_key (operation_outputs db)) \<and> distinct (map stream_key (streams db)) \<and>
    oo_workflow_uuid ` set (operation_outputs db) \<union> nt_destination_uuid ` set (notifications db) \<union>
      ev_workflow_uuid ` set (workflow_events db) \<union>
      eh_workflow_uuid ` set (workflow_events_history db) \<union>
      st_workflow_uuid ` set (streams db) \<subseteq> ws_workflow_uuid ` set (workflow_status db) \<and>
    (\<forall>r \<in> set (workflow_status db). from_str (ws_status r) \<noteq> None \<and>
       (terminal_status (ws_status r) \<longrightarrow> ws_deduplication_id r = None)) \<and>
    (\<forall>r1 \<in> set (workflow_status db). \<forall>r2 \<in> set (workflow_status db).
       ws_queue_name r1 \<noteq> None \<and> ws_queue_name r1 = ws_queue_name r2 \<and>
       ws_deduplication_id r1 \<noteq> None \<and> ws_deduplication_id r1 = ws_deduplication_id r2 \<longrightarrow> r1 = r2)"
proof -
  have ok: "system_ok db" unfolding db_def by (rule reachable_ok)
  then have wf: "db_wf db" by (simp add: system_ok_def)
  have rows: "row_ok r" if "r \<in> set (workflow_status db)" for r
    using find_workflow_member [OF wf that] ok by (simp add: system_ok_def)
  have uniq: "\<forall>r1 \<in> set (workflow_status db). \<forall>r2 \<in> set (workflow_status db).
       ws_queue_name r1 \<noteq> None \<and> ws_queue_name r1 = ws_queue_name r2 \<and>
       ws_deduplication_id r1 \<noteq> None \<and> ws_deduplication_id r1 = ws_deduplication_id r2 \<longrightarrow> r1 = r2"
  proof (intro ballI impI)
    fix r1 r2
    assume in_db: "r1 \<in> set (workflow_status db)" "r2 \<in> set (workflow_status db)"
      and eq: "ws_queue_name r1 \<noteq> None \<and> ws_queue_name r1 = ws_queue_name r2 \<and>
       ws_deduplication_id r1 \<noteq> None \<and> ws_deduplication_id r1 = ws_deduplication_id r2"
    from eq obtain q d where "ws_queue_name r1 = Some q" "ws_deduplication_id r1 = Some d" by blast
    moreover from this eq have "ws_queue_name r2 = Some q" "ws_deduplication_id r2 = Some d" by simp_all
    ultimately have "dedup_entry r1 = Some (q, d)" "dedup_entry r2 = Some (q, d)"
      by (simp_all add: dedup_entry_def)
    with db_wf_dedup_unique [OF wf in_db] show "r1 = r2" .
  qed
  have ok: "\<forall>r \<in> set (workflow_status db). from_str (ws_status r) \<noteq> None \<and>
       (terminal_status (ws_status r) \<longrightarrow> ws_deduplication_id r = None)"
    using rows unfolding row_ok_def by blast
  from wf show ?thesis
    by (intro conjI uniq ok) (auto simp: db_wf_def workflows_ok_def keys_ok_def refs_ok_def uuids_def)
qed

theorem database_invariant_witness:
  "distinct (map ws_workflow_uuid (workflow_status
     (fold exec_call [StartCall mini_serde (sample_inner ''A'') (sample_start ''x'') ''checkout'' None
        default_options None Portable False, CancelCall 7 [''u''] :: unit db_call] empty_db)))"
  using database_invariant [of "[StartCall mini_serde (sample_inner ''A'') (sample_start ''x'') ''checkout''
    None default_options None Portable False, CancelCall 7 [''u''] :: unit db_call]"] by (rule conjunct1)

text \<open>
  C3. The operations implement the status machine. On any reachable database, an operation that
  does not delete moves the status of each workflow along an arrow of the abstract machine that
  its kind of caller owns, or leaves it: only a runner finishes a workflow, never a cancelled one;
  only a dequeue claims and only the delay promotes; only a recovery reclaims and only a
  launch dead-letters, from PENDING; only a cancellation cancels and only a resume enqueues again,
  never a finished one. Name and inputs never change, outputs only by a runner, and a
  workflow that appears starts PENDING, ENQUEUED or DELAYED without a result.
\<close>

theorem status_machine:
  assumes "db = fold exec_call calls empty_db" and "\<not> deletes c"
  shows "case (find_workflow db w, find_workflow (exec_call c db) w) of
      (Some r, Some r') \<Rightarrow>
        ws_name r' = ws_name r \<and> ws_inputs r' = ws_inputs r \<and>
        (\<exists>s t. ws_status r = as_str s \<and> ws_status r' = as_str t \<and> (t = s \<or> status_move (mover_of c) s t)) \<and>
        (mover_of c = Runner \<or> ws_output r' = ws_output r \<and> ws_error r' = ws_error r)
    | (Some r, None) \<Rightarrow> False
    | (None, Some r') \<Rightarrow> ws_status r' \<in> {''PENDING'', ''ENQUEUED'', ''DELAYED''} \<and>
        ws_output r' = None \<and> ws_error r' = None
    | (None, None) \<Rightarrow> True"
proof -
  have ok: "system_ok db" unfolding assms(1) by (rule reachable_ok)
  then have wf: "db_wf db" by (simp add: system_ok_def)
  show ?thesis
  proof (cases "find_workflow db w")
    case None
    with exec_call_new [OF wf, of c] show ?thesis
      by (cases "find_workflow (exec_call c db) w")
        (auto simp: rows_new_def new_row_def as_str.simps)
  next
    case (Some r)
    obtain r' where r': "find_workflow (exec_call c db) w = Some r'" "row_move (mover_of c) r r'"
      using exec_call_moves [OF wf assms(2)] Some unfolding rows_move_def by blast
    obtain s where "ws_status r = as_str s"
      using ok Some by (auto simp: system_ok_def row_ok_def from_str_iff)
    with Some r' show ?thesis by (auto simp: row_move_def)
  qed
qed

theorem status_machine_witness:
  "case (find_workflow (empty_db :: sysdb) ''u'',
         find_workflow (exec_call (StartCall mini_serde (sample_inner ''A'') (sample_start ''x'') ''checkout''
           None default_options None Portable False :: unit db_call) empty_db) ''u'') of
      (None, Some r') \<Rightarrow> ws_status r' \<in> {''PENDING'', ''ENQUEUED'', ''DELAYED''}
    | _ \<Rightarrow> True"
proof -
  let ?c = "StartCall mini_serde (sample_inner ''A'') (sample_start ''x'') ''checkout''
           None default_options None Portable False :: unit db_call"
  have d: "\<not> deletes ?c" by simp
  have e: "empty_db = fold exec_call ([] :: unit db_call list) empty_db" by simp
  from status_machine [OF e d, of "''u''"] show ?thesis by (auto split: option.splits)
qed

text \<open>
  C4. A finished workflow stays finished. Whatever sequence of operations follows on a reachable
  database, as long as no other runner records an outcome for the workflow and nobody deletes
  workflows, a SUCCESS or ERROR keeps its status, its output and its error.
\<close>

theorem finished_is_final:
  assumes "db = fold exec_call before_calls empty_db" and "find_workflow db w = Some r"
    and "ws_status r = ''SUCCESS'' \<or> ws_status r = ''ERROR''" and "list_all (spares w) calls"
  shows "\<exists>r'. find_workflow (fold exec_call calls db) w = Some r' \<and> ws_status r' = ws_status r \<and>
    ws_output r' = ws_output r \<and> ws_error r' = ws_error r"
proof -
  have "db_wf db" using reachable_ok [of before_calls] by (simp add: assms(1) system_ok_def)
  then have inv: "(ws_status r = as_str Success \<or> ws_status r = as_str Error) \<and> finished_as w r db"
    using assms(2,3) by (simp add: finished_as_def as_str.simps)
  have "fold (\<lambda>c. if spares w c then exec_call c else id) calls db = fold exec_call calls db"
    using assms(4) by (intro fold_cong) (auto simp: list_all_iff)
  with finished.run_inv [OF inv, of calls] show ?thesis by (auto simp: finished_as_def)
qed

theorem finished_is_final_witness:
  "\<exists>r. find_workflow (fold exec_call
       [StartCall mini_serde (sample_inner ''A'') (sample_start ''x'') ''checkout'' None default_options
          None Portable False,
        OutcomeCall mini_error_serde 6 ''u'' Portable (Inr ''42''),
        CancelCall 7 [''u''], ResumeCall 8 [''u''] ''q'' :: unit db_call] empty_db) ''u'' = Some r \<and>
     ws_status r = ''SUCCESS'' \<and> ws_output r = Some ''42''"
proof -
  let ?start = "StartCall mini_serde (sample_inner ''A'') (sample_start ''x'') ''checkout'' None default_options
          None Portable False :: unit db_call"
  let ?done = "OutcomeCall mini_error_serde 6 ''u'' Portable (Inr ''42'') :: unit db_call"
  let ?db = "fold exec_call [?start, ?done] empty_db"
  have reg: "di_registry (sample_inner ''A'') ''checkout'' = Some sample_entry" by (simp add: sample_inner_def)
  have id: "choose_id default_options None (se_uuid (sample_start ''x'')) = ''u''"
    by (simp add: choose_id_def default_options_def sample_start_def)
  have none: "find_workflow empty_db ''u'' = None" by (simp add: find_workflow_def empty_db_def)
  obtain r0 where r0: "find_workflow (exec_call ?start empty_db) ''u'' = Some r0" "ws_status r0 = as_str Pending"
    using start_fresh [OF none id reg, of mini_serde None Portable False] by auto
  obtain r where r: "find_workflow ?db ''u'' = Some r" "ws_status r = ''SUCCESS''" "ws_output r = Some ''42''"
    using r0 find_workflow_SomeD [OF r0(1)]
    by (auto simp: record_outcome_def find_workflow_outcome as_str.simps)
  have sp: "list_all (spares ''u'') [CancelCall 7 [''u''], ResumeCall 8 [''u''] ''q'' :: unit db_call]"
    by (simp add: spares_def)
  from finished_is_final [OF refl r(1) disjI1 [OF r(2)] sp] r show ?thesis by auto
qed

end
