(* ===== verification/Dbos_Claims.thy ===== *)
theory Dbos_Claims
  imports Dbos_System
begin

text \<open>
  What the queues promise over time, on top of the single dequeue of \<open>Dbos_QueueDb\<close>: a workflow
  is handed out at most once unless somebody enqueues it again, whatever the executors do in
  between; and repeated dequeues work the eligible rows off in priority order, so that every one
  is claimed after a bounded number of iterations.
\<close>

subsection \<open>Claims along a run\<close>

fun handed_out :: "'j db_call \<Rightarrow> sysdb \<Rightarrow> string list" where
  "handed_out (DequeueCall i now1 now2 locked) db =
     (case fst (dequeue_workflows i now1 now2 locked db) of
        Inl e \<Rightarrow> []
      | Inr claimed \<Rightarrow> map dw_id claimed)"
| "handed_out _ db = []"

fun claim_trace :: "'j db_call list \<Rightarrow> sysdb \<Rightarrow> string list" where
  "claim_trace [] db = []"
| "claim_trace (c # cs) db = handed_out c db @ claim_trace cs (exec_call c db)"

text \<open>The operations that make a claimed workflow claimable again.\<close>

fun requeues :: "string \<Rightarrow> 'j db_call \<Rightarrow> bool" where
  "requeues w (ClearCall v) = (v = w)"
| "requeues w (ResumeCall now ids q) = (w \<in> set ids)"
| "requeues w (DeleteCall ids) = (w \<in> set ids)"
| "requeues w (CollectCall cutoff threshold) = True"
| "requeues w _ = False"

definition off_queue :: "string \<Rightarrow> sysdb \<Rightarrow> bool" where
  "off_queue w db \<longleftrightarrow>
     (\<exists>r. find_workflow db w = Some r \<and> ws_status r \<notin> {as_str Enqueued, as_str Delayed})"

definition called_off :: "string \<Rightarrow> sysdb \<Rightarrow> bool" where
  "called_off w db \<longleftrightarrow> system_ok db \<and> off_queue w db"

lemma status_move_off:
  "status_move m s t \<Longrightarrow> m \<notin> {Recoverer, Resumer} \<Longrightarrow> s \<notin> {Enqueued, Delayed} \<Longrightarrow>
   t \<notin> {Enqueued, Delayed}"
  by (cases m) auto

lemma requeue_spares:
  assumes "db_wf db" and "\<not> requeues w c" and "mover_of c \<in> {Recoverer, Resumer} \<or> deletes c"
  shows "find_workflow (exec_call c db) w = find_workflow db w"
  using assms
  by (cases c; cases "find_workflow db w")
    (auto simp: clear_queue_assignment_def queue_assigned_def resume_workflows_def resume_row_def
      delete_workflows_def find_workflow_cascade_delete find_workflow_update
      dest: find_workflow_SomeD)

lemma off_queue_stays:
  assumes "called_off w db" and "\<not> requeues w c"
  shows "called_off w (exec_call c db)"
proof -
  have ok: "system_ok db" and wf: "db_wf db" using assms(1) by (simp_all add: called_off_def system_ok_def)
  obtain r where r: "find_workflow db w = Some r" "ws_status r \<notin> {as_str Enqueued, as_str Delayed}"
    using assms(1) by (auto simp: called_off_def off_queue_def)
  have "off_queue w (exec_call c db)"
  proof (cases "mover_of c \<in> {Recoverer, Resumer} \<or> deletes c")
    case True
    with requeue_spares [OF wf assms(2)] r show ?thesis by (simp add: off_queue_def)
  next
    case False
    obtain r' where r': "find_workflow (exec_call c db) w = Some r'" "row_move (mover_of c) r r'"
      using exec_call_moves [OF wf, of c] False r(1) unfolding rows_move_def by blast
    obtain s where s: "ws_status r = as_str s"
      using ok r(1) by (auto simp: system_ok_def row_ok_def from_str_iff)
    with r(2) have "s \<notin> {Enqueued, Delayed}" by auto
    moreover obtain t where "ws_status r' = as_str t" "t = s \<or> status_move (mover_of c) s t"
      using r'(2) s unfolding row_move_def by blast
    ultimately have "ws_status r' \<notin> {as_str Enqueued, as_str Delayed}"
      using status_move_off [of "mover_of c" s t] False by auto
    with r'(1) show ?thesis by (simp add: off_queue_def)
  qed
  with exec_call_system_ok [OF ok] show ?thesis by (simp add: called_off_def)
qed

text \<open>A dequeue hands out each id once, takes it off the queue, and only had it to give if it was there.\<close>

lemma handed_out_once:
  assumes "system_ok db"
  shows "distinct (handed_out c db) \<and>
    (\<forall>w \<in> set (handed_out c db). \<not> off_queue w db \<and> off_queue w (exec_call c db) \<and> \<not> requeues w c)"
proof (cases c)
  case (DequeueCall i now1 now2 locked)
  have wf: "db_wf db" using assms by (simp add: system_ok_def)
  show ?thesis
  proof (cases "fst (dequeue_workflows i now1 now2 locked db)")
    case (Inl e)
    with DequeueCall show ?thesis by simp
  next
    case (Inr claimed)
    let ?rs = "claims i now1 locked db"
    have dq: "dequeue_workflows i now1 now2 locked db = (Inr claimed, exec_call c db)"
      using Inr DequeueCall by (metis exec_call.simps(12) prod.collapse)
    from dequeue_spec [OF wf dq] have cl: "map dw_id claimed = map ws_workflow_uuid ?rs"
      and db': "exec_call c db = claim_rows i now2 (map ws_workflow_uuid ?rs) db"
      by (simp_all add: dequeued_def comp_def)
    have row: "find_workflow db (ws_workflow_uuid r) = Some r \<and> ws_status r = as_str Enqueued"
      if "r \<in> set ?rs" for r
      using that claims_subset [of i now1 locked db] find_workflow_member [OF wf]
      by (auto simp: claimable_def)
    have "\<not> off_queue w db \<and> off_queue w (exec_call c db)" if "w \<in> set (map ws_workflow_uuid ?rs)" for w
    proof -
      from that obtain r where "r \<in> set ?rs" "w = ws_workflow_uuid r" by auto
      moreover from this have "find_workflow db w = Some r" "ws_status r = as_str Enqueued" using row by simp_all
      ultimately show ?thesis by (simp add: off_queue_def db' find_workflow_claim_rows)
    qed
    moreover have "handed_out c db = map ws_workflow_uuid ?rs"
      using Inr cl by (simp add: DequeueCall)
    ultimately show ?thesis
      using claims_distinct [OF wf, of i now1 locked] by (simp add: DequeueCall)
  qed
qed simp_all

lemma distinct_count_one: "distinct xs \<Longrightarrow> x \<in> set xs \<Longrightarrow> count_list xs x = 1"
  by (induction xs) auto

lemma claim_trace_count:
  assumes "system_ok db"
  shows "count_list (claim_trace cs db) w \<le>
    (if off_queue w db then 0 else 1) + length (filter (requeues w) cs)"
  using assms
proof (induction cs arbitrary: db)
  case (Cons c cs)
  let ?db = "exec_call c db"
  note once = handed_out_once [OF Cons.prems, of c]
  have ok: "system_ok ?db" by (rule exec_call_system_ok [OF Cons.prems])
  show ?case
  proof (cases "w \<in> set (handed_out c db)")
    case True
    with once have "count_list (handed_out c db) w = 1" "\<not> off_queue w db" "off_queue w ?db" "\<not> requeues w c"
      by (simp_all add: distinct_count_one)
    with Cons.IH [OF ok] show ?thesis by simp
  next
    case False
    have "off_queue w ?db" if "off_queue w db" "\<not> requeues w c"
      using off_queue_stays [of w db c] that Cons.prems by (simp add: called_off_def)
    with Cons.IH [OF ok] False show ?thesis by (cases "off_queue w ?db") auto
  qed
qed simp

subsection \<open>Working off the eligible rows\<close>

text \<open>Dequeues of one queue and partition, by executors of one version, see the same candidates.\<close>

definition same_view :: "DequeueInput \<Rightarrow> DequeueInput \<Rightarrow> bool" where
  "same_view i j \<longleftrightarrow> dq_queue_name i = dq_queue_name j \<and>
     dq_application_version i = dq_application_version j \<and> dq_partition_key i = dq_partition_key j"

lemma same_view_candidates: "same_view i j \<Longrightarrow> candidates i db = candidates j db"
  by (simp add: candidates_def claimable_def [abs_def] same_view_def)

lemma filter_not_taken:
  assumes "distinct (map f xs)"
  shows "filter (\<lambda>x. f x \<notin> f ` set (take n xs)) xs = drop n xs"
proof -
  have d: "distinct (map f (take n xs @ drop n xs))" using assms by simp
  then have "\<forall>x \<in> set (drop n xs). f x \<notin> f ` set (take n xs)"
    unfolding map_append distinct_append by auto
  then have "filter (\<lambda>x. f x \<notin> f ` set (take n xs)) (take n xs @ drop n xs) = drop n xs"
    by (simp add: filter_id_conv del: append_take_drop_id)
  then show ?thesis by simp
qed

lemma candidates_claim_rows:
  "candidates i (claim_rows j now ids db) =
     filter (\<lambda>r. ws_workflow_uuid r \<notin> set ids) (candidates i db)"
proof -
  have "sql_select (claimable i) (sql_update (\<lambda>r. ws_workflow_uuid r \<in> set ids \<and>
      ws_status r = as_str Enqueued) (claim_row j now) t) =
    filter (\<lambda>r. ws_workflow_uuid r \<notin> set ids) (sql_select (claimable i) t)" for t
    by (induction t) (auto simp: sql_select_def claimable_def)
  then show ?thesis by (simp add: candidates_def claim_rows_def filter_sort)
qed

text \<open>One dequeue with nothing locked takes a prefix of the candidates and leaves the rest.\<close>

lemma dequeue_takes_prefix:
  assumes "db_wf db" and "dequeue_workflows i now1 now2 (\<lambda>_. False) db = (Inr claimed, db')"
    and "same_view i j"
  shows "\<exists>k. claimed = map dequeued (take k (candidates j db)) \<and>
    candidates j db' = drop k (candidates j db) \<and> db_wf db' \<and>
    k = rate_budget i (num_recent i now1 db) (nat (max_tasks i db))"
proof (intro exI conjI)
  let ?k = "rate_budget i (num_recent i now1 db) (nat (max_tasks i db))"
  have cl: "claims i now1 (\<lambda>_. False) db = take ?k (candidates j db)"
    using same_view_candidates [OF assms(3)] by (simp add: claims_def)
  from dequeue_spec [OF assms(1,2)]
  show "claimed = map dequeued (take ?k (candidates j db))" by (simp add: cl)
  from dequeue_spec [OF assms(1,2)]
  have "db' = claim_rows i now2 (map ws_workflow_uuid (take ?k (candidates j db))) db" by (simp add: cl)
  then show "candidates j db' = drop ?k (candidates j db)"
    using filter_not_taken [OF distinct_candidates [OF assms(1), of j], of ?k]
    by (simp add: candidates_claim_rows)
  show "db_wf db'"
    using preservesD [OF dequeue_db_wf assms(1), of i now1 now2 "\<lambda>_. False"] assms(2) by simp
qed simp

text \<open>Dequeues one after the other; a refused one claims nothing.\<close>

fun work_off :: "(DequeueInput \<times> int \<times> int) list \<Rightarrow> sysdb \<Rightarrow> DequeuedWorkflow list \<times> sysdb" where
  "work_off [] db = ([], db)"
| "work_off ((i, now1, now2) # rest) db =
     (case dequeue_workflows i now1 now2 (\<lambda>_. False) db of
        (r, db1) \<Rightarrow>
          (case work_off rest db1 of
             (later, db2) \<Rightarrow> ((case r of Inl e \<Rightarrow> [] | Inr claimed \<Rightarrow> claimed) @ later, db2)))"

lemma dequeue_unlocked:
  obtains claimed db' where "dequeue_workflows i now1 now2 (\<lambda>_. False) db = (Inr claimed, db')"
proof (cases "fst (dequeue_workflows i now1 now2 (\<lambda>_. False) db)")
  case (Inl e)
  then show thesis
    by (auto simp: dequeue_workflows_def Let_def select_candidates_def list_ex_iff
        split: sum.splits prod.splits if_splits)
next
  case (Inr claimed)
  then show thesis using that by (metis prod.collapse)
qed

lemma work_off_prefix:
  assumes "db_wf db" and "list_all (\<lambda>(i, _). same_view i j) ds"
  shows "\<exists>n. fst (work_off ds db) = map dequeued (take n (candidates j db)) \<and>
    candidates j (snd (work_off ds db)) = drop n (candidates j db)"
  using assms
proof (induction ds arbitrary: db)
  case Nil
  show ?case by (intro exI [of _ 0]) simp
next
  case (Cons d ds)
  obtain i now1 now2 where d: "d = (i, now1, now2)" by (cases d)
  obtain claimed db1 where dq: "dequeue_workflows i now1 now2 (\<lambda>_. False) db = (Inr claimed, db1)"
    by (rule dequeue_unlocked)
  from Cons.prems(2) d have view: "same_view i j" and rest: "list_all (\<lambda>(i, _). same_view i j) ds" by simp_all
  obtain k where k: "claimed = map dequeued (take k (candidates j db))"
    "candidates j db1 = drop k (candidates j db)" "db_wf db1"
    using dequeue_takes_prefix [OF Cons.prems(1) dq view] by blast
  obtain n where n: "fst (work_off ds db1) = map dequeued (take n (candidates j db1))"
    "candidates j (snd (work_off ds db1)) = drop n (candidates j db1)"
    using Cons.IH [OF k(3) rest] by blast
  have "fst (work_off (d # ds) db) = claimed @ fst (work_off ds db1)"
    "snd (work_off (d # ds) db) = snd (work_off ds db1)"
    by (simp_all add: d dq split: prod.splits)
  then show ?case
    using k(1,2) n by (intro exI [of _ "k + n"]) (simp add: take_add add.commute)
qed

text \<open>A queue with an iteration limit and no other.\<close>

definition unthrottled :: "DequeueInput \<Rightarrow> bool" where
  "unthrottled i \<longleftrightarrow> dq_worker_concurrency i = None \<and> dq_global_concurrency i = None \<and>
     dq_rate_limit i = None"

lemma work_off_all:
  assumes "db_wf db" and "unthrottled i"
  shows "fst (work_off (map (Pair i) clocks) db) =
      map dequeued (take (length clocks * dq_max_tasks_per_iteration i) (candidates i db)) \<and>
    candidates i (snd (work_off (map (Pair i) clocks) db)) =
      drop (length clocks * dq_max_tasks_per_iteration i) (candidates i db)"
  using assms(1)
proof (induction clocks arbitrary: db)
  case (Cons t clocks)
  obtain now1 now2 where t: "t = (now1, now2)" by force
  obtain claimed db1 where dq: "dequeue_workflows i now1 now2 (\<lambda>_. False) db = (Inr claimed, db1)"
    by (rule dequeue_unlocked)
  have "rate_budget i (num_recent i now1 db) (nat (max_tasks i db)) = dq_max_tasks_per_iteration i"
    using assms(2) by (simp add: unthrottled_def rate_budget_def max_tasks_def Let_def)
  with dequeue_takes_prefix [OF Cons.prems dq, of i]
  have k: "claimed = map dequeued (take (dq_max_tasks_per_iteration i) (candidates i db))"
    "candidates i db1 = drop (dq_max_tasks_per_iteration i) (candidates i db)" "db_wf db1"
    by (auto simp: same_view_def)
  with Cons.IH [OF k(3)] dq t show ?case by (simp add: take_add case_prod_beta add.commute)
qed simp

subsection \<open>Properties\<close>

text \<open>
  C9. A workflow is handed out once. Take any sequence of operations of any executors on a
  reachable database. The dequeues among them hand a workflow out at most once more than it is
  enqueued again: by a recovery that clears its claim, by a resume that names it, or by a deletion
  that makes room for a new workflow of the same id. So without such a call no two executors ever
  start the same enqueued workflow.
\<close>

theorem handed_out_at_most_once:
  "count_list (claim_trace calls (fold exec_call earlier empty_db)) w \<le>
     1 + length (filter (requeues w) calls)"
  using claim_trace_count [OF reachable_ok, where w = w and cs = calls] by (rule order_trans) simp

text \<open>
  C21. The queue is a priority queue. Successive dequeues of one queue and partition, by
  executors of the same application version, with whatever limits each has, together hand out a
  prefix of the eligible workflows in order of priority and creation, and what is left to the next
  dequeue is the rest of that order: none is skipped, repeated or overtaken.
\<close>

theorem dequeues_refine_priority_queue:
  assumes "db_wf db" and "list_all (\<lambda>(i, _). same_view i j) ds"
  shows "\<exists>n. fst (work_off ds db) = map dequeued (take n (candidates j db)) \<and>
    candidates j (snd (work_off ds db)) = drop n (candidates j db) \<and>
    sorted (map (\<lambda>r. (ws_priority r, ws_created_at r)) (candidates j db))"
  using work_off_prefix [OF assms] by (simp add: candidates_def)

definition sample_dequeue2 :: DequeueInput where
  "sample_dequeue2 = sample_dequeue\<lparr>dq_executor_id := ''e2'', dq_worker_concurrency := None,
     dq_global_concurrency := None, dq_rate_limit := None, dq_max_tasks_per_iteration := 2\<rparr>"

lemma sample_dequeue2_view: "same_view sample_dequeue2 sample_dequeue2" "unthrottled sample_dequeue2"
  by (simp_all add: same_view_def unthrottled_def sample_dequeue2_def)

lemma sample_candidates2:
  "candidates sample_dequeue2 sample_queue_db =
     [sample_queue_row ''c'' 0 15, sample_queue_row ''b'' 0 20, sample_queue_row ''a'' 5 10]"
  by (simp add: candidates_def sql_select_def claimable_def sample_dequeue2_def sample_dequeue_def
      sample_queue_db_def partition_clause_def)

theorem dequeues_refine_priority_queue_witness:
  "\<exists>n. map dw_id (fst (work_off [(sample_dequeue, 1000, 1001), (sample_dequeue2, 1002, 1003)]
      sample_queue_db)) = take n [''c'', ''b'', ''a'']"
proof -
  have "list_all (\<lambda>(i, _). same_view i sample_dequeue2)
      [(sample_dequeue, 1000::int, 1001::int), (sample_dequeue2, 1002, 1003)]"
    by (simp add: same_view_def sample_dequeue2_def)
  from dequeues_refine_priority_queue [OF sample_queue_wf this] sample_candidates2
  obtain n where "fst (work_off [(sample_dequeue, 1000, 1001), (sample_dequeue2, 1002, 1003)] sample_queue_db) =
      map dequeued (take n [sample_queue_row ''c'' 0 15, sample_queue_row ''b'' 0 20,
        sample_queue_row ''a'' 5 10])"
    by auto
  then show ?thesis by (intro exI [of _ n]) (simp add: dequeued_def comp_def flip: take_map)
qed

text \<open>
  C22. Every eligible workflow is claimed. On a queue without worker, global and rate limits, as
  many iterations as it takes to cover the eligible workflows with the iteration limit hand out all
  of them, each once and in order, and leave nothing eligible, whatever the clocks say.
\<close>

theorem every_eligible_is_claimed:
  assumes "db_wf db" and "unthrottled i"
    and "length (candidates i db) \<le> length clocks * dq_max_tasks_per_iteration i"
  shows "fst (work_off (map (Pair i) clocks) db) = map dequeued (candidates i db) \<and>
    candidates i (snd (work_off (map (Pair i) clocks) db)) = []"
  using work_off_all [OF assms(1,2), of clocks] assms(3) by simp

theorem every_eligible_is_claimed_witness:
  "map dw_id (fst (work_off (map (Pair sample_dequeue2) [(1000, 1001), (1002, 1003)]) sample_queue_db)) =
     [''c'', ''b'', ''a'']"
proof -
  have "length (candidates sample_dequeue2 sample_queue_db) \<le>
      length [(1000::int, 1001::int), (1002, 1003)] * dq_max_tasks_per_iteration sample_dequeue2"
    by (simp add: sample_candidates2) (simp add: sample_dequeue2_def)
  from every_eligible_is_claimed [OF sample_queue_wf sample_dequeue2_view(2) this] show ?thesis
    by (simp add: sample_candidates2 dequeued_def)
qed

end
