(* ===== verification/Dbos_Overlap.thy ===== *)
theory Dbos_Overlap
  imports Dbos_Claims
begin

text \<open>
  Dequeue transactions that overlap. \<open>dequeue_workflows\<close> of \<open>db/queue.rs\<close> counts, then selects rows
  for update, then claims and commits, and the transactions of several executors run at the same
  time. Its three parts are separate here; a transaction that counts runs on the snapshot of its
  first statement (\<open>REPEATABLE READ\<close>), sees locks at the moment of its select, and fails when it would
  lock a row that was changed since the snapshot, as the database documents. The step relation
  interleaves any number of such transactions with any other writes, which wait for locked rows.

  Shown: the atomic dequeue is the run of one undisturbed transaction; no workflow is handed out
  twice however the transactions overlap; the global limit and the rate limit hold up to what became
  running since the snapshot, and NOWAIT makes one of two dequeues with the same view fail. Between
  executors of two versions, or with a rate limit alone, overlapping transactions do exceed the
  limits.
\<close>

subsection \<open>The parts of a dequeue\<close>

definition needs_snapshot :: "DequeueInput \<Rightarrow> bool" where
  "needs_snapshot i \<longleftrightarrow> dq_global_concurrency i \<noteq> None \<or> dq_rate_limit i \<noteq> None"

text \<open>The counts: the recent starts and the number of rows to select, or an early return.\<close>

definition dequeue_budget :: "DequeueInput \<Rightarrow> int \<Rightarrow> sysdb \<Rightarrow> (int \<times> int) option" where
  "dequeue_budget i now db =
     (let recent = num_recent i now db
      in if rate_exhausted i recent then None
         else let n = max_tasks i db in if n \<le> 0 then None else Some (recent, n))"

text \<open>
  The select locks its rows one by one. A row another transaction holds is refused with NOWAIT and
  passed over with SKIP LOCKED; a row that was changed since the snapshot cannot be locked.
\<close>

definition serialization_failure :: sqlx_error where
  "serialization_failure =
     Database (Some ''40001'') ''could not serialize access due to concurrent update''"

fun lock_rows ::
  "bool \<Rightarrow> (string \<Rightarrow> bool) \<Rightarrow> (string \<Rightarrow> bool) \<Rightarrow> nat \<Rightarrow> string list \<Rightarrow> DbosError + string list" where
  "lock_rows nowait locked changed 0 ws = Inr []"
| "lock_rows nowait locked changed (Suc n) [] = Inr []"
| "lock_rows nowait locked changed (Suc n) (w # ws) =
     (if locked w
      then (if nowait then Inl (from_sqlx lock_not_available)
            else lock_rows nowait locked changed (Suc n) ws)
      else if changed w then Inl (from_sqlx serialization_failure)
      else (case lock_rows nowait locked changed n ws of
              Inl e \<Rightarrow> Inl e
            | Inr ids \<Rightarrow> Inr (w # ids)))"

definition dequeue_select ::
  "DequeueInput \<Rightarrow> (string \<Rightarrow> bool) \<Rightarrow> (string \<Rightarrow> bool) \<Rightarrow> int \<Rightarrow> sysdb \<Rightarrow> DbosError + string list" where
  "dequeue_select i locked changed n view =
     lock_rows (dq_global_concurrency i \<noteq> None) locked changed (nat n)
       (map ws_workflow_uuid (candidates i view))"

lemma lock_rows_Inr:
  "lock_rows nowait locked changed n ws = Inr ids \<Longrightarrow>
   ids = take n (filter (\<lambda>w. \<not> locked w) ws) \<and> (\<forall>w \<in> set ids. \<not> locked w \<and> \<not> changed w)"
proof (induction ws arbitrary: n ids)
  case Nil
  then show ?case by (cases n) auto
next
  case (Cons w ws)
  show ?case
  proof (cases n)
    case 0
    with Cons.prems show ?thesis by simp
  next
    case (Suc m)
    show ?thesis
    proof (cases "locked w")
      case True
      with Cons.prems Suc have "lock_rows nowait locked changed n ws = Inr ids" by (simp split: if_splits)
      moreover from True have "filter (\<lambda>w. \<not> locked w) (w # ws) = filter (\<lambda>w. \<not> locked w) ws" by simp
      ultimately show ?thesis using Cons.IH by metis
    next
      case False
      with Cons.prems Suc obtain js where "\<not> changed w" "ids = w # js"
        "lock_rows nowait locked changed m ws = Inr js"
        by (cases "lock_rows nowait locked changed m ws") (auto split: if_splits)
      moreover from False Suc have "take n (filter (\<lambda>w. \<not> locked w) (w # ws)) =
          w # take m (filter (\<lambda>w. \<not> locked w) ws)" by simp
      ultimately show ?thesis using Cons.IH [of m js] False by (metis set_ConsD)
    qed
  qed
qed

lemma lock_rows_nowait: "lock_rows True locked changed n ws = Inr ids \<Longrightarrow> ids = take n ws"
proof (induction ws arbitrary: n ids)
  case (Cons w ws)
  then show ?case
    by (cases n; cases "lock_rows True locked changed (n - 1) ws") (auto split: if_splits)
qed (metis lock_rows.simps(1,2) not0_implies_Suc sum.inject(2) take_Nil)

lemma take_filter_all: "\<not> list_ex P (take n xs) \<Longrightarrow> take n (filter (\<lambda>x. \<not> P x) xs) = take n xs"
proof (induction xs arbitrary: n)
  case (Cons x xs)
  then show ?case by (cases n) auto
qed simp

lemma lock_rows_unchanged:
  "lock_rows nowait locked (\<lambda>_. False) n ws =
     (if nowait \<and> list_ex locked (take n ws) then Inl (from_sqlx lock_not_available)
      else Inr (take n (filter (\<lambda>w. \<not> locked w) ws)))"
proof (induction ws arbitrary: n)
  case Nil
  then show ?case by (cases n) simp_all
next
  case (Cons w ws)
  then show ?case by (cases n; cases nowait) (auto simp: take_filter_all)
qed

lemma lock_rows_refused:
  assumes "locked w \<or> changed w" and "0 < n"
  shows "\<exists>e. lock_rows True locked changed n (w # ws) = Inl (from_sqlx e) \<and>
    (is_contention e \<or> is_lock_not_available e)"
  using assms
  by (cases n) (auto simp: lock_not_available_def serialization_failure_def is_contention_def
      is_lock_not_available_def)

lemma dequeue_select_now:
  "dequeue_select i locked (\<lambda>_. False) n db = select_candidates i locked n db"
proof -
  have ex: "list_ex locked (map ws_workflow_uuid xs) = list_ex (\<lambda>r. locked (ws_workflow_uuid r)) xs"
    for xs :: "workflow_row list"
    by (simp add: list_ex_iff)
  show ?thesis
    by (simp add: dequeue_select_def select_candidates_def lock_rows_unchanged sql_limit_def Let_def
        filter_map comp_def take_map ex take_filter_all)
qed

lemma dequeue_in_parts:
  "dequeue_workflows i now1 now2 locked db =
     (case dequeue_budget i now1 db of
        None \<Rightarrow> (Inr [], db)
      | Some (recent, n) \<Rightarrow>
          (case dequeue_select i locked (\<lambda>_. False) n db of
             Inl e \<Rightarrow> (Inl e, db)
           | Inr ids \<Rightarrow>
               (case claim_loop i now2 recent [] ids db of
                  (claimed, db') \<Rightarrow> if claimed \<noteq> [] then (Inr claimed, db') else (Inr [], db))))"
  by (simp add: dequeue_workflows_def dequeue_budget_def dequeue_select_now Let_def)

subsection \<open>Overlapping transactions\<close>

record dequeue_tx =
  tx_input :: DequeueInput
  tx_now :: int
  tx_snapshot :: sysdb
  tx_recent :: int
  tx_max :: int
  tx_changed :: "string set"
  tx_ids :: "string list option"

type_synonym open_txs = "nat \<Rightarrow> dequeue_tx option"

datatype event = Quiet | Handed "string list" | Wrote sysdb sysdb

definition holds :: "dequeue_tx \<Rightarrow> string \<Rightarrow> bool" where
  "holds tx w = (case tx_ids tx of None \<Rightarrow> False | Some ids \<Rightarrow> w \<in> set ids)"

definition locked_by_others :: "open_txs \<Rightarrow> nat \<Rightarrow> string \<Rightarrow> bool" where
  "locked_by_others txs t w \<longleftrightarrow> (\<exists>u tx. u \<noteq> t \<and> txs u = Some tx \<and> holds tx w)"

definition touched :: "sysdb \<Rightarrow> sysdb \<Rightarrow> string set" where
  "touched db db' = {w. find_workflow db' w \<noteq> find_workflow db w}"

definition note_changed :: "string set \<Rightarrow> open_txs \<Rightarrow> open_txs" where
  "note_changed ws txs t = map_option (\<lambda>tx. tx\<lparr>tx_changed := tx_changed tx \<union> ws\<rparr>) (txs t)"

text \<open>Without a snapshot each statement sees the committed rows and rechecks those it waited for.\<close>

definition tx_select :: "sysdb \<Rightarrow> open_txs \<Rightarrow> nat \<Rightarrow> dequeue_tx \<Rightarrow> DbosError + string list" where
  "tx_select db txs t tx =
     (let i = tx_input tx
      in if needs_snapshot i
         then dequeue_select i (locked_by_others txs t) (\<lambda>w. w \<in> tx_changed tx) (tx_max tx)
                (tx_snapshot tx)
         else dequeue_select i (locked_by_others txs t) (\<lambda>_. False) (tx_max tx) db)"

inductive overlap_step :: "sysdb \<times> open_txs \<Rightarrow> event \<Rightarrow> sysdb \<times> open_txs \<Rightarrow> bool" where
  count: "txs t = None \<Longrightarrow> dequeue_budget i now db = Some (recent, n) \<Longrightarrow>
    overlap_step (db, txs) Quiet
      (db, txs(t \<mapsto> \<lparr>tx_input = i, tx_now = now, tx_snapshot = db, tx_recent = recent, tx_max = n,
                     tx_changed = {}, tx_ids = None\<rparr>))"
| select: "txs t = Some tx \<Longrightarrow> tx_ids tx = None \<Longrightarrow> tx_select db txs t tx = Inr ids \<Longrightarrow>
    overlap_step (db, txs) Quiet (db, txs(t \<mapsto> tx\<lparr>tx_ids := Some ids\<rparr>))"
| refuse: "txs t = Some tx \<Longrightarrow> tx_ids tx = None \<Longrightarrow> tx_select db txs t tx = Inl e \<Longrightarrow>
    overlap_step (db, txs) Quiet (db, txs(t := None))"
| commit: "txs t = Some tx \<Longrightarrow> tx_ids tx = Some ids \<Longrightarrow>
    claim_loop (tx_input tx) now (tx_recent tx) [] ids db = (claimed, db') \<Longrightarrow>
    overlap_step (db, txs) (Handed (map dw_id claimed))
      (db', note_changed (touched db db') (txs(t := None)))"
| abort: "overlap_step (db, txs) Quiet (db, txs(t := None))"
| others: "db_wf db' \<Longrightarrow> (\<And>t tx w. txs t = Some tx \<Longrightarrow> holds tx w \<Longrightarrow> w \<notin> touched db db') \<Longrightarrow>
    overlap_step (db, txs) (Wrote db db') (db', note_changed (touched db db') txs)"

inductive overlap_run :: "sysdb \<times> open_txs \<Rightarrow> event list \<Rightarrow> sysdb \<times> open_txs \<Rightarrow> bool" where
  stop: "overlap_run s [] s"
| more: "overlap_step s e s1 \<Longrightarrow> overlap_run s1 es s2 \<Longrightarrow> overlap_run s (e # es) s2"

inductive_cases overlap_stepE: "overlap_step (db, txs) e s'"
inductive_cases overlap_run_ConsE: "overlap_run s (e # es) s'"
inductive_simps overlap_run_Nil [simp]: "overlap_run s [] s'"

text \<open>Nobody is in a transaction.\<close>

definition idle :: open_txs where
  "idle = (\<lambda>_. None)"

subsection \<open>What overlapping transactions keep\<close>

definition tx_ok :: "sysdb \<Rightarrow> dequeue_tx \<Rightarrow> bool" where
  "tx_ok db tx \<longleftrightarrow>
     db_wf (tx_snapshot tx) \<and>
     dequeue_budget (tx_input tx) (tx_now tx) (tx_snapshot tx) = Some (tx_recent tx, tx_max tx) \<and>
     touched (tx_snapshot tx) db \<subseteq> tx_changed tx \<and>
     (\<forall>ids. tx_ids tx = Some ids \<longrightarrow>
        distinct ids \<and> int (length ids) \<le> tx_max tx \<and>
        (dq_global_concurrency (tx_input tx) \<noteq> None \<longrightarrow>
           ids = map ws_workflow_uuid
             (take (nat (tx_max tx)) (candidates (tx_input tx) (tx_snapshot tx)))) \<and>
        (\<forall>w \<in> set ids. \<exists>r. find_workflow db w = Some r \<and> claimable (tx_input tx) r))"

definition overlap_ok :: "sysdb \<times> open_txs \<Rightarrow> bool" where
  "overlap_ok s = (case s of (db, txs) \<Rightarrow>
     db_wf db \<and> (\<forall>t tx. txs t = Some tx \<longrightarrow> tx_ok db tx) \<and>
     (\<forall>t u tx ty w. t \<noteq> u \<longrightarrow> txs t = Some tx \<longrightarrow> txs u = Some ty \<longrightarrow> holds tx w \<longrightarrow> \<not> holds ty w))"

lemma overlap_ok_idle: "db_wf db \<Longrightarrow> overlap_ok (db, idle)"
  by (simp add: overlap_ok_def idle_def)

lemma candidates_row:
  assumes "db_wf db" and "w \<in> set (map ws_workflow_uuid (candidates i db))"
  shows "\<exists>r. find_workflow db w = Some r \<and> claimable i r"
proof -
  from assms(2) obtain r where "r \<in> set (workflow_status db)" "claimable i r" "w = ws_workflow_uuid r"
    by (auto simp: set_candidates)
  with find_workflow_member [OF assms(1)] show ?thesis by auto
qed

text \<open>What the select may lock: free rows, in order, that are still as the transaction saw them.\<close>

lemma dequeue_select_Inr:
  assumes "db_wf view" and "dequeue_select i locked changed n view = Inr ids"
    and "\<And>w. \<not> changed w \<Longrightarrow> find_workflow db w = find_workflow view w"
  shows "distinct ids \<and> int (length ids) \<le> max n 0 \<and>
    (\<forall>w \<in> set ids. \<not> locked w \<and> (\<exists>r. find_workflow db w = Some r \<and> claimable i r))"
proof -
  let ?ws = "map ws_workflow_uuid (candidates i view)"
  from lock_rows_Inr [OF assms(2) [unfolded dequeue_select_def]]
  have ids: "ids = take (nat n) (filter (\<lambda>w. \<not> locked w) ?ws)"
    and free: "\<forall>w \<in> set ids. \<not> locked w \<and> \<not> changed w" by blast+
  have "distinct ids" unfolding ids by (intro distinct_take distinct_filter distinct_candidates assms(1))
  moreover have "int (length ids) \<le> max n 0" unfolding ids by simp
  moreover have "set ids \<subseteq> set ?ws" unfolding ids using set_take_subset by fastforce
  ultimately show ?thesis using free assms(3) candidates_row [OF assms(1)] by (metis subsetD)
qed

lemma tx_select_Inr:
  assumes "db_wf db" and "tx_ok db tx" and "tx_select db txs t tx = Inr ids"
  shows "distinct ids \<and> int (length ids) \<le> tx_max tx \<and>
    (\<forall>w \<in> set ids. \<not> locked_by_others txs t w \<and>
       (\<exists>r. find_workflow db w = Some r \<and> claimable (tx_input tx) r))"
proof -
  have pos: "0 < tx_max tx" and snap: "db_wf (tx_snapshot tx)"
    and same: "\<And>w. w \<notin> tx_changed tx \<Longrightarrow> find_workflow db w = find_workflow (tx_snapshot tx) w"
    using assms(2)
    by (auto simp: tx_ok_def dequeue_budget_def touched_def Let_def split: if_splits)
  show ?thesis
  proof (cases "needs_snapshot (tx_input tx)")
    case True
    with assms(3) have "dequeue_select (tx_input tx) (locked_by_others txs t)
        (\<lambda>w. w \<in> tx_changed tx) (tx_max tx) (tx_snapshot tx) = Inr ids"
      by (simp add: tx_select_def)
    from dequeue_select_Inr [OF snap this, of db] same pos show ?thesis by simp
  next
    case False
    with assms(3) have "dequeue_select (tx_input tx) (locked_by_others txs t) (\<lambda>_. False)
        (tx_max tx) db = Inr ids"
      by (simp add: tx_select_def)
    from dequeue_select_Inr [OF assms(1) this, of db] pos show ?thesis by simp
  qed
qed

text \<open>A commit claims a prefix of the locked rows and touches nothing else.\<close>

lemma commit_claims:
  assumes "tx_ok db tx" and "tx_ids tx = Some ids"
    and "claim_loop (tx_input tx) now (tx_recent tx) [] ids db = (claimed, db')"
  shows "\<exists>k. map dw_id claimed = take k ids \<and> db' = claim_rows (tx_input tx) now (take k ids) db \<and>
    k = rate_budget (tx_input tx) (tx_recent tx) (length ids)"
proof -
  from assms(1,2) have d: "distinct ids"
    and rows: "\<And>w. w \<in> set ids \<Longrightarrow> \<exists>r. find_workflow db w = Some r \<and> ws_status r = as_str Enqueued"
    by (auto simp: tx_ok_def claimable_def)
  let ?k = "rate_budget (tx_input tx) (tx_recent tx) (length ids)"
  from claim_loop_spec [OF d rows, of "tx_input tx" now "tx_recent tx" "[]"] assms(3)
  have "claimed = map (\<lambda>w. dequeued (the (find_workflow db w))) (take ?k ids)"
    and db': "db' = claim_rows (tx_input tx) now (take ?k ids) db" by simp_all
  moreover
  have "dw_id (dequeued (the (find_workflow db w))) = w" if "w \<in> set ids" for w
    using rows [OF that] by (auto simp: dequeued_def dest: find_workflow_SomeD)
  then have "map (\<lambda>w. dw_id (dequeued (the (find_workflow db w)))) (take ?k ids) = take ?k ids"
    by (meson map_idI in_set_takeD)
  ultimately have "map dw_id claimed = take ?k ids" by (simp add: comp_def)
  with db' show ?thesis by blast
qed

lemma touched_claim_rows: "touched db (claim_rows i now ws db) \<subseteq> set ws"
proof
  fix w assume "w \<in> touched db (claim_rows i now ws db)"
  then show "w \<in> set ws"
    by (cases "find_workflow db w")
      (auto simp: touched_def find_workflow_claim_rows split: if_splits dest: find_workflow_SomeD)
qed

lemma claim_rows_db_wf: "db_wf db \<Longrightarrow> db_wf (claim_rows i now ids db)"
  unfolding claim_rows_def by (rule db_wf_update_workflows) auto

lemma tx_ok_later:
  assumes "tx_ok db tx" and "\<And>w. holds tx w \<Longrightarrow> w \<notin> touched db db'"
  shows "tx_ok db' (tx\<lparr>tx_changed := tx_changed tx \<union> touched db db'\<rparr>)"
proof -
  have "touched (tx_snapshot tx) db' \<subseteq> tx_changed tx \<union> touched db db'"
    using assms(1) by (auto simp: tx_ok_def touched_def)
  moreover have "find_workflow db' w = find_workflow db w" if "tx_ids tx = Some ids" "w \<in> set ids" for ids w
    using assms(2) [of w] that by (simp add: holds_def touched_def)
  ultimately show ?thesis using assms(1) by (auto simp: tx_ok_def)
qed

lemma holds_note [simp]: "holds (tx\<lparr>tx_changed := X\<rparr>) = holds tx"
  by (simp add: holds_def fun_eq_iff)

lemma overlap_ok_write:
  assumes ok: "overlap_ok (db, txs)" and wf: "db_wf db'"
    and free: "\<And>t tx w. txs t = Some tx \<Longrightarrow> holds tx w \<Longrightarrow> w \<notin> touched db db'"
  shows "overlap_ok (db', note_changed (touched db db') txs)"
proof -
  let ?txs = "note_changed (touched db db') txs"
  have src: "\<exists>tx0. txs t = Some tx0 \<and> tx = tx0\<lparr>tx_changed := tx_changed tx0 \<union> touched db db'\<rparr>"
    if "?txs t = Some tx" for t tx
    using that by (auto simp: note_changed_def)
  have "tx_ok db' tx" if tx: "?txs t = Some tx" for t tx
  proof -
    from src [OF tx] obtain tx0 where "txs t = Some tx0"
      and "tx = tx0\<lparr>tx_changed := tx_changed tx0 \<union> touched db db'\<rparr>" by blast
    with ok free [of t tx0] tx_ok_later [of db tx0 db'] show ?thesis by (auto simp: overlap_ok_def)
  qed
  moreover have "\<not> holds ty w"
    if "t \<noteq> u" "?txs t = Some tx" "?txs u = Some ty" "holds tx w" for t u tx ty w
    using src [OF that(2)] src [OF that(3)] that(1,4) ok by (fastforce simp: overlap_ok_def)
  ultimately show ?thesis using wf by (simp add: overlap_ok_def)
qed

lemma overlap_ok_close: "overlap_ok (db, txs) \<Longrightarrow> overlap_ok (db, txs(t := None))"
  by (auto simp: overlap_ok_def)

lemma overlap_step_ok:
  assumes "overlap_step s e s'" and "overlap_ok s"
  shows "overlap_ok s'"
  using assms
proof (induction rule: overlap_step.induct)
  case (count txs t i now db recent n)
  then have "tx_ok db \<lparr>tx_input = i, tx_now = now, tx_snapshot = db, tx_recent = recent, tx_max = n,
      tx_changed = {}, tx_ids = None\<rparr>"
    by (simp add: tx_ok_def touched_def overlap_ok_def)
  with count show ?case by (auto simp: overlap_ok_def holds_def)
next
  case (select txs t tx db ids)
  from select have wf: "db_wf db" and tx: "tx_ok db tx" by (auto simp: overlap_ok_def)
  note sel = tx_select_Inr [OF wf tx select.hyps(3)]
  have "ids = map ws_workflow_uuid (take (nat (tx_max tx)) (candidates (tx_input tx) (tx_snapshot tx)))"
    if "dq_global_concurrency (tx_input tx) \<noteq> None"
    using select.hyps(3) that
    by (auto simp: tx_select_def needs_snapshot_def dequeue_select_def take_map dest: lock_rows_nowait)
  with sel have "tx_ok db (tx\<lparr>tx_ids := Some ids\<rparr>)" using tx by (simp add: tx_ok_def)
  moreover have "\<not> holds ty w" if "u \<noteq> t" "txs u = Some ty" "w \<in> set ids" for u ty w
    using sel that unfolding locked_by_others_def by blast
  then have "\<forall>u ty w. u \<noteq> t \<longrightarrow> txs u = Some ty \<longrightarrow> holds (tx\<lparr>tx_ids := Some ids\<rparr>) w \<longrightarrow> \<not> holds ty w"
    by (simp add: holds_def)
  ultimately show ?case using select.prems unfolding overlap_ok_def by simp metis
next
  case (refuse txs t tx db e)
  then show ?case by (intro overlap_ok_close)
next
  case (commit txs t tx ids now db claimed db')
  from commit have tx: "tx_ok db tx" by (auto simp: overlap_ok_def)
  from commit_claims [OF tx commit.hyps(2,3)] obtain k
    where db': "db' = claim_rows (tx_input tx) now (take k ids) db" by blast
  have "w \<notin> touched db db'" if "(txs(t := None)) u = Some ty" "holds ty w" for u ty w
  proof
    assume "w \<in> touched db db'"
    with touched_claim_rows db' have "w \<in> set ids" by (metis in_set_takeD subsetD)
    then have "holds tx w" using commit.hyps(2) by (simp add: holds_def)
    moreover from that have "u \<noteq> t" "txs u = Some ty" by (auto split: if_splits)
    ultimately show False using commit.prems commit.hyps(1) that(2) by (auto simp: overlap_ok_def)
  qed
  moreover have "db_wf db'" using commit.prems by (simp add: overlap_ok_def db' claim_rows_db_wf)
  ultimately show ?case using overlap_ok_write [OF overlap_ok_close [OF commit.prems, of t]] by blast
next
  case (abort db txs t)
  then show ?case by (intro overlap_ok_close)
next
  case (others db' txs db)
  then show ?case by (intro overlap_ok_write) blast+
qed

lemma overlap_run_ok: "overlap_run s es s' \<Longrightarrow> overlap_ok s \<Longrightarrow> overlap_ok s'"
  by (induction rule: overlap_run.induct) (auto intro: overlap_step_ok)

lemma overlap_run_from_idle:
  assumes "db_wf db0" and "overlap_run (db0, idle) es (db, txs)"
  shows "db_wf db \<and> (\<forall>t tx. txs t = Some tx \<longrightarrow> tx_ok db tx) \<and>
    (\<forall>t u tx ty w. t \<noteq> u \<longrightarrow> txs t = Some tx \<longrightarrow> txs u = Some ty \<longrightarrow> holds tx w \<longrightarrow> \<not> holds ty w)"
  using overlap_run_ok [OF assms(2) overlap_ok_idle [OF assms(1)]] by (simp add: overlap_ok_def)

subsection \<open>Handing out\<close>

fun handed :: "event \<Rightarrow> string list" where
  "handed (Handed ws) = ws"
| "handed _ = []"

definition on_queue :: "string \<Rightarrow> sysdb \<Rightarrow> bool" where
  "on_queue w db \<longleftrightarrow>
     (\<exists>r. find_workflow db w = Some r \<and> ws_status r \<in> {as_str Enqueued, as_str Delayed})"

fun puts_back :: "string \<Rightarrow> event \<Rightarrow> bool" where
  "puts_back w (Wrote db db') = (\<not> on_queue w db \<and> on_queue w db')"
| "puts_back w _ = False"

lemma overlap_step_handed:
  assumes "overlap_step s e s'" and "overlap_ok s"
  shows "distinct (handed e) \<and>
    (\<forall>w \<in> set (handed e). on_queue w (fst s) \<and> \<not> on_queue w (fst s') \<and> \<not> puts_back w e) \<and>
    (\<forall>w. \<not> on_queue w (fst s) \<longrightarrow> \<not> puts_back w e \<longrightarrow> \<not> on_queue w (fst s'))"
  using assms
proof (induction rule: overlap_step.induct)
  case (commit txs t tx ids now db claimed db')
  from commit have tx: "tx_ok db tx" by (auto simp: overlap_ok_def)
  from commit_claims [OF tx commit.hyps(2,3)] obtain k
    where cl: "map dw_id claimed = take k ids"
      and db': "db' = claim_rows (tx_input tx) now (take k ids) db" by blast
  have d: "distinct ids" and rows: "\<And>w. w \<in> set ids \<Longrightarrow> \<exists>r. find_workflow db w = Some r \<and>
      ws_status r = as_str Enqueued"
    using tx commit.hyps(2) by (auto simp: tx_ok_def claimable_def)
  have "on_queue w db \<and> \<not> on_queue w db'" if "w \<in> set (take k ids)" for w
    using rows [OF in_set_takeD [OF that]] that
    by (auto simp: on_queue_def db' find_workflow_claim_rows dest: find_workflow_SomeD)
  moreover have "\<not> on_queue w db'" if "\<not> on_queue w db" for w
    using that by (auto simp: on_queue_def db' find_workflow_claim_rows)
  ultimately show ?case using d by (simp add: cl)
qed simp_all

lemma handed_out_count:
  assumes "overlap_run s es s'" and "overlap_ok s"
  shows "count_list (concat (map handed es)) w \<le>
    (if on_queue w (fst s) then 1 else 0) + length (filter (puts_back w) es)"
  using assms
proof (induction rule: overlap_run.induct)
  case (more s e s1 es s2)
  note st = overlap_step_handed [OF more.hyps(1) more.prems]
  note IH = more.IH [OF overlap_step_ok [OF more.hyps(1) more.prems]]
  show ?case
  proof (cases "w \<in> set (handed e)")
    case True
    with st have "count_list (handed e) w = 1" "on_queue w (fst s)" "\<not> on_queue w (fst s1)"
      "\<not> puts_back w e"
      by (simp_all add: distinct_count_one)
    with IH show ?thesis by simp
  next
    case False
    with IH st show ?thesis by (cases "on_queue w (fst s1)") auto
  qed
qed simp

subsection \<open>Counting rows by their ids\<close>

definition rows_with :: "(workflow_row \<Rightarrow> bool) \<Rightarrow> sysdb \<Rightarrow> string set" where
  "rows_with P db = {w. \<exists>r. find_workflow db w = Some r \<and> P r}"

lemma rows_with_image: "db_wf db \<Longrightarrow> rows_with P db = ws_workflow_uuid ` set (filter P (workflow_status db))"
  by (auto simp: rows_with_def find_workflow_member dest: find_workflow_SomeD)

lemma sql_count_rows: "db_wf db \<Longrightarrow> sql_count P (workflow_status db) = int (card (rows_with P db))"
  using distinct_card [OF distinct_map_filter [OF db_wf_distinct_ids [of db], of P]]
  by (simp add: rows_with_image sql_count_def)

lemma finite_rows_with: "db_wf db \<Longrightarrow> finite (rows_with P db)"
  by (simp add: rows_with_image)

text \<open>A row that satisfies the predicate now and did not in the snapshot.\<close>

definition newly :: "(workflow_row \<Rightarrow> bool) \<Rightarrow> sysdb \<Rightarrow> workflow_row \<Rightarrow> bool" where
  "newly P snap r \<longleftrightarrow> P r \<and> ws_workflow_uuid r \<notin> rows_with P snap"

lemma count_since_snapshot:
  assumes "db_wf db" and "db_wf snap"
  shows "sql_count P (workflow_status db) \<le>
    sql_count P (workflow_status snap) + sql_count (newly P snap) (workflow_status db)"
proof -
  have "rows_with P db \<subseteq> rows_with P snap \<union> rows_with (newly P snap) db"
    by (auto simp: rows_with_def newly_def dest: find_workflow_SomeD)
  then have "card (rows_with P db) \<le> card (rows_with P snap \<union> rows_with (newly P snap) db)"
    by (intro card_mono finite_UnI finite_rows_with assms)
  also have "\<dots> \<le> card (rows_with P snap) + card (rows_with (newly P snap) db)"
    by (rule card_Un_le)
  finally show ?thesis using assms by (simp add: sql_count_rows)
qed

lemma count_claim_rows:
  assumes "db_wf db"
  shows "sql_count Q (workflow_status (claim_rows i now ws db)) \<le>
    sql_count Q (workflow_status db) + int (length ws)"
proof -
  let ?E = "\<lambda>r. ws_workflow_uuid r \<in> set ws \<and> ws_status r = as_str Enqueued"
  have "card (rows_with ?E db) \<le> card (set ws)"
    by (intro card_mono) (auto simp: rows_with_def dest: find_workflow_SomeD)
  also have "\<dots> \<le> length ws" by (rule card_length)
  finally have "sql_count ?E (workflow_status db) \<le> int (length ws)"
    using assms by (simp add: sql_count_rows)
  then show ?thesis
    using sql_count_update_le [of Q ?E "claim_row i now" "workflow_status db"]
    by (simp add: claim_rows_def)
qed

text \<open>A commit raises a count by at most what it claims, over the count of its snapshot and what came since.\<close>

lemma commit_count:
  assumes wf: "db_wf db" and tx: "tx_ok db tx" and ids: "tx_ids tx = Some ids"
    and loop: "claim_loop (tx_input tx) now (tx_recent tx) [] ids db = (claimed, db')"
  shows "sql_count Q (workflow_status db') \<le> sql_count Q (workflow_status (tx_snapshot tx)) +
      sql_count (newly Q (tx_snapshot tx)) (workflow_status db) +
      int (rate_budget (tx_input tx) (tx_recent tx) (nat (tx_max tx)))"
proof -
  from commit_claims [OF tx ids loop] obtain k
    where db': "db' = claim_rows (tx_input tx) now (take k ids) db"
      and k: "k = rate_budget (tx_input tx) (tx_recent tx) (length ids)" by blast
  have snap: "db_wf (tx_snapshot tx)" and "int (length ids) \<le> tx_max tx"
    using tx ids by (auto simp: tx_ok_def)
  then have "length (take k ids) \<le> rate_budget (tx_input tx) (tx_recent tx) (nat (tx_max tx))"
    unfolding k by (auto simp: rate_budget_def split: option.splits)
  with count_claim_rows [OF wf, of Q "tx_input tx" now "take k ids"]
    count_since_snapshot [OF wf snap, of Q]
  show ?thesis unfolding db' by linarith
qed

subsection \<open>Properties\<close>

text \<open>
  C8. However the dequeue transactions of the executors overlap with each other and with all other
  writes, whichever rows they lock, pass over, fail on or give back, a workflow is handed out at
  most once for being on a queue at the start and once for every write that puts it back on one.
\<close>

theorem overlapping_dequeues_hand_out_once:
  assumes "db_wf db" and "overlap_run (db, idle) es (db', txs)"
  shows "count_list (concat (map handed es)) w \<le>
    (if on_queue w db then 1 else 0) + length (filter (puts_back w) es)"
  using handed_out_count [OF assms(2) overlap_ok_idle [OF assms(1)]] by simp

text \<open>
  C18. What the limits are worth under overlap. When a dequeue transaction commits, the PENDING
  workflows of its queue (partition) are within the global limit up to those that became PENDING
  since the transaction counted, and the workflows started in its window are within the rate limit
  up to those that count as started since then: what other transactions commit between the count
  and the commit is not seen, all else is.
\<close>

theorem limits_hold_up_to_overlap:
  assumes "db_wf db0" and "overlap_run (db0, idle) es (db, txs)"
    and "txs t = Some tx" and "tx_ids tx = Some ids"
    and "claim_loop (tx_input tx) now (tx_recent tx) [] ids db = (claimed, db')"
  shows "(case dq_global_concurrency (tx_input tx) of
       Some gc \<Rightarrow> sql_count (running_globally (tx_input tx)) (workflow_status db') \<le> int gc +
         sql_count (newly (running_globally (tx_input tx)) (tx_snapshot tx)) (workflow_status db)
     | None \<Rightarrow> True) \<and>
    (case dq_rate_limit (tx_input tx) of
       Some (limit, period) \<Rightarrow>
         (let started = recently_started (tx_input tx) (tx_now tx - int period)
          in sql_count started (workflow_status db') \<le> int limit +
             sql_count (newly started (tx_snapshot tx)) (workflow_status db))
     | None \<Rightarrow> True)"
proof -
  from overlap_run_from_idle [OF assms(1,2)] assms(3) have wf: "db_wf db" and tx: "tx_ok db tx" by auto
  note count = commit_count [OF wf tx assms(4,5)]
  let ?i = "tx_input tx" and ?snap = "tx_snapshot tx"
  from tx have recent: "tx_recent tx = num_recent ?i (tx_now tx) ?snap" "\<not> rate_exhausted ?i (tx_recent tx)"
    and n: "tx_max tx = max_tasks ?i ?snap" "0 < tx_max tx"
    by (auto simp: tx_ok_def dequeue_budget_def Let_def split: if_splits)
  have "sql_count (running_globally ?i) (workflow_status db') \<le> int gc +
      sql_count (newly (running_globally ?i) ?snap) (workflow_status db)"
    if "dq_global_concurrency ?i = Some gc" for gc
  proof -
    have "tx_max tx \<le> int gc - sql_count (running_globally ?i) (workflow_status ?snap)"
      using n that by (auto simp: max_tasks_def Let_def)
    moreover have "int (rate_budget ?i (tx_recent tx) (nat (tx_max tx))) \<le> tx_max tx"
      using n(2) by (auto simp: rate_budget_def split: option.splits)
    ultimately show ?thesis using count [of "running_globally ?i"] by linarith
  qed
  moreover have "sql_count (recently_started ?i (tx_now tx - int period)) (workflow_status db') \<le>
      int limit + sql_count (newly (recently_started ?i (tx_now tx - int period)) ?snap) (workflow_status db)"
    if rate: "dq_rate_limit ?i = Some (limit, period)" for limit period
  proof -
    have "int (rate_budget ?i (tx_recent tx) (nat (tx_max tx))) \<le> int limit - tx_recent tx"
      using recent(2) rate by (auto simp: rate_budget_def rate_exhausted_def)
    moreover have "tx_recent tx =
        sql_count (recently_started ?i (tx_now tx - int period)) (workflow_status ?snap)"
      using recent(1) rate by (simp add: num_recent_def)
    ultimately show ?thesis
      using count [of "recently_started ?i (tx_now tx - int period)"] by linarith
  qed
  ultimately show ?thesis by (auto simp: Let_def split: option.splits)
qed

text \<open>
  C19. NOWAIT protects the global limit. Of two dequeue transactions that counted the same rows, for
  one queue, partition and application version under a global limit, only one gets to claim: while
  the first holds the rows it selected, the select of the second fails, and once the first has
  handed something out the select of the second fails as well, both times with an error the queue
  runner treats as contention.
\<close>

theorem nowait_lets_one_claim:
  assumes "db_wf db0" and "overlap_run (db0, idle) es (db, txs)"
    and "t \<noteq> u" and "txs t = Some tx" and "txs u = Some ty"
    and view: "tx_snapshot tx = tx_snapshot ty" "same_view (tx_input tx) (tx_input ty)"
    and gc: "dq_global_concurrency (tx_input tx) \<noteq> None" "dq_global_concurrency (tx_input ty) \<noteq> None"
    and ids: "tx_ids tx = Some ids" "ids \<noteq> []"
    and loop: "claim_loop (tx_input tx) now (tx_recent tx) [] ids db = (claimed, db')"
  shows "(\<exists>e. tx_select db txs u ty = Inl e \<and> is_db_contention e) \<and>
    (claimed \<noteq> [] \<longrightarrow>
      (\<exists>txs1 ty1 e. overlap_step (db, txs) (Handed (map dw_id claimed)) (db', txs1) \<and>
         txs1 u = Some ty1 \<and> tx_select db' txs1 u ty1 = Inl e \<and> is_db_contention e))"
proof -
  from overlap_run_from_idle [OF assms(1,2)] assms(4,5)
  have wf: "db_wf db" and tx: "tx_ok db tx" and ty: "tx_ok db ty" by auto
  let ?cs = "map ws_workflow_uuid (candidates (tx_input ty) (tx_snapshot ty))"
  have "ids = take (nat (tx_max tx)) ?cs"
    using tx ids(1) gc(1) view same_view_candidates [OF view(2), of "tx_snapshot ty"]
    by (simp add: tx_ok_def take_map)
  with ids(2) obtain w ws where cs: "?cs = w # ws" and hd: "w = hd ids"
    by (cases ?cs) (auto simp: take_Cons split: nat.splits)
  have pos: "0 < nat (tx_max ty)" and snap: "needs_snapshot (tx_input ty)"
    using ty gc(2) by (auto simp: tx_ok_def dequeue_budget_def needs_snapshot_def Let_def split: if_splits)
  have refused: "\<exists>e. tx_select db1 txs1 u ty1 = Inl e \<and> is_db_contention e"
    if "locked_by_others txs1 u w \<or> w \<in> tx_changed ty1"
      "tx_input ty1 = tx_input ty" "tx_max ty1 = tx_max ty" "tx_snapshot ty1 = tx_snapshot ty"
    for db1 txs1 ty1
    using lock_rows_refused [of "locked_by_others txs1 u" w "\<lambda>w. w \<in> tx_changed ty1" "nat (tx_max ty)" ws]
      that pos snap gc(2) cs
    by (auto simp: tx_select_def dequeue_select_def from_sqlx_def is_db_contention_def source_sqlx_def)
  have "locked_by_others txs u w"
    using assms(3,4) ids hd by (auto simp: locked_by_others_def holds_def)
  then have "\<exists>e. tx_select db txs u ty = Inl e \<and> is_db_contention e" by (intro refused) simp_all
  moreover have "\<exists>txs1 ty1 e. overlap_step (db, txs) (Handed (map dw_id claimed)) (db', txs1) \<and>
         txs1 u = Some ty1 \<and> tx_select db' txs1 u ty1 = Inl e \<and> is_db_contention e"
    if "claimed \<noteq> []"
  proof -
    let ?txs1 = "note_changed (touched db db') (txs(t := None))"
    let ?ty1 = "ty\<lparr>tx_changed := tx_changed ty \<union> touched db db'\<rparr>"
    from commit_claims [OF tx ids(1) loop] obtain k where cl: "map dw_id claimed = take k ids"
      and db': "db' = claim_rows (tx_input tx) now (take k ids) db" by blast
    have "w \<in> set (take k ids)" using cl that hd by (cases k; cases ids) auto
    moreover have "w \<in> set ids" using ids(2) hd by simp
    then have "\<exists>r. find_workflow db w = Some r \<and> ws_status r = as_str Enqueued"
      using tx ids(1) unfolding tx_ok_def claimable_def by blast
    then obtain r where r: "find_workflow db w = Some r" "ws_status r = as_str Enqueued" "ws_workflow_uuid r = w"
      by (auto dest: find_workflow_SomeD)
    ultimately have "find_workflow db' w = Some (claim_row (tx_input tx) now r)"
      by (simp add: db' find_workflow_claim_rows)
    moreover have "claim_row (tx_input tx) now r \<noteq> r" using r(2) by (metis claim_row_frame(2) as_str_inject WorkflowStatusType.distinct(1))
    ultimately have "w \<in> touched db db'" using r(1) by (simp add: touched_def)
    then have "w \<in> tx_changed ?ty1" by simp
    then have "\<exists>e. tx_select db' ?txs1 u ?ty1 = Inl e \<and> is_db_contention e"
      by (intro refused) simp_all
    moreover have "?txs1 u = Some ?ty1" using assms(3,5) by (simp add: note_changed_def)
    moreover have "overlap_step (db, txs) (Handed (map dw_id claimed)) (db', ?txs1)"
      using assms(4) ids(1) loop by (rule overlap_step.commit)
    ultimately show ?thesis by blast
  qed
  ultimately show ?thesis by blast
qed

text \<open>
  The atomic dequeue is a run of the overlapping model: what \<open>dequeue_workflows\<close> returns and does
  while others hold rows is what a transaction does that counts, selects and commits undisturbed.
\<close>

theorem dequeue_is_a_run:
  assumes "txs t = None"
    and "dequeue_workflows i now1 now2 (locked_by_others txs t) db = (Inr claimed, db')"
    and "claimed \<noteq> []"
  shows "overlap_run (db, txs) [Quiet, Quiet, Handed (map dw_id claimed)]
    (db', note_changed (touched db db') txs)"
proof -
  let ?L = "locked_by_others txs t"
  from assms(2,3) obtain recent n ids where budget: "dequeue_budget i now1 db = Some (recent, n)"
    and sel: "dequeue_select i ?L (\<lambda>_. False) n db = Inr ids"
    and loop: "claim_loop i now2 recent [] ids db = (claimed, db')"
    unfolding dequeue_in_parts by (auto split: option.splits sum.splits prod.splits if_splits)
  let ?tx = "\<lparr>tx_input = i, tx_now = now1, tx_snapshot = db, tx_recent = recent, tx_max = n,
    tx_changed = {}, tx_ids = None\<rparr>"
  have L: "locked_by_others (txs(t \<mapsto> ?tx)) t = ?L"
    by (auto simp: locked_by_others_def fun_eq_iff)
  have "overlap_step (db, txs) Quiet (db, txs(t \<mapsto> ?tx))"
    by (rule overlap_step.count) (simp_all add: assms(1) budget)
  moreover have "overlap_step (db, txs(t \<mapsto> ?tx)) Quiet (db, (txs(t \<mapsto> ?tx))(t \<mapsto> ?tx\<lparr>tx_ids := Some ids\<rparr>))"
    by (rule overlap_step.select) (simp_all add: tx_select_def L sel)
  moreover have "overlap_step (db, txs(t \<mapsto> ?tx\<lparr>tx_ids := Some ids\<rparr>)) (Handed (map dw_id claimed))
      (db', note_changed (touched db db') ((txs(t \<mapsto> ?tx\<lparr>tx_ids := Some ids\<rparr>))(t := None)))"
    by (rule overlap_step.commit [where tx = "?tx\<lparr>tx_ids := Some ids\<rparr>" and ids = ids and now = now2])
      (simp_all add: loop)
  moreover have "(txs(t \<mapsto> ?tx\<lparr>tx_ids := Some ids\<rparr>))(t := None) = txs"
    using assms(1) by (simp add: fun_upd_idem)
  ultimately show ?thesis by (simp add: overlap_run.more overlap_run.stop)
qed

subsection \<open>Limits that overlap breaks\<close>

text \<open>
  Two executors on the queue of \<open>sample_queue_db\<close>, with a rate limit of one start per period and one
  worker each; and two executors of different versions on a queue with a global limit of one.
\<close>

definition rated_dequeue :: "string \<Rightarrow> DequeueInput" where
  "rated_dequeue e = sample_dequeue\<lparr>dq_executor_id := e, dq_worker_concurrency := Some 1,
     dq_global_concurrency := None, dq_rate_limit := Some (1, 1000)\<rparr>"

definition versioned_dequeue :: "string \<Rightarrow> string \<Rightarrow> DequeueInput" where
  "versioned_dequeue e v = sample_dequeue\<lparr>dq_executor_id := e, dq_application_version := v,
     dq_worker_concurrency := None, dq_global_concurrency := Some 1, dq_rate_limit := None\<rparr>"

definition versioned_db :: sysdb where
  "versioned_db = empty_db\<lparr>workflow_status :=
     [sample_queue_row ''a'' 0 10\<lparr>ws_application_version := Some ''v1''\<rparr>,
      sample_queue_row ''b'' 0 20\<lparr>ws_application_version := Some ''v2''\<rparr>]\<rparr>"

text \<open>Two transactions that count before either selects, and select before either commits.\<close>

definition counted :: "DequeueInput \<Rightarrow> int \<Rightarrow> sysdb \<Rightarrow> int \<Rightarrow> int \<Rightarrow> dequeue_tx" where
  "counted i now db m n = \<lparr>tx_input = i, tx_now = now, tx_snapshot = db, tx_recent = m, tx_max = n,
     tx_changed = {}, tx_ids = None\<rparr>"

definition first_selected :: "dequeue_tx \<Rightarrow> string list \<Rightarrow> dequeue_tx \<Rightarrow> open_txs" where
  "first_selected x ids y = [0 \<mapsto> x\<lparr>tx_ids := Some ids\<rparr>, 1 \<mapsto> y]"

lemma overlap_run_append:
  "overlap_run s es s1 \<Longrightarrow> overlap_run s1 fs s2 \<Longrightarrow> overlap_run s (es @ fs) s2"
  by (induction rule: overlap_run.induct) (auto intro: overlap_run.more)

lemma overlap_first_selected:
  assumes "dequeue_budget i now db = Some (m, n)" and "dequeue_budget j now db = Some (m', n')"
    and "needs_snapshot i" and "dequeue_select i (\<lambda>_. False) (\<lambda>_. False) n db = Inr ids"
  shows "overlap_run (db, idle) [Quiet, Quiet, Quiet]
    (db, first_selected (counted i now db m n) ids (counted j now db m' n'))"
proof -
  let ?x = "counted i now db m n" and ?y = "counted j now db m' n'"
  have "overlap_step (db, idle) Quiet (db, [0 \<mapsto> ?x])"
    using overlap_step.count [of idle 0 i now db m n] assms(1) by (simp add: idle_def counted_def)
  moreover have "overlap_step (db, [0 \<mapsto> ?x]) Quiet (db, [0 \<mapsto> ?x, 1 \<mapsto> ?y])"
    using overlap_step.count [of "[0 \<mapsto> ?x]" 1 j now db m' n'] assms(2) by (simp add: counted_def)
  moreover have none: "locked_by_others [0 \<mapsto> ?x, 1 \<mapsto> ?y] 0 = (\<lambda>_. False)"
    by (auto simp: locked_by_others_def fun_eq_iff holds_def counted_def)
  have "overlap_step (db, [0 \<mapsto> ?x, 1 \<mapsto> ?y]) Quiet (db, first_selected ?x ids ?y)"
    using overlap_step.select [of "[0 \<mapsto> ?x, 1 \<mapsto> ?y]" 0 ?x db ids] assms(3,4) none
    by (simp add: tx_select_def first_selected_def counted_def fun_upd_twist)
  ultimately show ?thesis by (blast intro: overlap_run.intros)
qed

lemma overlap_of_two:
  assumes "dequeue_budget i now db = Some (m, n)" and "dequeue_budget j now db = Some (m', n')"
    and "needs_snapshot i" and "needs_snapshot j"
    and "dequeue_select i (\<lambda>_. False) (\<lambda>_. False) n db = Inr ids"
    and "dequeue_select j (\<lambda>w. w \<in> set ids) (\<lambda>_. False) n' db = Inr ids'"
    and "claim_loop i now m [] ids db = (c, db1)" and "claim_loop j now m' [] ids' db1 = (c', db2)"
  shows "overlap_run (db, idle) [Quiet, Quiet, Quiet, Quiet, Handed (map dw_id c), Handed (map dw_id c')]
    (db2, idle)"
proof -
  let ?x = "counted i now db m n" and ?y = "counted j now db m' n'"
  let ?s = "first_selected ?x ids ?y"
  let ?x1 = "?x\<lparr>tx_ids := Some ids\<rparr>" and ?y1 = "?y\<lparr>tx_ids := Some ids'\<rparr>"
  let ?y2 = "?y1\<lparr>tx_changed := touched db db1\<rparr>"
  have held: "locked_by_others ?s 1 = (\<lambda>w. w \<in> set ids)"
    by (auto simp: locked_by_others_def fun_eq_iff holds_def counted_def first_selected_def)
  have "overlap_step (db, ?s) Quiet (db, [0 \<mapsto> ?x1, 1 \<mapsto> ?y1])"
    using overlap_step.select [of ?s 1 ?y db ids'] assms(4,6) held
    by (simp add: tx_select_def counted_def) (simp add: first_selected_def)
  moreover have "note_changed (touched db db1) ([0 \<mapsto> ?x1, 1 \<mapsto> ?y1](0 := None)) = [1 \<mapsto> ?y2]"
    by (simp add: note_changed_def fun_eq_iff counted_def)
  then have "overlap_step (db, [0 \<mapsto> ?x1, 1 \<mapsto> ?y1]) (Handed (map dw_id c)) (db1, [1 \<mapsto> ?y2])"
    using overlap_step.commit [of "[0 \<mapsto> ?x1, 1 \<mapsto> ?y1]" 0 ?x1 ids now db c db1] assms(7)
    by (simp add: counted_def)
  moreover have "note_changed (touched db1 db2) ([1 \<mapsto> ?y2](1 := None)) = idle"
    by (simp add: note_changed_def idle_def fun_eq_iff)
  then have "overlap_step (db1, [1 \<mapsto> ?y2]) (Handed (map dw_id c')) (db2, idle)"
    using overlap_step.commit [of "[1 \<mapsto> ?y2]" 1 ?y2 ids' now db1 c' db2] assms(8)
    by (simp add: counted_def)
  ultimately have "overlap_run (db, ?s) [Quiet, Handed (map dw_id c), Handed (map dw_id c')] (db2, idle)"
    by (blast intro: overlap_run.intros)
  from overlap_run_append [OF overlap_first_selected [OF assms(1-3,5)] this] show ?thesis by simp
qed

lemma claim_one:
  assumes "find_workflow db w = Some r" and "ws_status r = as_str Enqueued"
    and "\<not> rate_exhausted i recent"
  shows "claim_loop i now recent [] [w] db = ([dequeued r], claim_rows i now [w] db)"
  using assms claim_rows_Cons [of i now "[]" w db] by simp

lemma rated_overlap:
  "overlap_run (sample_queue_db, idle) [Quiet, Quiet, Quiet, Quiet, Handed [''c''], Handed [''b'']]
     (claim_rows (rated_dequeue ''e2'') 1000 [''b'']
       (claim_rows (rated_dequeue ''e1'') 1000 [''c''] sample_queue_db), idle)"
proof -
  have cs: "candidates (rated_dequeue e) sample_queue_db =
      [sample_queue_row ''c'' 0 15, sample_queue_row ''b'' 0 20, sample_queue_row ''a'' 5 10]" for e
    by (simp add: candidates_def sql_select_def claimable_def rated_dequeue_def sample_dequeue_def
        sample_queue_db_def partition_clause_def)
  have budget: "dequeue_budget (rated_dequeue e) 1000 sample_queue_db = Some (0, 1)" for e
    by (simp add: dequeue_budget_def num_recent_def recently_started_def rate_exhausted_def max_tasks_def
        rated_dequeue_def sample_dequeue_def sample_queue_db_def)
  have rate: "\<not> rate_exhausted (rated_dequeue e) 0" "needs_snapshot (rated_dequeue e)"
    "dq_global_concurrency (rated_dequeue e) = None" for e
    by (simp_all add: rate_exhausted_def needs_snapshot_def rated_dequeue_def)
  have sel: "dequeue_select (rated_dequeue e) (\<lambda>w. w \<in> set ws) (\<lambda>_. False) 1 sample_queue_db =
      Inr (take 1 (filter (\<lambda>w. w \<notin> set ws) [''c'', ''b'', ''a'']))" for e ws
    by (simp add: dequeue_select_def cs rate lock_rows_unchanged)
  have rows: "find_workflow sample_queue_db ''c'' = Some (sample_queue_row ''c'' 0 15)"
    "find_workflow sample_queue_db ''b'' = Some (sample_queue_row ''b'' 0 20)"
    by (simp_all add: find_workflow_def find_key_def sample_queue_db_def)
  then have row: "find_workflow (claim_rows (rated_dequeue ''e1'') 1000 [''c''] sample_queue_db) ''b'' =
      Some (sample_queue_row ''b'' 0 20)"
    by (simp add: find_workflow_claim_rows)
  have l1: "claim_loop (rated_dequeue ''e1'') 1000 0 [] [''c''] sample_queue_db =
      ([dequeued (sample_queue_row ''c'' 0 15)], claim_rows (rated_dequeue ''e1'') 1000 [''c''] sample_queue_db)"
    by (rule claim_one [OF rows(1)]) (simp_all add: rate)
  have l2: "claim_loop (rated_dequeue ''e2'') 1000 0 [] [''b'']
      (claim_rows (rated_dequeue ''e1'') 1000 [''c''] sample_queue_db) =
      ([dequeued (sample_queue_row ''b'' 0 20)],
       claim_rows (rated_dequeue ''e2'') 1000 [''b''] (claim_rows (rated_dequeue ''e1'') 1000 [''c''] sample_queue_db))"
    by (rule claim_one [OF row]) (simp_all add: rate)
  have sels: "dequeue_select (rated_dequeue ''e1'') (\<lambda>_. False) (\<lambda>_. False) 1 sample_queue_db = Inr [''c'']"
    "dequeue_select (rated_dequeue ''e2'') (\<lambda>w. w \<in> set [''c'']) (\<lambda>_. False) 1 sample_queue_db = Inr [''b'']"
    using sel [of "''e1''" "[]"] sel [of "''e2''" "[''c'']"] by simp_all
  show ?thesis
    using overlap_of_two [OF budget budget rate(2) rate(2) sels l1 l2] by (simp add: dequeued_def)
qed

lemma versioned_overlap:
  "overlap_run (versioned_db, idle) [Quiet, Quiet, Quiet, Quiet, Handed [''a''], Handed [''b'']]
     (claim_rows (versioned_dequeue ''e2'' ''v2'') 1000 [''b'']
       (claim_rows (versioned_dequeue ''e1'' ''v1'') 1000 [''a''] versioned_db), idle)"
proof -
  let ?i = "versioned_dequeue ''e1'' ''v1''" and ?j = "versioned_dequeue ''e2'' ''v2''"
  let ?a = "sample_queue_row ''a'' 0 10\<lparr>ws_application_version := Some ''v1''\<rparr>"
  let ?b = "sample_queue_row ''b'' 0 20\<lparr>ws_application_version := Some ''v2''\<rparr>"
  have cs: "candidates ?i versioned_db = [?a]" "candidates ?j versioned_db = [?b]"
    by (simp_all add: candidates_def sql_select_def claimable_def versioned_dequeue_def sample_dequeue_def
        versioned_db_def partition_clause_def)
  have budget: "dequeue_budget (versioned_dequeue e v) 1000 versioned_db = Some (0, 1)" for e v
    by (simp add: dequeue_budget_def num_recent_def rate_exhausted_def max_tasks_def running_globally_def
        versioned_dequeue_def sample_dequeue_def versioned_db_def)
  have gc: "\<not> rate_exhausted (versioned_dequeue e v) 0" "needs_snapshot (versioned_dequeue e v)" for e v
    by (simp_all add: rate_exhausted_def needs_snapshot_def versioned_dequeue_def)
  have sel: "dequeue_select ?i (\<lambda>_. False) (\<lambda>_. False) 1 versioned_db = Inr [''a'']"
    "dequeue_select ?j (\<lambda>w. w \<in> set [''a'']) (\<lambda>_. False) 1 versioned_db = Inr [''b'']"
    by (simp_all add: dequeue_select_def cs lock_rows_unchanged)
  have rows: "find_workflow versioned_db ''a'' = Some ?a" "find_workflow versioned_db ''b'' = Some ?b"
    by (simp_all add: find_workflow_def find_key_def versioned_db_def)
  then have row: "find_workflow (claim_rows ?i 1000 [''a''] versioned_db) ''b'' = Some ?b"
    by (simp add: find_workflow_claim_rows)
  have l1: "claim_loop ?i 1000 0 [] [''a''] versioned_db =
      ([dequeued ?a], claim_rows ?i 1000 [''a''] versioned_db)"
    by (rule claim_one [OF rows(1)]) (simp_all add: gc)
  have l2: "claim_loop ?j 1000 0 [] [''b''] (claim_rows ?i 1000 [''a''] versioned_db) =
      ([dequeued ?b], claim_rows ?j 1000 [''b''] (claim_rows ?i 1000 [''a''] versioned_db))"
    by (rule claim_one [OF row]) (simp_all add: gc)
  show ?thesis
    using overlap_of_two [OF budget budget gc(2) gc(2) sel l1 l2] by (simp add: dequeued_def)
qed

text \<open>
  C20. Overlap breaks the limits. Under a rate limit of one start per period, two executors with one
  free worker each start two workflows at the same instant: both count none, and SKIP LOCKED sends
  the second to the next row. Under a global limit of one, two executors of different application
  versions run two workflows: both count none, and as each version selects only its own rows NOWAIT
  finds nothing locked.
\<close>

theorem overlap_exceeds_limits:
  "(\<exists>db'. overlap_run (sample_queue_db, idle)
       [Quiet, Quiet, Quiet, Quiet, Handed [''c''], Handed [''b'']] (db', idle) \<and>
     dq_rate_limit (rated_dequeue ''e1'') = Some (1, 1000) \<and>
     sql_count (recently_started (rated_dequeue ''e1'') (1000 - 1000)) (workflow_status db') = 2) \<and>
   (\<exists>db'. overlap_run (versioned_db, idle)
       [Quiet, Quiet, Quiet, Quiet, Handed [''a''], Handed [''b'']] (db', idle) \<and>
     dq_global_concurrency (versioned_dequeue ''e1'' ''v1'') = Some 1 \<and>
     sql_count (running_globally (versioned_dequeue ''e1'' ''v1'')) (workflow_status db') = 2)"
proof (intro conjI exI)
  show "overlap_run (sample_queue_db, idle) [Quiet, Quiet, Quiet, Quiet, Handed [''c''], Handed [''b'']]
     (claim_rows (rated_dequeue ''e2'') 1000 [''b'']
       (claim_rows (rated_dequeue ''e1'') 1000 [''c''] sample_queue_db), idle)"
    by (rule rated_overlap)
  show "overlap_run (versioned_db, idle) [Quiet, Quiet, Quiet, Quiet, Handed [''a''], Handed [''b'']]
     (claim_rows (versioned_dequeue ''e2'' ''v2'') 1000 [''b'']
       (claim_rows (versioned_dequeue ''e1'' ''v1'') 1000 [''a''] versioned_db), idle)"
    by (rule versioned_overlap)
qed (simp_all add: claim_rows_def recently_started_def running_globally_def rated_dequeue_def
    versioned_dequeue_def sample_dequeue_def sample_queue_db_def versioned_db_def partition_clause_def
    claim_row_def sql_gt_def)

subsection \<open>Instances\<close>

definition second_dequeue :: DequeueInput where
  "second_dequeue = sample_dequeue\<lparr>dq_executor_id := ''e2''\<rparr>"

definition sample_tx :: "DequeueInput \<Rightarrow> dequeue_tx" where
  "sample_tx i = counted i 1000 sample_queue_db 0 2"

definition sample_open :: open_txs where
  "sample_open = first_selected (sample_tx sample_dequeue) [''c'', ''b''] (sample_tx second_dequeue)"

lemma sample_budget:
  "dequeue_budget sample_dequeue 1000 sample_queue_db = Some (0, 2)"
  "dequeue_budget second_dequeue 1000 sample_queue_db = Some (0, 2)"
  by (simp_all add: dequeue_budget_def num_recent_def recently_started_def rate_exhausted_def max_tasks_def
      running_globally_def second_dequeue_def sample_dequeue_def sample_queue_db_def)

lemma sample_select:
  "dequeue_select sample_dequeue (\<lambda>_. False) (\<lambda>_. False) 2 sample_queue_db = Inr [''c'', ''b'']"
proof -
  have "candidates sample_dequeue sample_queue_db =
      [sample_queue_row ''c'' 0 15, sample_queue_row ''b'' 0 20, sample_queue_row ''a'' 5 10]"
    by (simp add: candidates_def sql_select_def claimable_def sample_dequeue_def sample_queue_db_def
        partition_clause_def)
  then show ?thesis by (simp add: dequeue_select_def lock_rows_unchanged)
qed

lemma sample_overlap: "overlap_run (sample_queue_db, idle) [Quiet, Quiet, Quiet] (sample_queue_db, sample_open)"
  unfolding sample_open_def sample_tx_def
  by (rule overlap_first_selected [OF sample_budget _ sample_select])
    (simp add: needs_snapshot_def sample_dequeue_def)

lemma sample_claim:
  "claim_loop sample_dequeue 1001 0 [] [''c'', ''b''] sample_queue_db =
     ([dequeued (sample_queue_row ''c'' 0 15), dequeued (sample_queue_row ''b'' 0 20)],
      claim_rows sample_dequeue 1001 [''c'', ''b''] sample_queue_db)"
proof -
  have rows: "find_workflow sample_queue_db ''c'' = Some (sample_queue_row ''c'' 0 15)"
    "find_workflow sample_queue_db ''b'' = Some (sample_queue_row ''b'' 0 20)"
    by (simp_all add: find_workflow_def find_key_def sample_queue_db_def)
  moreover from this have "\<exists>r. find_workflow sample_queue_db w = Some r \<and> ws_status r = as_str Enqueued"
    if "w \<in> set [''c'', ''b'']" for w
    using that by auto
  ultimately show ?thesis
    using claim_loop_spec [of "[''c'', ''b'']" sample_queue_db sample_dequeue 1001 0 "[]"]
    by (simp add: rate_budget_def sample_limits del: claim_loop.simps)
qed

text \<open>The first transaction has selected, the second has only counted.\<close>

definition selected_tx :: dequeue_tx where
  "selected_tx = (sample_tx sample_dequeue)\<lparr>tx_ids := Some [''c'', ''b'']\<rparr>"

lemma sample_open_txs:
  "sample_open 0 = Some selected_tx" "sample_open 1 = Some (sample_tx second_dequeue)"
  "tx_ids selected_tx = Some [''c'', ''b'']"
  by (simp_all add: sample_open_def first_selected_def selected_tx_def)

lemma selected_tx_simps:
  "tx_input selected_tx = sample_dequeue" "tx_recent selected_tx = 0" "tx_snapshot selected_tx = sample_queue_db"
  "tx_input (sample_tx i) = i" "tx_snapshot (sample_tx i) = sample_queue_db"
  "dq_global_concurrency sample_dequeue = Some 5" "dq_global_concurrency second_dequeue = Some 5"
  "same_view sample_dequeue second_dequeue"
  by (simp_all add: selected_tx_def sample_tx_def counted_def second_dequeue_def sample_dequeue_def
      same_view_def)

lemma sample_tx_claim:
  "claim_loop (tx_input selected_tx) 1001 (tx_recent selected_tx) [] [''c'', ''b''] sample_queue_db =
     ([dequeued (sample_queue_row ''c'' 0 15), dequeued (sample_queue_row ''b'' 0 20)],
      claim_rows sample_dequeue 1001 [''c'', ''b''] sample_queue_db)"
  unfolding selected_tx_simps by (rule sample_claim)

theorem overlapping_dequeues_hand_out_once_witness:
  "count_list (concat (map handed
      [Quiet, Quiet, Quiet, Quiet, Handed [''c''], Handed [''b'']])) ''c'' \<le>
    (if on_queue ''c'' sample_queue_db then 1 else 0) +
    length (filter (puts_back ''c'') [Quiet, Quiet, Quiet, Quiet, Handed [''c''], Handed [''b'']])"
  by (rule overlapping_dequeues_hand_out_once [OF sample_queue_wf rated_overlap])

theorem limits_hold_up_to_overlap_witness:
  "sql_count (running_globally sample_dequeue)
      (workflow_status (claim_rows sample_dequeue 1001 [''c'', ''b''] sample_queue_db)) \<le>
    5 + sql_count (newly (running_globally sample_dequeue) sample_queue_db) (workflow_status sample_queue_db)"
  using limits_hold_up_to_overlap [OF sample_queue_wf sample_overlap sample_open_txs(1,3) sample_tx_claim]
  unfolding selected_tx_simps by simp

theorem nowait_lets_one_claim_witness:
  "\<exists>e. tx_select sample_queue_db sample_open 1 (sample_tx second_dequeue) = Inl e \<and> is_db_contention e"
  using nowait_lets_one_claim [OF sample_queue_wf sample_overlap _ sample_open_txs(1,2) _ _ _ _
      sample_open_txs(3) _ sample_tx_claim]
  by (simp add: selected_tx_simps)

theorem dequeue_is_a_run_witness:
  "\<exists>db' txs. overlap_run (sample_queue_db, idle) [Quiet, Quiet, Handed [''c'', ''b'']] (db', txs)"
proof -
  have "locked_by_others idle 0 = (\<lambda>_. False)" "idle 0 = None"
    by (simp_all add: locked_by_others_def idle_def fun_eq_iff)
  with dequeue_is_a_run [of idle 0 sample_dequeue 1000 1001 sample_queue_db] sample_dequeue_run
  show ?thesis by (auto simp: dequeued_def)
qed

end
