(* ===== verification/Dbos_Replay.thy ===== *)
theory Dbos_Replay
  imports Dbos_Context
begin

text \<open>
  Crash recovery by replay. A workflow body is a program over the durable operations of
  \<open>Dbos_Context\<close>: at each call it continues with the operation's result. The lemmas show, per
  operation, that a recorded call answers from its record without touching the database, and that
  the answer is the one the live call gave; the properties lift this to whole runs, for any
  interleaving with other executors that leaves the workflow's own records alone.
\<close>

subsection \<open>Programs over the durable operations\<close>

datatype 'v op =
    StepOp string "'v db_op"
  | SendOp string 'v "string option"
  | RecvOp "string option" nat
  | SetEventOp string 'v
  | GetEventOp string string nat
  | WriteStreamOp string 'v
  | CloseStreamOp string
  | SleepOp nat

datatype 'v outcome = OutUnit | OutValue 'v | OutOption "'v option"

datatype 'v prog = Finish "DbosError + 'v" | Call "'v op" "DbosError + 'v outcome \<Rightarrow> 'v prog"

definition map_ok :: "('a \<Rightarrow> 'b) \<Rightarrow> 'e + 'a \<Rightarrow> 'e + 'b" where
  "map_ok f r = (case r of Inl e \<Rightarrow> Inl e | Inr v \<Rightarrow> Inr (f v))"

lemma map_ok_simps [simp]: "map_ok f (Inl e) = Inl e" "map_ok f (Inr v) = Inr (f v)"
  by (simp_all add: map_ok_def)

text \<open>
  One call of the body. The duration \<open>sleep\<close> returns is dropped: it depends on the clock and is
  not part of the record.
\<close>

definition first_of :: "('a \<Rightarrow> 'b) \<Rightarrow> 'a \<times> 's \<Rightarrow> 'b \<times> 's" where
  "first_of f p = (f (fst p), snd p)"

fun perform ::
  "'v value_codec \<Rightarrow> WorkflowContext \<Rightarrow> call_env \<Rightarrow> 'v op \<Rightarrow> run_state \<Rightarrow>
   ((DbosError + 'v outcome) \<times> run_state) option" where
  "perform vc wc env (StepOp name body) st =
     Some (first_of (map_ok OutValue) (run_step vc (en_now1 env) wc name body st))"
| "perform vc wc env (SendOp dest v topic) st =
     Some (first_of (map_ok (\<lambda>_. OutUnit)) (send vc env wc dest v topic st))"
| "perform vc wc env (RecvOp topic tmo) st =
     map_option (first_of (map_ok OutOption)) (recv vc env wc topic tmo st)"
| "perform vc wc env (SetEventOp key v) st =
     Some (first_of (map_ok (\<lambda>_. OutUnit)) (set_event vc env wc key v st))"
| "perform vc wc env (GetEventOp target key tmo) st =
     map_option (first_of (map_ok OutOption)) (get_event vc env wc target key tmo st)"
| "perform vc wc env (WriteStreamOp key v) st =
     Some (first_of (map_ok (\<lambda>_. OutUnit)) (write_stream vc env wc key v st))"
| "perform vc wc env (CloseStreamOp key) st =
     Some (first_of (map_ok (\<lambda>_. OutUnit)) (close_stream vc env wc key st))"
| "perform vc wc env (SleepOp ms) st =
     Some (first_of (map_ok (\<lambda>_. OutUnit)) (sleep vc env wc ms st))"

fun op_name :: "'v op \<Rightarrow> string" where
  "op_name (StepOp name body) = name"
| "op_name (SendOp dest v topic) = ''DBOS.send''"
| "op_name (RecvOp topic tmo) = ''DBOS.recv''"
| "op_name (SetEventOp key v) = ''DBOS.setEvent''"
| "op_name (GetEventOp target key tmo) = ''DBOS.getEvent''"
| "op_name (WriteStreamOp key v) = ''DBOS.writeStream''"
| "op_name (CloseStreamOp key) = ''DBOS.closeStream''"
| "op_name (SleepOp ms) = ''DBOS.sleep''"

fun op_width :: "'v op \<Rightarrow> nat" where
  "op_width (RecvOp topic tmo) = 2"
| "op_width (GetEventOp target key tmo) = 2"
| "op_width _ = 1"

subsection \<open>The step counter\<close>

definition at_step :: "run_state \<Rightarrow> nat \<Rightarrow> bool" where
  "at_step st n \<longleftrightarrow> rs_step st = word_of_int (int n - 1)"

definition advance :: "nat \<Rightarrow> run_state \<Rightarrow> run_state" where
  "advance k st = st\<lparr>rs_step := rs_step st + of_nat k\<rparr>"

lemma at_step_new [simp]: "at_step (new_run db ws) 0"
  by (simp add: at_step_def new_run_def)

lemma advance_simps [simp]:
  "rs_db (advance k st) = rs_db st" "rs_waiters (advance k st) = rs_waiters st"
  "advance 0 st = st"
  by (simp_all add: advance_def)

lemma at_step_advance: "at_step st n \<Longrightarrow> at_step (advance k st) (n + k)"
  by (simp add: at_step_def advance_def algebra_simps)

lemma at_step_db [simp]: "at_step (st\<lparr>rs_db := db\<rparr>) n = at_step st n"
  by (simp add: at_step_def)

lemma next_step_id_at:
  assumes "at_step st n" and "n < 2 ^ 31"
  shows "next_step_id st = (int n, advance 1 st)"
proof -
  have "rs_step st + 1 = (word_of_int (int n) :: 32 word)"
    using assms(1) by (simp add: at_step_def)
  moreover have "sint (word_of_int (int n) :: 32 word) = int n"
    using assms(2) unfolding sint_sbintrunc' by (simp add: signed_take_bit_int_eq_self)
  ultimately show ?thesis by (simp add: next_step_id_def advance_def)
qed

lemma advance_advance [simp]: "advance j (advance k st) = advance (k + j) st"
  by (simp add: advance_def algebra_simps)

lemma advance_db [simp]: "advance k (st\<lparr>rs_db := db\<rparr>) = (advance k st)\<lparr>rs_db := db\<rparr>"
  by (simp add: advance_def)

subsection \<open>A workflow's own records\<close>

definition same_ops :: "string \<Rightarrow> sysdb \<Rightarrow> sysdb \<Rightarrow> bool" where
  "same_ops w db db' \<longleftrightarrow> (\<forall>f. find_operation db' w f = find_operation db w f)"

definition records :: "string \<Rightarrow> int \<Rightarrow> operation_row \<Rightarrow> sysdb \<Rightarrow> sysdb \<Rightarrow> bool" where
  "records w f r db db' \<longleftrightarrow>
     (\<forall>g. find_operation db' w g = (if g = f then Some r else find_operation db w g))"

lemma same_ops_refl [simp]: "same_ops w db db"
  by (simp add: same_ops_def)

lemma same_ops_trans: "same_ops w a b \<Longrightarrow> same_ops w b c \<Longrightarrow> same_ops w a c"
  by (simp add: same_ops_def)

lemma same_ops_records: "same_ops w a b \<Longrightarrow> records w f r b c \<Longrightarrow> records w f r a c"
  by (simp add: same_ops_def records_def)

lemma same_ops_outputs: "operation_outputs db' = operation_outputs db \<Longrightarrow> same_ops w db db'"
  by (simp add: same_ops_def find_operation_def)

lemma record_operation_records:
  "record_operation_result now w f n out err ch ser db = (Inr (), db') \<Longrightarrow>
     records w f (operation_values now w f n out err ch ser) db db'"
  by (auto simp: record_operation_Inr records_def find_operation_append split: option.splits)

lemma record_operation_same: "record_operation_result now w f n out err ch ser db = (Inl e, db') \<Longrightarrow>
    same_ops w db db'"
  by (auto dest: record_operation_Inl_state)

subsection \<open>Answers from the record\<close>

definition recorded_answer :: "'v value_codec \<Rightarrow> 'v op \<Rightarrow> operation_row \<Rightarrow> DbosError + 'v outcome" where
  "recorded_answer vc op r =
     (case op of
        StepOp name body \<Rightarrow>
          (case oo_error r of
             Some err \<Rightarrow> Inl (decoded_step_error (vc_error vc) err (oo_serialization r))
           | None \<Rightarrow> map_ok OutValue (stored_value vc (oo_output r) (oo_serialization r)))
      | RecvOp topic tmo \<Rightarrow> map_ok OutOption (decode_optional vc (recorded r))
      | GetEventOp target key tmo \<Rightarrow> map_ok OutOption (decode_optional vc (recorded r))
      | SleepOp ms \<Rightarrow> map_ok (\<lambda>_. OutUnit) (stored_i64 vc (recorded r))
      | _ \<Rightarrow> Inr OutUnit)"

definition live_status :: "sysdb \<Rightarrow> string \<Rightarrow> bool" where
  "live_status db w \<longleftrightarrow> (\<exists>s. get_status db w = Some s \<and> s \<noteq> ''CANCELLED'')"

text \<open>\<open>write_stream\<close> encodes its value before it takes a step id.\<close>

definition encodes :: "'v value_codec \<Rightarrow> 'v op \<Rightarrow> bool" where
  "encodes vc op = (case op of WriteStreamOp key v \<Rightarrow> \<not> isl (vc_to vc v) | _ \<Rightarrow> True)"

lemma check_recorded:
  assumes "live_status db w" and "find_operation db w f = Some r"
  shows "check_operation_execution w f (oo_function_name r) db = Inr (Some (recorded r))"
  using assms by (auto simp: live_status_def check_operation_found)

lemma durable_unit_recorded:
  assumes "at_step st n" and "n < 2 ^ 31" and "\<not> wc_within_step wc"
    and "live_status (rs_db st) (wc_workflow_id wc)"
    and "find_operation (rs_db st) (wc_workflow_id wc) (int n) = Some r"
    and "oo_function_name r = name"
  shows "durable_unit name refusal race wc work st = (Inr (), advance 1 st)"
  using check_recorded [OF assms(4,5)] assms
  by (simp add: durable_unit_def next_step_id_at)

lemma perform_recorded:
  assumes "at_step st n" and "n < 2 ^ 31 - 1" and "\<not> wc_within_step wc"
    and "live_status (rs_db st) (wc_workflow_id wc)"
    and "find_operation (rs_db st) (wc_workflow_id wc) (int n) = Some r"
    and "oo_function_name r = op_name op" and "encodes vc op"
  shows "perform vc wc env op st = Some (recorded_answer vc op r, advance (op_width op) st)"
proof -
  note chk = check_recorded [OF assms(4,5), unfolded assms(6)]
  have n: "n < 2 ^ 31" using assms(2) by simp
  have n2: "n + 1 < 2 ^ 31" using assms(2) by simp
  note ids = next_step_id_at [OF assms(1) n]
    next_step_id_at [OF at_step_advance [OF assms(1), of 1] n2]
  note du = durable_unit_recorded [OF assms(1) n assms(3-5)]
  show ?thesis
  proof (cases op)
    case (StepOp name body)
    with chk ids(1) assms(3) show ?thesis
      by (simp add: run_step_def replay_step_def recorded_answer_def first_of_def recorded_def
          split: option.splits sum.splits)
  next
    case (SendOp dest v topic)
    with du assms(6) show ?thesis by (simp add: send_def recorded_answer_def first_of_def)
  next
    case (RecvOp topic tmo)
    with chk ids assms(3) show ?thesis
      by (simp add: recv_def recorded_answer_def first_of_def Let_def numeral_2_eq_2)
  next
    case (SetEventOp key v)
    with du assms(6) show ?thesis by (simp add: set_event_def recorded_answer_def first_of_def)
  next
    case (GetEventOp target key tmo)
    with chk ids assms(3) show ?thesis
      by (simp add: get_event_def recorded_answer_def first_of_def Let_def numeral_2_eq_2)
  next
    case (WriteStreamOp key v)
    with du assms(6,7) show ?thesis
      by (auto simp: write_stream_def write_stream_raw_def recorded_answer_def first_of_def
          encode_value_def encodes_def split: sum.splits)
  next
    case (CloseStreamOp key)
    with du assms(6) show ?thesis
      by (simp add: close_stream_def write_stream_raw_def recorded_answer_def first_of_def)
  next
    case (SleepOp ms)
    with chk ids(1) assms(3) show ?thesis
      by (auto simp: sleep_def record_sleep_def sleep_deadline_def on_db_def andthen_def ret_def
          recorded_answer_def first_of_def split: sum.splits)
  qed
qed

subsection \<open>The live call\<close>

text \<open>Work that, when it succeeds, adds exactly the workflow's record of one call, and otherwise none.\<close>

definition writes_once :: "string \<Rightarrow> int \<Rightarrow> string \<Rightarrow> 'a db_op \<Rightarrow> bool" where
  "writes_once w f name m \<longleftrightarrow>
     (\<forall>db. case m db of
        (Inl _, db') \<Rightarrow> same_ops w db db'
      | (Inr _, db') \<Rightarrow> \<exists>r. oo_function_name r = name \<and> records w f r db db')"

definition keeps_ops :: "string \<Rightarrow> 'a db_op \<Rightarrow> bool" where
  "keeps_ops w m \<longleftrightarrow> (\<forall>db. same_ops w db (snd (m db)))"

lemma writes_once_record: "writes_once w f name (record_operation_result now w f name out err ch ser)"
  by (auto simp: writes_once_def split: prod.splits sum.splits
      dest: record_operation_records record_operation_same intro: exI [of _ "operation_values now w f name out err ch ser"])

lemma writes_once_throw: "writes_once w f name (throw e)"
  by (simp add: writes_once_def throw_def)

lemma writes_once_transaction: "writes_once w f name m \<Longrightarrow> writes_once w f name (transaction m)"
  by (auto simp: writes_once_def transaction_def split: prod.splits sum.splits)

lemma writes_once_andthen:
  assumes "keeps_ops w m" and "\<And>a. writes_once w f name (k a)"
  shows "writes_once w f name (andthen m k)"
  unfolding writes_once_def
proof
  fix db
  obtain r db1 where m: "m db = (r, db1)" by force
  have same: "same_ops w db db1" using assms(1) m by (metis keeps_ops_def snd_conv)
  show "case andthen m k db of (Inl _, db') \<Rightarrow> same_ops w db db'
      | (Inr _, db') \<Rightarrow> \<exists>r. oo_function_name r = name \<and> records w f r db db'"
  proof (cases r)
    case (Inl e)
    with m same show ?thesis by (simp add: andthen_def)
  next
    case (Inr a)
    have "case k a db1 of (Inl _, db') \<Rightarrow> same_ops w db1 db'
        | (Inr _, db') \<Rightarrow> \<exists>r. oo_function_name r = name \<and> records w f r db1 db'"
      using assms(2) by (simp add: writes_once_def)
    with m Inr same show ?thesis
      by (auto simp: andthen_def split: prod.splits sum.splits
          intro: same_ops_trans same_ops_records)
  qed
qed

lemma writes_once_after:
  "(\<And>db. same_ops w db (race db)) \<Longrightarrow> writes_once w f name m \<Longrightarrow>
   case m (race db) of
     (Inl _, db') \<Rightarrow> same_ops w db db'
   | (Inr _, db') \<Rightarrow> \<exists>r. oo_function_name r = name \<and> records w f r db db'"
  by (auto simp: writes_once_def split: prod.splits sum.splits intro: same_ops_trans same_ops_records)
    (metis same_ops_trans, metis same_ops_records)

lemma keeps_ops_frames:
  "keeps_ops w (insert_notification u now d t m ser)"
  "keeps_ops w (upsert_workflow_event v k val ser)"
  "keeps_ops w (insert_workflow_event_history v g k val ser)"
  "keeps_ops w (write_stream_entry v g k val ser')"
  by (auto simp: keeps_ops_def insert_notification_def insert_notification_row_def
      intro!: same_ops_outputs)

definition quiet :: "string \<Rightarrow> call_env \<Rightarrow> 'v op \<Rightarrow> bool" where
  "quiet w env op \<longleftrightarrow>
     (\<forall>db. same_ops w db (en_before env db)) \<and> (\<forall>db. same_ops w db (en_race env db)) \<and>
     (\<forall>p \<in> set (en_rounds env). \<forall>db. same_ops w db (fst p db)) \<and>
     (case op of StepOp name body \<Rightarrow> keeps_ops w body | _ \<Rightarrow> True)"

definition storable :: "'v value_codec \<Rightarrow> call_env \<Rightarrow> 'v op \<Rightarrow> DbosError + 'v outcome \<Rightarrow> bool" where
  "storable vc env op res =
     (case op of
        StepOp name body \<Rightarrow>
          (case res of
             Inr (OutValue v) \<Rightarrow>
               (\<exists>j. vc_to vc v = Inr j \<and> vc_from vc j = Inr v \<and> serde_ok (vc_serde vc) j)
           | Inl e \<Rightarrow>
               other (display e) = e \<and>
               es_from_str (vc_error vc) (es_to_string (vc_error vc) (plain_payload (display e))) =
                 Inr (plain_payload (display e)) \<and>
               es_to_string (vc_error vc) (plain_payload (display e)) \<noteq> []
           | _ \<Rightarrow> True)
      | SleepOp ms \<Rightarrow>
          (let end_ms = en_now1 env + cast_i64 (int ms)
           in vc_i64_from vc (Number (IntNum end_ms)) = Inr end_ms \<and>
              serde_ok (vc_serde vc) (Number (IntNum end_ms)))
      | _ \<Rightarrow> True)"

lemma wait_rounds_same:
  assumes "\<forall>p \<in> set rounds. \<forall>db. same_ops w db (fst p db)"
    and "wait_rounds found deadline rounds db = Some (x, db')"
  shows "same_ops w db db'"
  using assms
proof (induction rounds arbitrary: db)
  case (Cons p rounds)
  obtain others instant where p: "p = (others, instant)" by force
  have one: "same_ops w db (others db)" using Cons.prems(1) p by simp
  show ?case
  proof (cases "found (others db) \<noteq> None \<or> instant \<ge> deadline")
    case True
    with Cons.prems(2) p have "db' = others db" by (auto simp: Let_def split: option.splits)
    with one show ?thesis by simp
  next
    case False
    with Cons.prems(2) p have "wait_rounds found deadline rounds (others db) = Some (x, db')"
      by (auto simp: Let_def)
    with Cons have "same_ops w (others db) db'" by simp
    with one show ?thesis by (rule same_ops_trans)
  qed
qed simp

lemma check_fresh:
  assumes "find_operation db w f = None"
  obtains e where "check_operation_execution w f name db = Inl e"
    | "check_operation_execution w f name db = Inr None"
proof (cases "check_operation_execution w f name db")
  case (Inr x)
  with assms have "x = None"
    by (auto simp: check_operation_execution_def split: option.splits if_splits)
  with Inr that(2) show ?thesis by simp
qed (rule that(1))

text \<open>What a live call that left its record did, for every operation.\<close>

definition live_effect :: "'v value_codec \<Rightarrow> string \<Rightarrow> nat \<Rightarrow> 'v op \<Rightarrow> run_state \<Rightarrow>
    DbosError + 'v outcome \<Rightarrow> run_state \<Rightarrow> operation_row \<Rightarrow> bool" where
  "live_effect vc w n op st res st' r \<longleftrightarrow>
     oo_function_name r = op_name op \<and> recorded_answer vc op r = res \<and> encodes vc op \<and>
     rs_step st' = rs_step (advance (op_width op) st) \<and> rs_waiters st' = rs_waiters st \<and>
     (\<forall>g. g < int n \<or> g \<ge> int (n + op_width op) \<longrightarrow>
        find_operation (rs_db st') w g = find_operation (rs_db st) w g)"

lemma durable_unit_live:
  assumes "at_step st n" and "n < 2 ^ 31" and "\<not> wc_within_step wc"
    and "find_operation (rs_db st) (wc_workflow_id wc) (int n) = None"
    and "durable_unit name refusal race wc work st = (res, st')"
    and "find_operation (rs_db st') (wc_workflow_id wc) (int n) = Some r"
    and "writes_once (wc_workflow_id wc) (int n) name (work (int n))"
    and "\<And>db. same_ops (wc_workflow_id wc) db (race db)"
  shows "res = Inr () \<and> oo_function_name r = name \<and> rs_step st' = rs_step (advance 1 st) \<and>
    rs_waiters st' = rs_waiters st \<and>
    (\<forall>g. g \<noteq> int n \<longrightarrow> find_operation (rs_db st') (wc_workflow_id wc) g =
       find_operation (rs_db st) (wc_workflow_id wc) g)"
  using assms(4)
proof (rule check_fresh [of _ _ _ name])
  fix e assume "check_operation_execution (wc_workflow_id wc) (int n) name (rs_db st) = Inl e"
  with assms show ?thesis by (auto simp: durable_unit_def next_step_id_at)
next
  assume chk: "check_operation_execution (wc_workflow_id wc) (int n) name (rs_db st) = Inr None"
  obtain q db' where wk: "work (int n) (race (rs_db st)) = (q, db')" by force
  have st': "res = q" "st' = (advance 1 st)\<lparr>rs_db := db'\<rparr>"
    using assms(1-3,5) chk wk by (auto simp: durable_unit_def next_step_id_at on_db_def)
  have "case work (int n) (race (rs_db st)) of (Inl _, db') \<Rightarrow> same_ops (wc_workflow_id wc) (rs_db st) db'
      | (Inr _, db') \<Rightarrow> \<exists>r. oo_function_name r = name \<and>
          records (wc_workflow_id wc) (int n) r (rs_db st) db'"
    by (rule writes_once_after [OF assms(8,7)])
  with wk st' assms(4,6) show ?thesis
    by (cases q) (auto simp: same_ops_def records_def)
qed

lemma stored_value_encoded:
  assumes "encode_value (vc_serde vc) (vc_to vc) v Portable = Inr s" and "vc_to vc v = Inr j"
    and "vc_from vc j = Inr v" and "serde_ok (vc_serde vc) j"
  shows "stored_value vc (Some s) (Some PORTABLE_NAME) = Inr v"
  using assms decode_encode_json [OF assms(4), of Portable]
  by (auto simp: encode_value_def stored_value_def decode_value_def)

lemma decoded_serialized_error:
  assumes "es_from_str es (es_to_string es (plain_payload m)) = Inr (plain_payload m)"
    and "es_to_string es (plain_payload m) \<noteq> []"
  shows "decoded_step_error es (serialize_workflow_error es m None Portable) (Some PORTABLE_NAME) =
    other m"
  using assms by (simp add: decoded_step_error_def serialize_workflow_error_def
      deserialize_workflow_error_def plain_payload_def)

lemma step_live:
  assumes "at_step st n" and "n < 2 ^ 31" and "\<not> wc_within_step wc"
    and "find_operation (rs_db st) (wc_workflow_id wc) (int n) = None"
    and "keeps_ops (wc_workflow_id wc) body"
    and "run_step vc now wc name body st = (res, st')"
    and "find_operation (rs_db st') (wc_workflow_id wc) (int n) = Some r"
    and "storable vc env (StepOp name body) (map_ok OutValue res)"
  shows "live_effect vc (wc_workflow_id wc) n (StepOp name body) st (map_ok OutValue res) st' r"
  using assms(4)
proof (rule check_fresh [of _ _ _ name])
  fix e assume "check_operation_execution (wc_workflow_id wc) (int n) name (rs_db st) = Inl e"
  with assms show ?thesis by (auto simp: run_step_def next_step_id_at replay_step_def)
next
  let ?w = "wc_workflow_id wc"
  assume chk: "check_operation_execution ?w (int n) name (rs_db st) = Inr None"
  obtain q db1 where body: "body (rs_db st) = (q, db1)" by force
  have same: "same_ops ?w (rs_db st) db1" using assms(5) body by (metis keeps_ops_def snd_conv)
  obtain u db2 where rec: "record_step vc now ?w (int n) name q db1 = (u, db2)" by force
  have run: "(res, st') = (case u of Inl e \<Rightarrow> (Inl e, (advance 1 st)\<lparr>rs_db := db2\<rparr>)
      | Inr _ \<Rightarrow> (q, (advance 1 st)\<lparr>rs_db := db2\<rparr>))"
    using assms(1-3,6) chk body rec
    by (auto simp: run_step_def next_step_id_at replay_step_def split: sum.splits)
  show ?thesis
  proof (cases u)
    case (Inl e)
    with rec have "same_ops ?w db1 db2"
      by (auto simp: record_step_def throw_def split: sum.splits dest: record_operation_same)
    with same Inl run assms(4,7) show ?thesis by (simp add: same_ops_def)
  next
    case (Inr uu)
    show ?thesis
    proof (cases q)
      case (Inl e)
      let ?err = "serialize_workflow_error (vc_error vc) (display e) None Portable"
      from Inl Inr rec have "records ?w (int n)
          (operation_values now ?w (int n) name None (Some ?err) None (Some PORTABLE_NAME)) db1 db2"
        by (auto simp: record_step_def intro!: record_operation_records)
      then have rr: "records ?w (int n)
          (operation_values now ?w (int n) name None (Some ?err) None (Some PORTABLE_NAME)) (rs_db st) db2"
        using same by (rule same_ops_records [rotated])
      have "decoded_step_error (vc_error vc) ?err (Some PORTABLE_NAME) = e"
        using assms(8) run Inl Inr by (auto simp: storable_def decoded_serialized_error)
      with rr run Inl Inr assms(7) show ?thesis
        by (auto simp: live_effect_def records_def recorded_answer_def encodes_def)
    next
      case (Inr v)
      from Inr \<open>u = Inr uu\<close> rec obtain s where s: "encode_value (vc_serde vc) (vc_to vc) v Portable = Inr s"
        and rs: "records ?w (int n)
          (operation_values now ?w (int n) name (Some s) None None (Some PORTABLE_NAME)) db1 db2"
        by (auto simp: record_step_def throw_def split: sum.splits intro!: record_operation_records)
      have rr: "records ?w (int n)
          (operation_values now ?w (int n) name (Some s) None None (Some PORTABLE_NAME)) (rs_db st) db2"
        using same rs by (rule same_ops_records)
      have "stored_value vc (Some s) (Some PORTABLE_NAME) = Inr v"
        using assms(8) run Inr \<open>u = Inr uu\<close> s by (auto simp: storable_def intro: stored_value_encoded)
      with rr run Inr \<open>u = Inr uu\<close> assms(7) show ?thesis
        by (auto simp: live_effect_def records_def recorded_answer_def encodes_def)
    qed
  qed
qed

lemma sleep_deadline_frame:
  assumes "\<forall>db. same_ops w db (en_race env db)" and "sleep_deadline vc env w f ms db = (q, db')"
    and "g \<noteq> f"
  shows "find_operation db' w g = find_operation db w g"
proof (cases "check_operation_execution w f ''DBOS.sleep'' db")
  case (Inl e)
  with assms(2) show ?thesis by (simp add: sleep_deadline_def)
next
  case (Inr ro)
  let ?wake = "en_now1 env + cast_i64 (int ms)"
  show ?thesis
  proof (cases ro)
    case None
    obtain out where out: "encode_value (vc_serde vc) (\<lambda>n. Inr (Number (IntNum n))) ?wake Portable = Inr out"
      by (simp add: encode_value_def)
    obtain u db1 where rec: "record_operation_result (en_now2 env) w f ''DBOS.sleep'' (Some out)
        None None (Some PORTABLE_NAME) (en_race env db) = (u, db1)" by force
    have db': "db' = db1"
      using assms(2) Inr None out rec
      by (auto simp: sleep_deadline_def Let_def split: sum.splits if_splits option.splits)
    have "find_operation db1 w g = find_operation (en_race env db) w g"
    proof (cases u)
      case (Inl e)
      with rec show ?thesis by (auto dest: record_operation_Inl_state)
    next
      case (Inr x)
      with rec have "records w f (operation_values (en_now2 env) w f ''DBOS.sleep'' (Some out)
          None None (Some PORTABLE_NAME)) (en_race env db) db1"
        by (auto intro: record_operation_records)
      with assms(3) show ?thesis by (simp add: records_def)
    qed
    with assms(1) db' show ?thesis by (simp add: same_ops_def)
  next
    case (Some rec)
    with Inr assms(2) show ?thesis by (simp add: sleep_deadline_def)
  qed
qed

lemma sleep_deadline_live:
  assumes "\<forall>db. same_ops w db (en_race env db)" and "find_operation db w f = None"
    and "sleep_deadline vc env w f ms db = (q, db')" and "find_operation db' w f = Some r"
    and "end_ms = en_now1 env + cast_i64 (int ms)"
    and "vc_i64_from vc (Number (IntNum end_ms)) = Inr end_ms"
    and "serde_ok (vc_serde vc) (Number (IntNum end_ms))"
  shows "q = Inr end_ms \<and> oo_function_name r = ''DBOS.sleep'' \<and> stored_i64 vc (recorded r) = Inr end_ms"
  using assms(2)
proof (rule check_fresh [of _ _ _ "''DBOS.sleep''"])
  fix e assume "check_operation_execution w f ''DBOS.sleep'' db = Inl e"
  with assms(2-4) show ?thesis by (auto simp: sleep_deadline_def)
next
  assume chk: "check_operation_execution w f ''DBOS.sleep'' db = Inr None"
  define out where "out = encode_json_value (vc_serde vc) (Number (IntNum end_ms)) Portable"
  have enc: "encode_value (vc_serde vc) (\<lambda>n. Inr (Number (IntNum n))) end_ms Portable = Inr out"
    by (simp add: encode_value_def out_def)
  have free: "find_operation (en_race env db) w f = None"
    using assms(1,2) by (simp add: same_ops_def)
  obtain u db1 where rec: "record_operation_result (en_now2 env) w f ''DBOS.sleep'' (Some out)
      None None (Some PORTABLE_NAME) (en_race env db) = (u, db1)" by force
  show ?thesis
  proof (cases u)
    case (Inl e)
    with rec free have "\<not> is_error e ConflictingId" and "db1 = en_race env db"
      by (auto simp: record_operation_result_def insert_operation_def is_error_def
          foreign_key_violation_def unique_violation_def is_unique_violation_def split: if_splits)
    then have "db' = en_race env db"
      using assms(3,5) chk enc rec Inl by (auto simp: sleep_deadline_def Let_def)
    with free assms(4) show ?thesis by simp
  next
    case (Inr x)
    with rec have "records w f (operation_values (en_now2 env) w f ''DBOS.sleep'' (Some out)
        None None (Some PORTABLE_NAME)) (en_race env db) db1"
      by (auto intro: record_operation_records)
    moreover have "q = Inr end_ms" "db' = db1"
      using assms(3,5) chk enc rec Inr by (auto simp: sleep_deadline_def Let_def)
    ultimately have "q = Inr end_ms" "r = operation_values (en_now2 env) w f ''DBOS.sleep'' (Some out)
        None None (Some PORTABLE_NAME)"
      using assms(4) by (auto simp: records_def)
    moreover have "decode_value (vc_serde vc) (vc_i64_from vc) (Some out) (Some PORTABLE_NAME) = Inr end_ms"
      using decode_encode_json [OF assms(7), of Portable] assms(6) by (simp add: decode_value_def out_def)
    ultimately show ?thesis by (simp add: stored_i64_def recorded_def)
  qed
qed

lemma sleep_live:
  assumes "at_step st n" and "n < 2 ^ 31" and "\<not> wc_within_step wc"
    and "find_operation (rs_db st) (wc_workflow_id wc) (int n) = None"
    and "quiet (wc_workflow_id wc) env (SleepOp ms)"
    and "sleep vc env wc ms st = (res, st')"
    and "find_operation (rs_db st') (wc_workflow_id wc) (int n) = Some r"
    and "storable vc env (SleepOp ms) (map_ok (\<lambda>_. OutUnit) res)"
  shows "live_effect vc (wc_workflow_id wc) n (SleepOp ms) st (map_ok (\<lambda>_. OutUnit) res) st' r"
proof -
  let ?w = "wc_workflow_id wc" and ?wake = "en_now1 env + cast_i64 (int ms)"
  have race: "\<forall>db. same_ops ?w db (en_race env db)" using assms(5) by (simp add: quiet_def)
  obtain q db' where dl: "sleep_deadline vc env ?w (int n) ms (rs_db st) = (q, db')" by force
  have run: "res = (case q of Inl e \<Rightarrow> Inl e | Inr e \<Rightarrow> Inr (max (e - en_now3 env) 0))"
    "st' = (advance 1 st)\<lparr>rs_db := db'\<rparr>"
    using assms(1-3,6) dl
    by (auto simp: sleep_def next_step_id_at on_db_def record_sleep_def andthen_def ret_def
        split: sum.splits)
  have "q = Inr ?wake \<and> oo_function_name r = ''DBOS.sleep'' \<and> stored_i64 vc (recorded r) = Inr ?wake"
    using assms(4,7,8) run(2)
    by (intro sleep_deadline_live [OF race _ dl]) (simp_all add: storable_def Let_def)
  with run sleep_deadline_frame [OF race dl] show ?thesis
    by (auto simp: live_effect_def recorded_answer_def encodes_def)
qed

lemma delivered_answer:
  "decode_optional vc (recorded (operation_values now w f name (map_option fst d) None None
     (Some (unwrap_or (Option.bind d snd) PORTABLE_NAME)))) = decode_delivered vc d"
  by (cases d) (auto simp: decode_optional_def decode_delivered_def recorded_def unwrap_or_def opt_or_def
      split: option.splits)

lemma recv_tx_live:
  assumes "recv_tx now w f t db = (q, db')"
  shows "case q of
      Inl e \<Rightarrow> db' = db
    | Inr d \<Rightarrow> records w f (operation_values now w f ''DBOS.recv'' (map_option fst d) None None
        (Some (unwrap_or (Option.bind d snd) PORTABLE_NAME))) db db'"
proof (cases q)
  case (Inl e)
  with assms show ?thesis by (simp add: recv_tx_def) (blast dest: transaction_Inl)
next
  case (Inr d)
  obtain c db1 where c: "consume_oldest_notification w t db = (c, db1)" by force
  have same: "same_ops w db db1"
    using consume_oldest_operations [of w t db w] c by (simp add: same_ops_def)
  from assms Inr c have "record_delivered now w f ''DBOS.recv'' c db1 = (Inr (), db')" and "d = c"
    by (auto simp: recv_tx_def transaction_Inr andthen_def ret_def split: prod.splits sum.splits)
  then have "records w f (operation_values now w f ''DBOS.recv'' (map_option fst d) None None
        (Some (unwrap_or (Option.bind d snd) PORTABLE_NAME))) db1 db'"
    by (auto simp: record_delivered_def intro: record_operation_records)
  with same Inr show ?thesis by (auto intro: same_ops_records)
qed

lemma record_sleep_cases:
  assumes "\<forall>db. same_ops w db (en_race env db)" and "record_sleep vc env w f ms db = (q, db')"
    and "g \<noteq> f"
  shows "find_operation db' w g = find_operation db w g"
proof -
  obtain q1 db1 where dl: "sleep_deadline vc env w f ms db = (q1, db1)" by force
  with assms(2) have "db' = db1"
    by (auto simp: record_sleep_def andthen_def ret_def split: sum.splits)
  with sleep_deadline_frame [OF assms(1) dl assms(3)] show ?thesis by simp
qed

lemma recv_live:
  assumes "at_step st n" and "n < 2 ^ 31 - 1" and "\<not> wc_within_step wc"
    and "find_operation (rs_db st) (wc_workflow_id wc) (int n) = None"
    and "quiet (wc_workflow_id wc) env (RecvOp topic ms)"
    and "recv vc env wc topic ms st = Some (res, st')"
    and "find_operation (rs_db st') (wc_workflow_id wc) (int n) = Some r"
  shows "live_effect vc (wc_workflow_id wc) n (RecvOp topic ms) st (map_ok OutOption res) st' r"
proof -
  let ?w = "wc_workflow_id wc" and ?t = "topic_or_default topic" and ?st2 = "advance 2 st"
  have race: "\<forall>db. same_ops ?w db (en_race env db)"
    and rounds: "\<forall>p \<in> set (en_rounds env). \<forall>db. same_ops ?w db (fst p db)"
    using assms(5) by (simp_all add: quiet_def)
  have ids: "next_step_id st = (int n, advance 1 st)"
    "next_step_id (advance 1 st) = (int n + 1, advance 2 st)"
    using next_step_id_at [OF assms(1)] next_step_id_at [OF at_step_advance [OF assms(1), of 1]] assms(2)
    by (simp_all add: numeral_2_eq_2)
  have chk: "check_operation_execution ?w (int n) ''DBOS.recv'' (rs_db st) = Inr None"
    and free: "?w @ ''::'' @ ?t \<notin> set (rs_waiters st)"
    using assms(3,4,6,7) ids
    by (auto simp: recv_def Let_def check_operation_new check_operation_found
        split: sum.splits option.splits if_splits)
  obtain q db1 where sl: "record_sleep vc env ?w (int n + 1) ms (rs_db st) = (q, db1)" by force
  have f1: "find_operation db1 ?w g = find_operation (rs_db st) ?w g" if "g \<noteq> int n + 1" for g
    using record_sleep_cases [OF race sl that] .
  obtain remaining where q: "q = Inr remaining"
    using assms(3,4,6,7) ids chk free sl f1 [of "int n"] by (cases q) (auto simp: recv_def Let_def)
  let ?found = "\<lambda>db. if notification_exists_unconsumed ?w ?t db then Some () else None"
  obtain x db2 where wt: "wait_rounds ?found (en_instant env + remaining) (en_rounds env) db1 = Some (x, db2)"
    using assms(3,6) ids chk free sl q by (auto simp: recv_def Let_def split: option.splits)
  have f2: "find_operation db2 ?w g = find_operation (rs_db st) ?w g" if "g \<noteq> int n + 1" for g
    using wait_rounds_same [OF rounds wt] f1 [OF that] by (simp add: same_ops_def)
  obtain u db3 where tx: "recv_tx (en_now2 env) ?w (int n) ?t db2 = (u, db3)" by force
  have out: "(res, st') = (case u of Inl e \<Rightarrow> (Inl e, ?st2\<lparr>rs_db := db3\<rparr>)
      | Inr d \<Rightarrow> (decode_delivered vc d, ?st2\<lparr>rs_db := db3\<rparr>))"
    using assms(3,6) ids chk free sl q wt tx by (auto simp: recv_def Let_def split: sum.splits)
  obtain d where d: "u = Inr d"
    using recv_tx_live [OF tx] out assms(4,7) f2 [of "int n"] by (cases u) auto
  with recv_tx_live [OF tx] have rr: "records ?w (int n) (operation_values (en_now2 env) ?w (int n) ''DBOS.recv''
      (map_option fst d) None None (Some (unwrap_or (Option.bind d snd) PORTABLE_NAME))) db2 db3"
    by simp
  with out d assms(7) have r: "r = operation_values (en_now2 env) ?w (int n) ''DBOS.recv''
      (map_option fst d) None None (Some (unwrap_or (Option.bind d snd) PORTABLE_NAME))"
    by (simp add: records_def)
  have ans: "decode_optional vc (recorded r) = decode_delivered vc d"
    unfolding r by (rule delivered_answer)
  have frame: "find_operation db3 ?w g = find_operation (rs_db st) ?w g"
    if "g < int n \<or> int n + 2 \<le> g" for g
    using rr f2 [of g] that by (auto simp: records_def)
  have "oo_function_name r = ''DBOS.recv''" by (simp add: r)
  with out d ans frame show ?thesis
    by (simp add: live_effect_def recorded_answer_def encodes_def)
qed

lemma get_event_live:
  assumes "at_step st n" and "n < 2 ^ 31 - 1" and "\<not> wc_within_step wc"
    and "find_operation (rs_db st) (wc_workflow_id wc) (int n) = None"
    and "quiet (wc_workflow_id wc) env (GetEventOp target key ms)"
    and "get_event vc env wc target key ms st = Some (res, st')"
    and "find_operation (rs_db st') (wc_workflow_id wc) (int n) = Some r"
  shows "live_effect vc (wc_workflow_id wc) n (GetEventOp target key ms) st (map_ok OutOption res) st' r"
proof -
  let ?w = "wc_workflow_id wc" and ?st2 = "advance 2 st"
  have race: "\<forall>db. same_ops ?w db (en_race env db)"
    and rounds: "\<forall>p \<in> set (en_rounds env). \<forall>db. same_ops ?w db (fst p db)"
    using assms(5) by (simp_all add: quiet_def)
  have ids: "next_step_id st = (int n, advance 1 st)"
    "next_step_id (advance 1 st) = (int n + 1, advance 2 st)"
    using next_step_id_at [OF assms(1)] next_step_id_at [OF at_step_advance [OF assms(1), of 1]] assms(2)
    by (simp_all add: numeral_2_eq_2)
  have chk: "check_operation_execution ?w (int n) ''DBOS.getEvent'' (rs_db st) = Inr None"
    using assms(3,4,6,7) ids
    by (auto simp: get_event_def Let_def check_operation_new check_operation_found
        split: sum.splits option.splits)
  obtain q db1 where sl: "record_sleep vc env ?w (int n + 1) ms (rs_db st) = (q, db1)" by force
  have f1: "find_operation db1 ?w g = find_operation (rs_db st) ?w g" if "g \<noteq> int n + 1" for g
    using record_sleep_cases [OF race sl that] .
  obtain remaining where q: "q = Inr remaining"
    using assms(3,4,6,7) ids chk sl f1 [of "int n"] by (cases q) (auto simp: get_event_def Let_def)
  obtain d db2 where wt: "wait_rounds (select_workflow_event target key)
      (en_instant env + remaining) (en_rounds env) db1 = Some (d, db2)"
    using assms(3,6) ids chk sl q by (auto simp: get_event_def Let_def split: option.splits)
  have f2: "find_operation db2 ?w g = find_operation (rs_db st) ?w g" if "g \<noteq> int n + 1" for g
    using wait_rounds_same [OF rounds wt] f1 [OF that] by (simp add: same_ops_def)
  obtain u db3 where tx: "record_delivered (en_now2 env) ?w (int n) ''DBOS.getEvent'' d db2 = (u, db3)"
    by force
  have out: "(res, st') = (case u of Inl e \<Rightarrow> (Inl e, ?st2\<lparr>rs_db := db3\<rparr>)
      | Inr _ \<Rightarrow> (decode_delivered vc d, ?st2\<lparr>rs_db := db3\<rparr>))"
    using assms(3,6) ids chk sl q wt tx by (auto simp: get_event_def Let_def split: sum.splits)
  have u: "u = Inr ()"
  proof (cases u)
    case (Inl e)
    with tx have "db3 = db2" by (auto simp: record_delivered_def dest: record_operation_Inl_state)
    with Inl out assms(4,7) f2 [of "int n"] show ?thesis by auto
  qed simp
  with tx have rr: "records ?w (int n) (operation_values (en_now2 env) ?w (int n) ''DBOS.getEvent''
      (map_option fst d) None None (Some (unwrap_or (Option.bind d snd) PORTABLE_NAME))) db2 db3"
    by (auto simp: record_delivered_def intro: record_operation_records)
  with out u assms(7) have r: "r = operation_values (en_now2 env) ?w (int n) ''DBOS.getEvent''
      (map_option fst d) None None (Some (unwrap_or (Option.bind d snd) PORTABLE_NAME))"
    by (simp add: records_def)
  have ans: "decode_optional vc (recorded r) = decode_delivered vc d"
    unfolding r by (rule delivered_answer)
  have frame: "find_operation db3 ?w g = find_operation (rs_db st) ?w g"
    if "g < int n \<or> int n + 2 \<le> g" for g
    using rr f2 [of g] that by (auto simp: records_def)
  have "oo_function_name r = ''DBOS.getEvent''" by (simp add: r)
  with out u ans frame show ?thesis
    by (simp add: live_effect_def recorded_answer_def encodes_def)
qed

lemma send_writes_once:
  "writes_once w f name (case encode_value sd to_v m Portable of
      Inl e \<Rightarrow> throw e
    | Inr enc \<Rightarrow> (case encode_unit vc of
        Inl e \<Rightarrow> throw e
      | Inr unit_text \<Rightarrow> transaction (andthen (insert_notification u now d t enc PORTABLE_NAME)
          (\<lambda>_. record_unit now2 w f name unit_text))))"
  by (auto simp: record_unit_def split: sum.splits intro!: writes_once_throw writes_once_transaction
      writes_once_andthen keeps_ops_frames writes_once_record)

lemma set_event_writes_once:
  "writes_once w f name (case encode_value sd to_v m Portable of
      Inl e \<Rightarrow> throw e
    | Inr enc \<Rightarrow> (case encode_unit vc of
        Inl e \<Rightarrow> throw e
      | Inr unit_text \<Rightarrow> transaction (andthen (upsert_workflow_event w key enc PORTABLE_NAME)
          (\<lambda>_. andthen (insert_workflow_event_history w f key enc PORTABLE_NAME)
            (\<lambda>_. record_unit now w f name unit_text)))))"
  by (auto simp: record_unit_def split: sum.splits intro!: writes_once_throw writes_once_transaction
      writes_once_andthen keeps_ops_frames writes_once_record)

lemma stream_writes_once:
  "writes_once w f name (case encode_unit vc of
        Inl e \<Rightarrow> throw e
      | Inr unit_text \<Rightarrow> transaction (andthen (write_stream_entry w f key v ser)
          (\<lambda>_. record_unit now w f name unit_text)))"
  by (auto simp: record_unit_def split: sum.splits intro!: writes_once_throw writes_once_transaction
      writes_once_andthen keeps_ops_frames writes_once_record)

lemma perform_live:
  assumes "at_step st n" and "n < 2 ^ 31 - 1" and "\<not> wc_within_step wc"
    and "find_operation (rs_db st) (wc_workflow_id wc) (int n) = None"
    and "quiet (wc_workflow_id wc) env op"
    and "perform vc wc env op st = Some (res, st')"
    and "find_operation (rs_db st') (wc_workflow_id wc) (int n) = Some r"
    and "storable vc env op res"
  shows "live_effect vc (wc_workflow_id wc) n op st res st' r"
proof -
  have n: "n < 2 ^ 31" using assms(2) by simp
  have race: "same_ops (wc_workflow_id wc) db (en_race env db)" for db
    using assms(5) by (simp add: quiet_def)
  note du = durable_unit_live [OF assms(1) n assms(3,4) _ assms(7) _ race]
  show ?thesis
  proof (cases op)
    case (StepOp name body)
    obtain q where q: "run_step vc (en_now1 env) wc name body st = (q, st')" "res = map_ok OutValue q"
      using assms(6) StepOp by (cases "run_step vc (en_now1 env) wc name body st") (auto simp: first_of_def)
    with step_live [OF assms(1) n assms(3,4) _ q(1) assms(7)] assms(5,8) StepOp show ?thesis
      by (simp add: quiet_def)
  next
    case (SendOp dest v topic)
    obtain q where q: "send vc env wc dest v topic st = (q, st')" "res = map_ok (\<lambda>_. OutUnit) q"
      using assms(6) SendOp by (cases "send vc env wc dest v topic st") (auto simp: first_of_def)
    from du [OF q(1) [unfolded send_def] send_writes_once] q(2) SendOp show ?thesis
      by (auto simp: live_effect_def recorded_answer_def encodes_def)
  next
    case (RecvOp topic ms)
    obtain q where q: "recv vc env wc topic ms st = Some (q, st')" "res = map_ok OutOption q"
      using assms(6) RecvOp by (auto simp: first_of_def)
    with recv_live [OF assms(1,2,3,4) _ q(1) assms(7)] assms(5) RecvOp show ?thesis by simp
  next
    case (SetEventOp key v)
    obtain q where q: "set_event vc env wc key v st = (q, st')" "res = map_ok (\<lambda>_. OutUnit) q"
      using assms(6) SetEventOp by (cases "set_event vc env wc key v st") (auto simp: first_of_def)
    from du [OF q(1) [unfolded set_event_def] set_event_writes_once] q(2) SetEventOp show ?thesis
      by (auto simp: live_effect_def recorded_answer_def encodes_def)
  next
    case (GetEventOp target key ms)
    obtain q where q: "get_event vc env wc target key ms st = Some (q, st')" "res = map_ok OutOption q"
      using assms(6) GetEventOp by (auto simp: first_of_def)
    with get_event_live [OF assms(1,2,3,4) _ q(1) assms(7)] assms(5) GetEventOp show ?thesis by simp
  next
    case (WriteStreamOp key v)
    obtain q where q: "write_stream vc env wc key v st = (q, st')" "res = map_ok (\<lambda>_. OutUnit) q"
      using assms(6) WriteStreamOp by (cases "write_stream vc env wc key v st") (auto simp: first_of_def)
    show ?thesis
    proof (cases "encode_value (vc_serde vc) (vc_to vc) v Portable")
      case (Inl e)
      with q(1) assms(4,7) show ?thesis by (auto simp: write_stream_def throw_def)
    next
      case (Inr enc)
      then have e: "\<not> isl (vc_to vc v)" by (auto simp: encode_value_def split: sum.splits)
      from Inr q(1) have "write_stream_raw vc env wc key ''DBOS.writeStream'' enc (Some PORTABLE_NAME) st =
          (q, st')"
        by (simp add: write_stream_def)
      from du [OF this [unfolded write_stream_raw_def] stream_writes_once] q(2) e WriteStreamOp
      show ?thesis by (auto simp: live_effect_def recorded_answer_def encodes_def)
    qed
  next
    case (CloseStreamOp key)
    obtain q where q: "close_stream vc env wc key st = (q, st')" "res = map_ok (\<lambda>_. OutUnit) q"
      using assms(6) CloseStreamOp by (cases "close_stream vc env wc key st") (auto simp: first_of_def)
    from du [OF q(1) [unfolded close_stream_def write_stream_raw_def] stream_writes_once] q(2) CloseStreamOp
    show ?thesis by (auto simp: live_effect_def recorded_answer_def encodes_def)
  next
    case (SleepOp ms)
    obtain q where q: "sleep vc env wc ms st = (q, st')" "res = map_ok (\<lambda>_. OutUnit) q"
      using assms(6) SleepOp by (cases "sleep vc env wc ms st") (auto simp: first_of_def)
    with sleep_live [OF assms(1) n assms(3,4) _ q(1) assms(7)] assms(5,8) SleepOp show ?thesis by simp
  qed
qed

subsection \<open>Runs\<close>

text \<open>Other executors may change the database before each call.\<close>

definition before :: "call_env \<Rightarrow> run_state \<Rightarrow> run_state" where
  "before env st = st\<lparr>rs_db := en_before env (rs_db st)\<rparr>"

text \<open>As many calls of the body as there are environments; \<open>None\<close> when one is still waiting.\<close>

fun run_ops ::
  "'v value_codec \<Rightarrow> WorkflowContext \<Rightarrow> call_env list \<Rightarrow> 'v prog \<Rightarrow> run_state \<Rightarrow>
   ('v prog \<times> run_state) option" where
  "run_ops vc wc [] p st = Some (p, st)"
| "run_ops vc wc (env # envs) (Finish r) st = None"
| "run_ops vc wc (env # envs) (Call op k) st =
     (case perform vc wc env op (before env st) of
        None \<Rightarrow> None
      | Some (res, st') \<Rightarrow> run_ops vc wc envs (k res) st')"

text \<open>
  A run in which every call left its record: nobody else writes the workflow's records, results
  survive serialization, and the step counter stays in its range.
\<close>

fun durable_run ::
  "'v value_codec \<Rightarrow> WorkflowContext \<Rightarrow> call_env list \<Rightarrow> 'v prog \<Rightarrow> run_state \<Rightarrow> nat \<Rightarrow> bool" where
  "durable_run vc wc [] p st n = True"
| "durable_run vc wc (env # envs) (Finish r) st n = False"
| "durable_run vc wc (env # envs) (Call op k) st n =
     (quiet (wc_workflow_id wc) env op \<and> n < 2 ^ 31 - 1 \<and>
      (case perform vc wc env op (before env st) of
         None \<Rightarrow> False
       | Some (res, st') \<Rightarrow>
           find_operation (rs_db st') (wc_workflow_id wc) (int n) \<noteq> None \<and>
           storable vc env op res \<and>
           durable_run vc wc envs (k res) st' (n + op_width op)))"

lemma before_simps [simp]:
  "at_step (before env st) n = at_step st n" "rs_waiters (before env st) = rs_waiters st"
  "rs_step (before env st) = rs_step st" "rs_db (before env st) = en_before env (rs_db st)"
  by (simp_all add: before_def at_step_def)

lemma before_ops:
  "quiet w env op \<Longrightarrow> find_operation (rs_db (before env st)) w f = find_operation (rs_db st) w f"
  by (simp add: quiet_def same_ops_def before_def)

text \<open>One durable call: its record, its answer, and the rows it leaves alone.\<close>

lemma durable_call:
  assumes "durable_run vc wc (env # envs) (Call op k) st n" and "at_step st n"
    and "\<not> wc_within_step wc" and "find_operation (rs_db st) (wc_workflow_id wc) (int n) = None"
  obtains res st1 r where "perform vc wc env op (before env st) = Some (res, st1)"
    and "find_operation (rs_db st1) (wc_workflow_id wc) (int n) = Some r"
    and "oo_function_name r = op_name op" and "recorded_answer vc op r = res"
    and "encodes vc op" and "at_step st1 (n + op_width op)" and "n < 2 ^ 31 - 1"
    and "durable_run vc wc envs (k res) st1 (n + op_width op)"
    and "\<And>g. g < int n \<or> g \<ge> int (n + op_width op) \<Longrightarrow>
      find_operation (rs_db st1) (wc_workflow_id wc) g = find_operation (rs_db st) (wc_workflow_id wc) g"
proof -
  let ?w = "wc_workflow_id wc"
  from assms(1) have q: "quiet ?w env op" and n: "n < 2 ^ 31 - 1" by simp_all
  from assms(1) obtain res st1 r where p: "perform vc wc env op (before env st) = Some (res, st1)"
    and r: "find_operation (rs_db st1) ?w (int n) = Some r" and s: "storable vc env op res"
    and d: "durable_run vc wc envs (k res) st1 (n + op_width op)"
    by (auto split: option.splits prod.splits)
  have "live_effect vc ?w n op (before env st) res st1 r"
  proof (rule perform_live [OF _ n assms(3) _ q p r s])
    show "at_step (before env st) n" using assms(2) by simp
    show "find_operation (rs_db (before env st)) ?w (int n) = None"
      by (simp only: before_ops [OF q] assms(4))
  qed
  moreover from this have "at_step st1 (n + op_width op)"
    using at_step_advance [of st n "op_width op"] assms(2)
    by (simp add: live_effect_def at_step_def advance_def)
  ultimately show thesis
    using that [OF p r] n d before_ops [OF q] by (simp only: live_effect_def)
qed

lemma durable_run_keeps:
  assumes "durable_run vc wc envs p st n" and "at_step st n" and "\<not> wc_within_step wc"
    and "\<And>g. g \<ge> int n \<Longrightarrow> find_operation (rs_db st) (wc_workflow_id wc) g = None"
    and "run_ops vc wc envs p st = Some (p', st')" and "g < int n"
  shows "find_operation (rs_db st') (wc_workflow_id wc) g = find_operation (rs_db st) (wc_workflow_id wc) g"
  using assms
proof (induction envs arbitrary: p st n)
  case Nil
  then show ?case by simp
next
  case (Cons env envs)
  from Cons.prems(1) obtain op k where p: "p = Call op k" by (cases p) auto
  obtain res st1 r where c: "perform vc wc env op (before env st) = Some (res, st1)"
    and "find_operation (rs_db st1) (wc_workflow_id wc) (int n) = Some r"
    and "oo_function_name r = op_name op" and "recorded_answer vc op r = res" and "encodes vc op"
    and a: "at_step st1 (n + op_width op)" and "n < 2 ^ 31 - 1"
    and d: "durable_run vc wc envs (k res) st1 (n + op_width op)"
    and f: "\<And>g. g < int n \<or> g \<ge> int (n + op_width op) \<Longrightarrow>
      find_operation (rs_db st1) (wc_workflow_id wc) g = find_operation (rs_db st) (wc_workflow_id wc) g"
    by (rule durable_call
        [OF Cons.prems(1) [unfolded p] Cons.prems(2,3) Cons.prems(4) [OF order_refl]]) blast
  have "find_operation (rs_db st') (wc_workflow_id wc) g = find_operation (rs_db st1) (wc_workflow_id wc) g"
    using Cons.prems(3-6) p c f by (intro Cons.IH [OF d a]) auto
  with f [of g] Cons.prems(6) show ?case by simp
qed

lemma replay_aux:
  assumes "durable_run vc wc envs p st n" and "at_step st n" and "\<not> wc_within_step wc"
    and "\<And>g. g \<ge> int n \<Longrightarrow> find_operation (rs_db st) (wc_workflow_id wc) g = None"
    and "run_ops vc wc envs p st = Some (p', st')"
    and "\<And>g r. find_operation (rs_db st') (wc_workflow_id wc) g = Some r \<Longrightarrow>
      find_operation (rs_db st2) (wc_workflow_id wc) g = Some r"
    and "live_status (rs_db st2) (wc_workflow_id wc)" and "at_step st2 n"
    and "length envs2 = length envs" and "list_all (\<lambda>e. en_before e = id) envs2"
  shows "\<exists>st2'. run_ops vc wc envs2 p st2 = Some (p', st2') \<and> rs_db st2' = rs_db st2 \<and>
    rs_step st2' = rs_step st'"
  using assms
proof (induction envs arbitrary: p st n st2 envs2)
  case Nil
  then show ?case by (simp add: at_step_def)
next
  case (Cons env envs)
  let ?w = "wc_workflow_id wc"
  from Cons.prems(9) obtain env2 rest where e2: "envs2 = env2 # rest" by (cases envs2) auto
  from Cons.prems(1) obtain op k where p: "p = Call op k" by (cases p) auto
  obtain res st1 r where c: "perform vc wc env op (before env st) = Some (res, st1)"
    and r: "find_operation (rs_db st1) ?w (int n) = Some r" and nm: "oo_function_name r = op_name op"
    and ans: "recorded_answer vc op r = res" and enc: "encodes vc op"
    and a: "at_step st1 (n + op_width op)" and n: "n < 2 ^ 31 - 1"
    and d: "durable_run vc wc envs (k res) st1 (n + op_width op)"
    and f: "\<And>g. g < int n \<or> g \<ge> int (n + op_width op) \<Longrightarrow>
      find_operation (rs_db st1) ?w g = find_operation (rs_db st) ?w g"
    by (rule durable_call
        [OF Cons.prems(1) [unfolded p] Cons.prems(2,3) Cons.prems(4) [OF order_refl]]) blast
  have rest: "run_ops vc wc envs (k res) st1 = Some (p', st')" using Cons.prems(5) p c by simp
  have fresh1: "find_operation (rs_db st1) ?w g = None" if "g \<ge> int (n + op_width op)" for g
    using f [of g] Cons.prems(4) [of g] that by simp
  have "int n < int (n + op_width op)" by (cases op) simp_all
  then have "find_operation (rs_db st') ?w (int n) = Some r"
    using durable_run_keeps [OF d a Cons.prems(3) fresh1 rest] r by simp
  then have r2: "find_operation (rs_db st2) ?w (int n) = Some r" by (rule Cons.prems(6))
  have b2: "before env2 st2 = st2" using Cons.prems(10) e2 by (simp add: before_def)
  have call2: "perform vc wc env2 op (before env2 st2) = Some (res, advance (op_width op) st2)"
    unfolding b2 using perform_recorded [OF Cons.prems(8) n Cons.prems(3,7) r2 nm enc] ans by simp
  have "\<exists>st2'. run_ops vc wc rest (k res) (advance (op_width op) st2) = Some (p', st2') \<and>
      rs_db st2' = rs_db (advance (op_width op) st2) \<and> rs_step st2' = rs_step st'"
    using Cons.prems(3,6,7,9,10) e2 at_step_advance [OF Cons.prems(8)]
    by (intro Cons.IH [OF d a _ fresh1 rest]) simp_all
  then show ?case using p e2 call2 by simp
qed

subsection \<open>Properties\<close>

text \<open>
  C1. Crash recovery. Take any workflow body, run it from its start on a database without records
  of the workflow, and stop it after any number of calls that each left its record, with other
  executors doing anything in between except write the workflow's records. Then on every later
  database that still has these records and where the workflow is not cancelled, re-running the
  body from its start for as many calls reaches the very same continuation and step counter,
  whatever the clocks, fresh ids and waiting rounds are, and leaves the database as it found it:
  no step body runs again, no message, event or stream entry is written twice.
\<close>

theorem crash_recovery_replays:
  assumes "\<not> wc_within_step wc"
    and "\<And>f. find_operation db0 (wc_workflow_id wc) f = None"
    and "durable_run vc wc envs p (new_run db0 ws) 0"
    and "run_ops vc wc envs p (new_run db0 ws) = Some (p', st')"
    and "\<And>f r. find_operation (rs_db st') (wc_workflow_id wc) f = Some r \<Longrightarrow>
      find_operation db (wc_workflow_id wc) f = Some r"
    and "live_status db (wc_workflow_id wc)"
    and "length envs2 = length envs" and "list_all (\<lambda>e. en_before e = id) envs2"
  shows "\<exists>st2. run_ops vc wc envs2 p (new_run db ws2) = Some (p', st2) \<and>
    rs_db st2 = db \<and> rs_step st2 = rs_step st'"
proof -
  have db: "rs_db (new_run db0 ws) = db0" "rs_db (new_run db ws2) = db"
    by (simp_all add: new_run_def)
  show ?thesis
    using replay_aux [OF assms(3) at_step_new assms(1) _ assms(4), of "new_run db ws2" envs2]
      assms(2,5-8) db by auto
qed

definition sample_codec :: "string value_codec" where
  "sample_codec = \<lparr>vc_serde = mini_serde, vc_error = mini_error_serde,
     vc_to = (\<lambda>x. Inr (String x)), vc_from = (\<lambda>j. case j of String x \<Rightarrow> Inr x | _ \<Rightarrow> Inl ''type''),
     vc_i64_from = (\<lambda>j. case j of Number (IntNum n) \<Rightarrow> Inr n | _ \<Rightarrow> Inl ''type'')\<rparr>"

definition sample_env :: "int \<Rightarrow> call_env" where
  "sample_env now = \<lparr>en_now1 = now, en_now2 = now, en_now3 = now, en_instant = now, en_uuid = ''u'',
     en_before = id, en_race = id, en_rounds = []\<rparr>"

definition sample_wc :: WorkflowContext where
  "sample_wc = \<lparr>wc_workflow_id = ''wf'', wc_auth = anonymous, wc_within_step = False\<rparr>"

definition sample_prog :: "string prog" where
  "sample_prog = Call (StepOp ''charge'' (\<lambda>db. (Inr ''42'', db)))
     (\<lambda>r. Call (SetEventOp ''status'' ''paid'') (\<lambda>_. Finish (Inr ''done'')))"

lemma sample_live: "live_status sample_db ''wf''" "workflow_exists sample_db ''wf''"
  by (simp_all add: live_status_def get_status_def sample_find workflow_exists_def)

lemma sample_no_ops: "find_operation sample_db ''wf'' f = None"
  by (simp add: find_operation_def sample_defs)

lemma sample_step:
  "run_step sample_codec 7 sample_wc ''charge'' (\<lambda>db. (Inr ''42'', db)) (new_run sample_db []) =
     (Inr ''42'', (advance 1 (new_run sample_db []))\<lparr>rs_db := sample_db\<lparr>operation_outputs :=
        [operation_values 7 ''wf'' 0 ''charge'' (Some (CHR 0x22 # ''42'' @ [CHR 0x22])) None None
          (Some PORTABLE_NAME)]\<rparr>\<rparr>)"
proof -
  have "check_operation_execution ''wf'' 0 ''charge'' sample_db = Inr None"
    using sample_live(1) sample_no_ops by (simp add: check_operation_new live_status_def)
  moreover have "operation_outputs sample_db = []" by (simp add: sample_defs)
  moreover have "next_step_id (new_run sample_db []) = (0, advance 1 (new_run sample_db []))"
    using next_step_id_at [OF at_step_new] by simp
  moreover have "rs_db (new_run sample_db []) = sample_db" by (simp add: new_run_def)
  ultimately show ?thesis
    using sample_no_ops sample_live(2)
    by (simp add: run_step_def replay_step_def record_step_def sample_wc_def sample_codec_def
        encode_value_def encode_json_value_def mini_serde_def record_operation_new)
qed

theorem crash_recovery_replays_witness:
  "\<exists>k st st2. run_ops sample_codec sample_wc [sample_env 7] sample_prog (new_run sample_db []) =
       Some (k, st) \<and>
     run_ops sample_codec sample_wc [sample_env 99] sample_prog (new_run (rs_db st) []) = Some (k, st2) \<and>
     rs_db st2 = rs_db st \<and> rs_step st2 = rs_step st"
proof -
  let ?st = "(advance 1 (new_run sample_db []))\<lparr>rs_db := sample_db\<lparr>operation_outputs :=
        [operation_values 7 ''wf'' 0 ''charge'' (Some (CHR 0x22 # ''42'' @ [CHR 0x22])) None None
          (Some PORTABLE_NAME)]\<rparr>\<rparr>"
  let ?k = "Call (SetEventOp ''status'' ''paid'') (\<lambda>_. Finish (Inr ''done''))"
  have b: "before (sample_env 7) (new_run sample_db []) = new_run sample_db []"
    by (simp add: before_def sample_env_def new_run_def)
  have call: "perform sample_codec sample_wc (sample_env 7)
      (StepOp ''charge'' (\<lambda>db. (Inr ''42'', db))) (new_run sample_db []) = Some (Inr (OutValue ''42''), ?st)"
    using sample_step by (simp add: first_of_def sample_env_def)
  have run: "run_ops sample_codec sample_wc [sample_env 7] sample_prog (new_run sample_db []) = Some (?k, ?st)"
    using b call by (simp add: sample_prog_def)
  have w: "\<not> wc_within_step sample_wc" "wc_workflow_id sample_wc = ''wf''" by (simp_all add: sample_wc_def)
  have q: "quiet ''wf'' (sample_env 7) (StepOp ''charge'' (\<lambda>db. (Inr ''42'', db)))"
    by (simp add: quiet_def sample_env_def keeps_ops_def)
  have f: "find_operation (rs_db ?st) ''wf'' 0 \<noteq> None" by (simp add: find_operation_def)
  have s: "storable sample_codec (sample_env 7) (StepOp ''charge'' (\<lambda>db. (Inr ''42'', db))) (Inr (OutValue ''42''))"
    using mini_serde_string by (simp add: storable_def sample_codec_def)
  have d: "durable_run sample_codec sample_wc [sample_env 7] sample_prog (new_run sample_db []) 0"
    unfolding sample_prog_def durable_run.simps b call w(2) using q f s by simp
  have live: "live_status (rs_db ?st) (wc_workflow_id sample_wc)"
    using sample_live(1) w(2) by (simp add: live_status_def)
  have n: "find_operation sample_db (wc_workflow_id sample_wc) g = None" for g
    using sample_no_ops w(2) by simp
  obtain st2 where "run_ops sample_codec sample_wc [sample_env 99] sample_prog (new_run (rs_db ?st) []) =
      Some (?k, st2)" "rs_db st2 = rs_db ?st" "rs_step st2 = rs_step ?st"
    using crash_recovery_replays [OF w(1) n d run _ live, of "[sample_env 99]" "[]"]
    by (auto simp: sample_env_def)
  with run show ?thesis by blast
qed

text \<open>
  A recorded call is pure. When a live, not cancelled workflow makes a call whose step id has
  a record under the call's name, the call is answered from the record alone: the answer does not
  depend on the environment, on the arguments sent or on the step body, the database and the
  active receives are untouched, and the step counter moves by the call's width.
\<close>

theorem recorded_call_is_pure:
  assumes "at_step st n" and "n < 2 ^ 31 - 1" and "\<not> wc_within_step wc"
    and "live_status (rs_db st) (wc_workflow_id wc)"
    and "find_operation (rs_db st) (wc_workflow_id wc) (int n) = Some r"
    and "oo_function_name r = op_name op" and "encodes vc op"
  shows "\<exists>st'. perform vc wc env op st = Some (recorded_answer vc op r, st') \<and>
    rs_db st' = rs_db st \<and> rs_waiters st' = rs_waiters st \<and> at_step st' (n + op_width op)"
  using perform_recorded [OF assms] at_step_advance [OF assms(1), of "op_width op"] by simp

lemma sample_op_live: "live_status sample_db_op ''wf''"
  using sample_db_op_facts(1) by (simp add: live_status_def)

theorem recorded_call_is_pure_witness:
  "\<exists>st'. perform sample_codec sample_wc (sample_env 5) (StepOp ''charge'' (\<lambda>db. (Inr ''new'', empty_db)))
       (new_run sample_db_op []) = Some (Inl (from_serde ''type''), st') \<and> rs_db st' = sample_db_op"
proof -
  let ?r = "operation_values 5 ''wf'' 0 ''charge'' (Some ''42'') None None (Some ''portable_json'')"
  let ?op = "StepOp ''charge'' (\<lambda>db. (Inr ''new'', empty_db)) :: string op"
  have f: "find_operation (rs_db (new_run sample_db_op [])) (wc_workflow_id sample_wc) (int 0) = Some ?r"
    and l: "live_status (rs_db (new_run sample_db_op [])) (wc_workflow_id sample_wc)"
    using sample_db_op_facts(2) sample_op_live by (simp_all add: new_run_def sample_wc_def)
  have "recorded_answer sample_codec ?op ?r = Inl (from_serde ''type'')"
    by (simp add: recorded_answer_def stored_value_def decode_value_def decode_to_json_def
        decode_portable_def sample_codec_def mini_serde_def PORTABLE_NAME_def parse_i64_def
        parse_digits_def less_eq_char_def)
  with recorded_call_is_pure [OF at_step_new _ _ l f, of ?op sample_codec] show ?thesis
    by (auto simp: sample_wc_def new_run_def encodes_def)
qed

text \<open>
  A replayed step error loses its code. A step whose body fails with a coded error returns
  that error live; re-running the workflow on the database it left returns an uncoded error whose
  message is the rendering of the first, so a body that matches on the code takes another branch.
\<close>

theorem replayed_error_loses_code:
  assumes "at_step st n" and "n < 2 ^ 31 - 1" and "\<not> wc_within_step wc"
    and "live_status (rs_db st) (wc_workflow_id wc)"
    and "workflow_exists (rs_db st) (wc_workflow_id wc)"
    and "find_operation (rs_db st) (wc_workflow_id wc) (int n) = None"
    and "body (rs_db st) = (Inl e, rs_db st)" and "err_code e \<noteq> Unspecified"
    and "es_from_str (vc_error vc) (es_to_string (vc_error vc) (plain_payload (display e))) =
      Inr (plain_payload (display e))"
    and "es_to_string (vc_error vc) (plain_payload (display e)) \<noteq> []"
  shows "\<exists>st1. run_step vc now wc name body st = (Inl e, st1) \<and>
    fst (run_step vc now2 wc name body (st\<lparr>rs_db := rs_db st1\<rparr>)) = Inl (other (display e)) \<and>
    err_code (other (display e)) \<noteq> err_code e"
proof -
  let ?w = "wc_workflow_id wc"
  have n: "n < 2 ^ 31" using assms(2) by simp
  have chk: "check_operation_execution ?w (int n) name (rs_db st) = Inr None"
    using assms(4,6) by (auto simp: check_operation_new live_status_def)
  define err where "err = serialize_workflow_error (vc_error vc) (display e) None Portable"
  define row where
    "row = operation_values now ?w (int n) name None (Some err) None (Some PORTABLE_NAME)"
  define db1 where "db1 = (rs_db st)\<lparr>operation_outputs := operation_outputs (rs_db st) @ [row]\<rparr>"
  have live: "run_step vc now wc name body st = (Inl e, (advance 1 st)\<lparr>rs_db := db1\<rparr>)"
    using assms(3,5-7) chk next_step_id_at [OF assms(1) n]
    by (simp add: run_step_def replay_step_def record_step_def record_operation_new db1_def row_def
        flip: err_def)
  have f: "find_operation db1 ?w (int n) = Some row"
    using assms(6) by (simp add: db1_def find_operation_append row_def)
  have "live_status db1 ?w" using assms(4) by (simp add: live_status_def db1_def)
  from check_recorded [OF this f]
  have chk2: "check_operation_execution ?w (int n) name db1 = Inr (Some (recorded row))"
    by (simp add: row_def)
  have dec: "decoded_step_error (vc_error vc) err (Some PORTABLE_NAME) = other (display e)"
    unfolding err_def using assms(9,10) by (rule decoded_serialized_error)
  have "at_step (st\<lparr>rs_db := db1\<rparr>) n" using assms(1) by simp
  from next_step_id_at [OF this n] chk2 dec assms(3)
  have "fst (run_step vc now2 wc name body (st\<lparr>rs_db := db1\<rparr>)) = Inl (other (display e))"
    by (simp add: run_step_def replay_step_def recorded_def row_def)
  with live assms(8) show ?thesis by auto
qed

theorem replayed_error_loses_code_witness:
  "\<exists>st1. run_step sample_codec 7 sample_wc ''charge'' (\<lambda>db. (Inl (dead_letter_queue ''x'' 1), db))
       (new_run sample_db []) = (Inl (dead_letter_queue ''x'' 1), st1)"
proof -
  have d: "rs_db (new_run sample_db []) = sample_db" by (simp add: new_run_def)
  have w: "\<not> wc_within_step sample_wc" "wc_workflow_id sample_wc = ''wf''"
    by (simp_all add: sample_wc_def)
  have a: "live_status (rs_db (new_run sample_db [])) (wc_workflow_id sample_wc)"
    "workflow_exists (rs_db (new_run sample_db [])) (wc_workflow_id sample_wc)"
    "find_operation (rs_db (new_run sample_db [])) (wc_workflow_id sample_wc) (int 0) = None"
    using sample_live sample_no_ops d w by simp_all
  have es: "vc_error sample_codec = mini_error_serde" by (simp add: sample_codec_def)
  from replayed_error_loses_code [OF at_step_new _ w(1) a, of "\<lambda>db. (Inl (dead_letter_queue ''x'' 1), db)"
      "dead_letter_queue ''x'' 1" sample_codec] mini_error_ok es d
  show ?thesis by (simp, blast)
qed

lemma durable_unit_cases:
  assumes "durable_unit name refusal race wc work st = (res, st')" and "at_step st n" and "n < 2 ^ 31"
    and "\<not> wc_within_step wc"
    and "find_operation (rs_db st) (wc_workflow_id wc) (int n) = None"
  shows "(\<exists>e. res = Inl e \<and> rs_db st' = rs_db st) \<or>
    live_status (rs_db st) (wc_workflow_id wc) \<and> work (int n) (race (rs_db st)) = (res, rs_db st')"
  using assms(5)
proof (rule check_fresh [of _ _ _ name])
  fix e assume "check_operation_execution (wc_workflow_id wc) (int n) name (rs_db st) = Inl e"
  with assms show ?thesis by (auto simp: durable_unit_def next_step_id_at)
next
  assume chk: "check_operation_execution (wc_workflow_id wc) (int n) name (rs_db st) = Inr None"
  have "work (int n) (race (rs_db st)) = (res, rs_db st')"
    using assms chk by (auto simp: durable_unit_def next_step_id_at on_db_def split: prod.splits)
  moreover have "live_status (rs_db st) (wc_workflow_id wc)"
    using chk by (auto simp: check_operation_new live_status_def)
  ultimately show ?thesis by blast
qed

lemma encode_unit_text [simp]: "encode_unit vc = Inr ''null''"
  by (simp add: encode_unit_def encode_value_def encode_json_value_def)

text \<open>
  C13. A send happens exactly once, also when several incarnations of the workflow race. Others may
  do anything between the lookup of the step record and the transaction of a first \<open>send\<close>, such as
  make the same send. If it succeeds nobody has recorded the step before, and exactly one message,
  to the destination and topic, is added together with the record; if it fails nothing is added.
  Making the same call again at the same step, whatever it is asked to send, succeeds without
  sending anything unless the workflow was cancelled.
\<close>

theorem send_exactly_once:
  assumes "send vc env wc dest v topic st = (res, st')" and "at_step st n" and "n < 2 ^ 31"
    and "\<not> wc_within_step wc"
    and "find_operation (rs_db st) (wc_workflow_id wc) (int n) = None"
  shows "case res of
      Inl e \<Rightarrow> rs_db st' = rs_db st \<or> rs_db st' = en_race env (rs_db st)
    | Inr _ \<Rightarrow> \<exists>payload r.
        encode_value (vc_serde vc) (vc_to vc) v Portable = Inr payload \<and>
        find_operation (en_race env (rs_db st)) (wc_workflow_id wc) (int n) = None \<and>
        notifications (rs_db st') = notifications (en_race env (rs_db st)) @
          [notification_values (en_uuid env) (en_now1 env) dest (topic_or_default topic) payload
             PORTABLE_NAME] \<and>
        find_operation (rs_db st') (wc_workflow_id wc) (int n) = Some r \<and>
        oo_function_name r = ''DBOS.send'' \<and> oo_error r = None \<and>
        (live_status (rs_db st') (wc_workflow_id wc) \<longrightarrow>
           send vc env2 wc dest2 v2 topic2 (st\<lparr>rs_db := rs_db st'\<rparr>) =
             (Inr (), advance 1 (st\<lparr>rs_db := rs_db st'\<rparr>)))"
proof -
  let ?w = "wc_workflow_id wc" and ?db = "en_race env (rs_db st)"
  let ?work = "\<lambda>step_id. case encode_value (vc_serde vc) (vc_to vc) v Portable of
        Inl e \<Rightarrow> throw e
      | Inr encoded \<Rightarrow> (case encode_unit vc of
          Inl e \<Rightarrow> throw e
        | Inr unit_text \<Rightarrow> transaction (andthen
            (insert_notification (en_uuid env) (en_now1 env) dest (topic_or_default topic) encoded
               PORTABLE_NAME)
            (\<lambda>_. record_unit (en_now2 env) ?w step_id ''DBOS.send'' unit_text)))"
  from durable_unit_cases [OF assms(1) [unfolded send_def] assms(2-5)]
  consider e where "res = Inl e" "rs_db st' = rs_db st" | "?work (int n) ?db = (res, rs_db st')" by blast
  then show ?thesis
  proof cases
    case 1
    then show ?thesis by simp
  next
    case 2
    show ?thesis
    proof (cases res)
      case (Inl e)
      with 2 have "rs_db st' = ?db"
        by (auto simp: throw_def split: sum.splits dest: transaction_Inl)
      with Inl show ?thesis by simp
    next
      case (Inr u)
      from 2 Inr obtain payload where payload: "encode_value (vc_serde vc) (vc_to vc) v Portable = Inr payload"
        and tx: "andthen (insert_notification (en_uuid env) (en_now1 env) dest (topic_or_default topic)
            payload PORTABLE_NAME) (\<lambda>_. record_unit (en_now2 env) ?w (int n) ''DBOS.send'' ''null'')
            ?db = (Inr (), rs_db st')"
        by (auto simp: throw_def transaction_Inr split: sum.splits)
      from tx obtain db1 where ins: "insert_notification (en_uuid env) (en_now1 env) dest
          (topic_or_default topic) payload PORTABLE_NAME ?db = (Inr (), db1)"
        and rec: "record_unit (en_now2 env) ?w (int n) ''DBOS.send'' ''null'' db1 = (Inr (), rs_db st')"
        by (rule andthen_InrE) simp
      define r where "r = operation_values (en_now2 env) ?w (int n) ''DBOS.send'' (Some ''null'')
        None None (Some PORTABLE_NAME)"
      have db': "rs_db st' = db1\<lparr>operation_outputs := operation_outputs db1 @ [r]\<rparr>"
        and db1: "db1 = ?db\<lparr>notifications := notifications ?db @
          [notification_values (en_uuid env) (en_now1 env) dest (topic_or_default topic) payload
             PORTABLE_NAME]\<rparr>"
        and none: "find_operation db1 ?w (int n) = None"
        using ins rec by (simp_all add: record_unit_def record_operation_Inr insert_notification_Inr r_def)
      have f: "find_operation (rs_db st') ?w (int n) = Some r"
        using none find_operation_append [of db1 r ?w "int n"] by (simp add: db' r_def)
      have again: "send vc env2 wc dest2 v2 topic2 (st\<lparr>rs_db := rs_db st'\<rparr>) =
          (Inr (), advance 1 (st\<lparr>rs_db := rs_db st'\<rparr>))"
        if "live_status (rs_db (st\<lparr>rs_db := rs_db st'\<rparr>)) ?w"
        unfolding send_def using assms(2-4) f that
        by (intro durable_unit_recorded [where n = n and r = r]) (simp_all add: r_def)
      have "find_operation ?db ?w (int n) = None" using none by (simp add: db1)
      with Inr payload f again show ?thesis by (auto simp: db' db1 r_def)
    qed
  qed
qed

definition sample_send_env :: call_env where
  "sample_send_env = (sample_env 40)\<lparr>en_uuid := ''u9''\<rparr>"

theorem send_exactly_once_witness:
  "\<exists>st'. send sample_codec sample_send_env sample_wc ''wf'' ''hi'' None (new_run sample_db []) =
       (Inr (), st') \<and>
     length (notifications (rs_db st')) = 1"
proof -
  have w: "\<not> wc_within_step sample_wc" "wc_workflow_id sample_wc = ''wf''"
    by (simp_all add: sample_wc_def)
  have d: "rs_db (new_run sample_db []) = sample_db" by (simp add: new_run_def)
  have o0: "find_operation (rs_db (new_run sample_db [])) (wc_workflow_id sample_wc) (int 0) = None"
    using sample_no_ops d w by simp
  obtain res st' where s: "send sample_codec sample_send_env sample_wc ''wf'' ''hi'' None
      (new_run sample_db []) = (res, st')" by force
  have chk: "check_operation_execution ''wf'' 0 ''DBOS.send'' sample_db = Inr None"
    using sample_live(1) sample_no_ops by (simp add: check_operation_new live_status_def)
  define payload where "payload = CHR 0x22 # ''hi'' @ [CHR 0x22]"
  define db1 where "db1 = sample_db\<lparr>notifications := notifications sample_db @
    [notification_values ''u9'' 40 ''wf'' NULL_TOPIC payload PORTABLE_NAME]\<rparr>"
  have "insert_notification ''u9'' 40 ''wf'' NULL_TOPIC payload PORTABLE_NAME sample_db = (Inr (), db1)"
    using sample_live(2) by (simp add: insert_notification_Inr db1_def sample_db_def empty_db_def)
  moreover have "\<exists>db2. record_unit 40 ''wf'' 0 ''DBOS.send'' ''null'' db1 = (Inr (), db2)"
    using sample_live(2) sample_no_ops by (simp add: record_unit_def record_operation_new db1_def)
  moreover have "encode_value mini_serde (\<lambda>x. Inr (String x)) ''hi'' Portable = Inr payload"
    by (simp add: encode_value_def encode_json_value_def mini_serde_def payload_def)
  ultimately have "res = Inr ()"
    using s chk d w next_step_id_at [OF at_step_new, of sample_db "[]"]
    by (auto simp: send_def durable_unit_def on_db_def sample_codec_def transaction_def andthen_def
        sample_send_env_def sample_env_def topic_or_default_def)
  moreover have "notifications sample_db = []" by (simp add: sample_db_def empty_db_def)
  ultimately have "length (notifications (rs_db st')) = 1"
    using send_exactly_once
      [OF s at_step_new _ w(1) o0, of sample_send_env "''wf''" "''hi''" None] d
    by (auto simp: sample_send_env_def sample_env_def)
  with s \<open>res = Inr ()\<close> show ?thesis by blast
qed

text \<open>
  C37. A sleep survives a restart. The first \<open>sleep\<close> fixes the wake-up time at its clock plus the
  duration; the same call made again at any later clock waits only what is left of it, never
  more, and not at all once it has passed.
\<close>

theorem sleep_waits_only_the_rest:
  assumes "at_step st n" and "n < 2 ^ 31" and "\<not> wc_within_step wc"
    and "live_status (rs_db st) (wc_workflow_id wc)"
    and "find_operation (rs_db st) (wc_workflow_id wc) (int n) = None"
    and "en_race env = id" and "deadline = en_now1 env + cast_i64 (int ms)"
    and "vc_i64_from vc (Number (IntNum deadline)) = Inr deadline"
    and "serde_ok (vc_serde vc) (Number (IntNum deadline))"
  shows "\<exists>st1. sleep vc env wc ms st = (Inr (max (deadline - en_now3 env) 0), st1) \<and>
    sleep vc env2 wc ms2 (st\<lparr>rs_db := rs_db st1\<rparr>) =
      (Inr (max (deadline - en_now3 env2) 0), advance 1 (st\<lparr>rs_db := rs_db st1\<rparr>))"
proof -
  let ?w = "wc_workflow_id wc"
  have chk: "check_operation_execution ?w (int n) ''DBOS.sleep'' (rs_db st) = Inr None"
    using assms(4,5) by (auto simp: check_operation_new live_status_def)
  have ex: "workflow_exists (rs_db st) ?w"
    using assms(4) by (auto simp: live_status_def intro: get_status_Some_exists)
  define out where "out = encode_json_value (vc_serde vc) (Number (IntNum deadline)) Portable"
  define row where "row = operation_values (en_now2 env) ?w (int n) ''DBOS.sleep'' (Some out) None
    None (Some PORTABLE_NAME)"
  define db1 where "db1 = (rs_db st)\<lparr>operation_outputs := operation_outputs (rs_db st) @ [row]\<rparr>"
  have "sleep_deadline vc env ?w (int n) ms (rs_db st) = (Inr deadline, db1)"
    using chk ex assms(5,6)
    by (simp add: sleep_deadline_def Let_def encode_value_def record_operation_new db1_def row_def
        out_def flip: assms(7))
  then have live: "sleep vc env wc ms st =
      (Inr (max (deadline - en_now3 env) 0), (advance 1 st)\<lparr>rs_db := db1\<rparr>)"
    using assms(3) next_step_id_at [OF assms(1,2)]
    by (simp add: sleep_def on_db_def record_sleep_def andthen_def ret_def)
  have f: "find_operation db1 ?w (int n) = Some row"
    using assms(5) by (simp add: db1_def find_operation_append row_def)
  have "live_status db1 ?w" using assms(4) by (simp add: live_status_def db1_def)
  from check_recorded [OF this f]
  have chk2: "check_operation_execution ?w (int n) ''DBOS.sleep'' db1 = Inr (Some (recorded row))"
    by (simp add: row_def)
  have "stored_i64 vc (recorded row) = Inr deadline"
    using decode_encode_json [OF assms(9), of Portable] assms(8)
    by (simp add: stored_i64_def recorded_def row_def decode_value_def out_def)
  with chk2 have "sleep_deadline vc env2 ?w (int n) ms2 db1 = (Inr deadline, db1)"
    by (simp add: sleep_deadline_def)
  moreover have "at_step (st\<lparr>rs_db := db1\<rparr>) n" using assms(1) by simp
  ultimately have "sleep vc env2 wc ms2 (st\<lparr>rs_db := db1\<rparr>) =
      (Inr (max (deadline - en_now3 env2) 0), advance 1 (st\<lparr>rs_db := db1\<rparr>))"
    using assms(2,3) next_step_id_at [of "st\<lparr>rs_db := db1\<rparr>" n]
    by (simp add: sleep_def on_db_def record_sleep_def andthen_def ret_def)
  with live show ?thesis by simp
qed

theorem sleep_waits_only_the_rest_witness:
  "\<exists>st1. sleep sample_codec (sample_env 1000) sample_wc 50 (new_run sample_db []) = (Inr 50, st1) \<and>
     fst (sleep sample_codec (sample_env 1030) sample_wc 50 (new_run (rs_db st1) [])) = Inr 20"
proof -
  have w: "\<not> wc_within_step sample_wc" "wc_workflow_id sample_wc = ''wf''"
    by (simp_all add: sample_wc_def)
  have d: "rs_db (new_run sample_db []) = sample_db" by (simp add: new_run_def)
  have a: "live_status (rs_db (new_run sample_db [])) (wc_workflow_id sample_wc)"
    "find_operation (rs_db (new_run sample_db [])) (wc_workflow_id sample_wc) (int 0) = None"
    using sample_live(1) sample_no_ops d w by simp_all
  have r: "en_race (sample_env 1000) = id"
    and e: "1050 = en_now1 (sample_env 1000) + cast_i64 (int 50)"
    by (simp_all add: sample_env_def cast_i64_id)
  have s: "serde_ok (vc_serde sample_codec) (Number (IntNum 1050))"
    and i: "vc_i64_from sample_codec (Number (IntNum 1050)) = Inr 1050"
  proof -
    have ns: "show_int 1050 \<noteq> ''null''" "hd (show_int 1050) \<noteq> CHR 0x22" "show_int 1050 \<noteq> []"
      by code_simp+
    then show "serde_ok (vc_serde sample_codec) (Number (IntNum 1050))"
      by (simp add: serde_ok_def sample_codec_def mini_serde_def parse_i64_show NIL_MARKER_def)
    show "vc_i64_from sample_codec (Number (IntNum 1050)) = Inr 1050"
      by (simp add: sample_codec_def)
  qed
  have n: "(new_run sample_db [])\<lparr>rs_db := x\<rparr> = new_run x []" for x by (simp add: new_run_def)
  show ?thesis
    using sleep_waits_only_the_rest [OF at_step_new _ w(1) a r e i s, of "sample_env 1030" 50]
    by (auto simp: sample_env_def n)
qed

text \<open>
  Inside a step nothing is recorded. In the context a step body gets, a nested step runs its body
  in place, whatever it does to the database; every other durable operation is refused and changes
  nothing. None takes a step id, so the ids after the step do not depend on what its body called.
\<close>

theorem step_context_is_inline:
  "case perform vc (step_ctx wc) env op st of
     None \<Rightarrow> False
   | Some (res, st') \<Rightarrow>
       rs_step st' = rs_step st \<and> rs_waiters st' = rs_waiters st \<and>
       (case op of
          StepOp name body \<Rightarrow> res = map_ok OutValue (fst (body (rs_db st))) \<and> rs_db st' = snd (body (rs_db st))
        | _ \<Rightarrow> isl res \<and> rs_db st' = rs_db st)"
proof (cases op)
  case (StepOp name body)
  then show ?thesis by (cases "body (rs_db st)") (simp add: run_step_def step_ctx_def on_db_def first_of_def)
next
  case (WriteStreamOp key v)
  then show ?thesis
    by (auto simp: write_stream_def write_stream_raw_def durable_unit_def step_ctx_def first_of_def throw_def
        split: sum.splits)
qed (simp_all add: send_def set_event_def close_stream_def write_stream_raw_def durable_unit_def recv_def
  get_event_def sleep_def step_ctx_def first_of_def Let_def)

end
