(* ===== verification/Dbos_Log.thy ===== *)
theory Dbos_Log
  imports Dbos_Replay
begin

text \<open>
  The records of a workflow as its history. A body read against a log of records, each call answered
  by its record, is the abstract meaning of a durable run; the theory shows that the engine
  implements it: whatever crashes, restarts and other executors happen, a run that finishes returns
  what the log says, and so does every later run on a database that still has the log, and every run
  at the same time that shares it.
\<close>

subsection \<open>Reading a body against a log\<close>

type_synonym op_log = "int \<Rightarrow> operation_row option"

primrec follow :: "'v value_codec \<Rightarrow> 'v prog \<Rightarrow> op_log \<Rightarrow> nat \<Rightarrow> (DbosError + 'v) option" where
  "follow vc (Finish r) log n = Some r"
| "follow vc (Call op k) log n =
     (case log (int n) of
        None \<Rightarrow> None
      | Some r \<Rightarrow> follow vc (k (recorded_answer vc op r)) log (n + op_width op))"

definition log_of :: "string \<Rightarrow> sysdb \<Rightarrow> op_log" where
  "log_of w db = find_operation db w"

definition grows :: "string \<Rightarrow> sysdb \<Rightarrow> sysdb \<Rightarrow> bool" where
  "grows w db db' \<longleftrightarrow> log_of w db \<subseteq>\<^sub>m log_of w db'"

text \<open>Reading \<open>p\<close> against a log leads to the continuation \<open>q\<close> at step \<open>n\<close>.\<close>

inductive reaches :: "'v value_codec \<Rightarrow> op_log \<Rightarrow> 'v prog \<Rightarrow> 'v prog \<Rightarrow> nat \<Rightarrow> bool"
  for vc :: "'v value_codec" and log :: op_log and p :: "'v prog" where
  here: "reaches vc log p p 0"
| onward: "reaches vc log p (Call op k) n \<Longrightarrow> log (int n) = Some r \<Longrightarrow>
    reaches vc log p (k (recorded_answer vc op r)) (n + op_width op)"

lemma reaches_follow: "reaches vc log p q n \<Longrightarrow> follow vc q log n = follow vc p log 0"
  by (induction rule: reaches.induct) auto

lemma reaches_mono: "reaches vc log p q n \<Longrightarrow> log \<subseteq>\<^sub>m log' \<Longrightarrow> reaches vc log' p q n"
proof (induction rule: reaches.induct)
  case here
  show ?case by (rule reaches.here)
next
  case (onward op k n r)
  then have "log' (int n) = Some r" unfolding map_le_def by (metis domI)
  with onward show ?case by (intro reaches.onward) auto
qed

lemma follow_mono: "follow vc p log n = Some r \<Longrightarrow> log \<subseteq>\<^sub>m log' \<Longrightarrow> follow vc p log' n = Some r"
proof (induction p arbitrary: n)
  case (Call op k)
  then obtain row where row: "log (int n) = Some row" by (auto split: option.splits)
  then have "log' (int n) = Some row" using Call.prems(2) unfolding map_le_def by (metis domI)
  then show ?case using Call row by auto
qed simp

lemma grows_refl [simp]: "grows w db db"
  by (simp add: grows_def)

lemma grows_trans: "grows w a b \<Longrightarrow> grows w b c \<Longrightarrow> grows w a c"
  unfolding grows_def by (rule map_le_trans)

subsection \<open>A call only adds records\<close>

definition adds_only :: "string \<Rightarrow> 'a db_op \<Rightarrow> bool" where
  "adds_only w m \<longleftrightarrow> (\<forall>db. grows w db (snd (m db)))"

lemma same_ops_grows: "same_ops w db db' \<Longrightarrow> grows w db db'"
  by (simp add: same_ops_def grows_def log_of_def map_le_def)

lemma adds_onlyD: "adds_only w m \<Longrightarrow> m db = (q, db') \<Longrightarrow> grows w db db'"
  by (metis adds_only_def snd_conv)

lemma adds_onlyI: "(\<And>db q db'. m db = (q, db') \<Longrightarrow> grows w db db') \<Longrightarrow> adds_only w m"
  by (metis adds_only_def prod.collapse)

lemma adds_only_keeps: "keeps_ops w m \<Longrightarrow> adds_only w m"
  by (simp add: adds_only_def keeps_ops_def same_ops_grows)

lemma adds_only_record: "adds_only w (record_operation_result now v f n out err ch ser)"
  unfolding adds_only_def grows_def log_of_def map_le_def
proof (intro allI ballI)
  fix db g assume "g \<in> dom (find_operation db w)"
  then obtain r where r: "find_operation db w g = Some r" by blast
  have "find_operation (snd (record_operation_result now v f n out err ch ser db)) w g = Some r"
    by (rule find_operation_stable [OF r]) (rule prod.collapse [symmetric])
  with r show "find_operation db w g =
      find_operation (snd (record_operation_result now v f n out err ch ser db)) w g" by simp
qed

lemma adds_only_throw: "adds_only w (throw e)"
  by (simp add: adds_only_def throw_def)

lemma adds_only_transaction: "adds_only w m \<Longrightarrow> adds_only w (transaction m)"
  by (auto simp: adds_only_def transaction_def split: prod.splits sum.splits) (metis snd_conv)

lemma adds_only_andthen:
  assumes "adds_only w m" and "\<And>a. adds_only w (k a)"
  shows "adds_only w (andthen m k)"
  unfolding adds_only_def
proof
  fix db
  obtain q db1 where m: "m db = (q, db1)" by force
  with assms(1) have one: "grows w db db1" by (metis adds_only_def snd_conv)
  show "grows w db (snd (andthen m k db))"
  proof (cases q)
    case (Inr a)
    with assms(2) have "grows w db1 (snd (k a db1))" by (simp add: adds_only_def)
    with one m Inr show ?thesis by (auto simp: andthen_def intro: grows_trans)
  qed (use m one in \<open>simp add: andthen_def\<close>)
qed

lemmas adds_only_intros = adds_only_throw adds_only_transaction adds_only_andthen adds_only_record
  adds_only_keeps [OF keeps_ops_frames(1)] adds_only_keeps [OF keeps_ops_frames(2)]
  adds_only_keeps [OF keeps_ops_frames(3)] adds_only_keeps [OF keeps_ops_frames(4)]

lemma durable_unit_grows:
  assumes "\<And>f. adds_only w (work f)" and "\<And>db. grows w db (race db)"
  shows "grows w (rs_db st) (rs_db (snd (durable_unit name refusal race wc work st)))"
proof -
  have "grows w db (snd (work f (race db)))" for f db
    using assms by (auto simp: adds_only_def intro: grows_trans)
  then show ?thesis
    by (auto simp: durable_unit_def next_step_id_def on_db_def
        split: sum.splits option.splits prod.splits) (metis snd_conv)
qed

lemma run_step_grows:
  assumes "adds_only w body"
  shows "grows w (rs_db st) (rs_db (snd (run_step vc now wc name body st)))"
proof -
  have "grows w db (snd (record_step vc now v f name q (snd (body db))))" for db v f q
  proof -
    have "adds_only w (record_step vc now v f name q)"
      by (auto simp: record_step_def intro: adds_only_intros split: sum.splits)
    with assms show ?thesis by (auto simp: adds_only_def intro: grows_trans)
  qed
  with assms show ?thesis
    by (auto simp: run_step_def next_step_id_def on_db_def adds_only_def
        split: sum.splits option.splits prod.splits) (metis snd_conv)+
qed

lemma record_sleep_grows:
  assumes race: "\<And>db. grows w db (en_race env db)"
  shows "adds_only w (record_sleep vc env w f ms)"
proof -
  have "grows w db db'" if "record_operation_result now w f name out err ch ser (en_race env db) = (q, db')"
    for db now name out err ch ser q db'
    by (rule grows_trans [OF race adds_onlyD [OF adds_only_record that]])
  then have "adds_only w (sleep_deadline vc env w f ms)"
    by (intro adds_onlyI)
      (auto simp: sleep_deadline_def Let_def split: sum.splits option.splits prod.splits if_splits)
  then show ?thesis
    unfolding record_sleep_def by (rule adds_only_andthen) (simp add: adds_only_def ret_def)
qed

lemma sleep_grows:
  assumes "\<And>db. grows (wc_workflow_id wc) db (en_race env db)"
  shows "grows (wc_workflow_id wc) (rs_db st) (rs_db (snd (sleep vc env wc ms st)))"
  using adds_onlyD [OF record_sleep_grows [OF assms]]
  by (auto simp: sleep_def next_step_id_def on_db_def split: prod.splits)

lemma recv_tx_grows: "adds_only w (recv_tx now w f t)"
  unfolding recv_tx_def
proof (rule adds_only_transaction)
  have "adds_only w (andthen (record_delivered now w f ''DBOS.recv'' d) (\<lambda>_. ret d))" for d
    unfolding record_delivered_def by (intro adds_only_andthen adds_only_record) (simp add: adds_only_def ret_def)
  moreover have "grows w db (snd (consume_oldest_notification w t db))" for db
    by (rule same_ops_grows) (simp add: same_ops_def)
  ultimately show "adds_only w (\<lambda>db. case consume_oldest_notification w t db of (consumed, db1) \<Rightarrow>
      andthen (record_delivered now w f ''DBOS.recv'' consumed) (\<lambda>_. ret consumed) db1)"
    by (intro adds_onlyI) (metis (mono_tags, lifting) adds_onlyD case_prod_beta grows_trans)
qed

lemma wait_rounds_grows:
  assumes "\<forall>p \<in> set rounds. \<forall>db. grows w db (fst p db)"
    and "wait_rounds found deadline rounds db = Some (x, db')"
  shows "grows w db db'"
  using assms
proof (induction rounds arbitrary: db)
  case (Cons p rounds)
  have one: "grows w db (fst p db)" using Cons.prems(1) by simp
  from Cons.prems(2) consider "db' = fst p db" | "wait_rounds found deadline rounds (fst p db) = Some (x, db')"
    by (cases p) (auto simp: Let_def split: option.splits if_splits)
  then show ?case
  proof cases
    case 2
    with Cons.IH Cons.prems(1) have "grows w (fst p db) db'" by simp
    with one show ?thesis by (rule grows_trans)
  qed (use one in simp)
qed simp

lemma recv_grows:
  assumes "recv vc env wc topic ms st = Some (res, st')"
    and race: "\<And>db. grows (wc_workflow_id wc) db (en_race env db)"
    and rounds: "\<forall>p \<in> set (en_rounds env). \<forall>db. grows (wc_workflow_id wc) db (fst p db)"
  shows "grows (wc_workflow_id wc) (rs_db st) (rs_db st')"
proof -
  note slept = adds_onlyD [OF record_sleep_grows [OF race]]
  note waited = wait_rounds_grows [OF rounds]
  note consumed = adds_onlyD [OF recv_tx_grows]
  have all: "grows (wc_workflow_id wc) (rs_db st) db3"
    if "record_sleep vc env (wc_workflow_id wc) f ms (rs_db st) = (Inr remaining, db1)"
      and "wait_rounds found d (en_rounds env) db1 = Some (x, db2)"
      and "recv_tx (en_now2 env) (wc_workflow_id wc) g t db2 = (q, db3)"
    for f remaining db1 found d x db2 g t q db3
    by (rule grows_trans [OF slept [OF that(1)] grows_trans [OF waited [OF that(2)] consumed [OF that(3)]]])
  show ?thesis
    using assms(1) slept
    by (auto simp: recv_def Let_def next_step_id_def dest: all
        split: sum.splits option.splits prod.splits if_splits)
qed

lemma get_event_grows:
  assumes "get_event vc env wc target key ms st = Some (res, st')"
    and race: "\<And>db. grows (wc_workflow_id wc) db (en_race env db)"
    and rounds: "\<forall>p \<in> set (en_rounds env). \<forall>db. grows (wc_workflow_id wc) db (fst p db)"
  shows "grows (wc_workflow_id wc) (rs_db st) (rs_db st')"
proof -
  note slept = adds_onlyD [OF record_sleep_grows [OF race]]
  note waited = wait_rounds_grows [OF rounds]
  have all: "grows (wc_workflow_id wc) (rs_db st) db3"
    if "record_sleep vc env (wc_workflow_id wc) f ms (rs_db st) = (Inr remaining, db1)"
      and "wait_rounds found d (en_rounds env) db1 = Some (x, db2)"
      and "record_delivered (en_now2 env) (wc_workflow_id wc) g nm v db2 = (q, db3)"
    for f remaining db1 found d x db2 g nm v q db3
    by (rule grows_trans [OF slept [OF that(1)] grows_trans [OF waited [OF that(2)]
        adds_onlyD [OF adds_only_record that(3) [unfolded record_delivered_def]]]])
  show ?thesis
    using assms(1) slept
    by (auto simp: get_event_def Let_def next_step_id_def dest: all
        split: sum.splits option.splits prod.splits if_splits)
qed

lemma context_writes_add:
  "adds_only w (case encode_value sd to_v m Portable of
      Inl e \<Rightarrow> throw e
    | Inr enc \<Rightarrow> (case encode_unit vc of
        Inl e \<Rightarrow> throw e
      | Inr unit_text \<Rightarrow> transaction (andthen (insert_notification u now d t enc PORTABLE_NAME)
          (\<lambda>_. record_unit now2 v f name unit_text))))"
  "adds_only w (case encode_value sd to_v m Portable of
      Inl e \<Rightarrow> throw e
    | Inr enc \<Rightarrow> (case encode_unit vc of
        Inl e \<Rightarrow> throw e
      | Inr unit_text \<Rightarrow> transaction (andthen (upsert_workflow_event v key enc PORTABLE_NAME)
          (\<lambda>_. andthen (insert_workflow_event_history v f key enc PORTABLE_NAME)
            (\<lambda>_. record_unit now v f name unit_text)))))"
  "adds_only w (case encode_unit vc of
        Inl e \<Rightarrow> throw e
      | Inr unit_text \<Rightarrow> transaction (andthen (write_stream_entry v f key val ser)
          (\<lambda>_. record_unit now v f name unit_text)))"
  by (auto simp: record_unit_def split: sum.splits intro!: adds_only_intros)

text \<open>What a call relies on: while it runs, others only add to the workflow's records.\<close>

definition shared :: "string \<Rightarrow> call_env \<Rightarrow> 'v op \<Rightarrow> bool" where
  "shared w env op \<longleftrightarrow>
     (\<forall>db. grows w db (en_race env db)) \<and>
     (\<forall>p \<in> set (en_rounds env). \<forall>db. grows w db (fst p db)) \<and>
     (case op of StepOp name body \<Rightarrow> adds_only w body | _ \<Rightarrow> True)"

lemma quiet_shared: "quiet w env op \<Longrightarrow> shared w env op"
  by (auto simp: quiet_def shared_def same_ops_grows adds_only_keeps split: op.splits)

lemma perform_grows:
  assumes "perform vc wc env op st = Some (res, st')" and "shared (wc_workflow_id wc) env op"
  shows "grows (wc_workflow_id wc) (rs_db st) (rs_db st')"
proof -
  let ?w = "wc_workflow_id wc"
  have race: "\<And>db. grows ?w db (en_race env db)"
    and rounds: "\<forall>p \<in> set (en_rounds env). \<forall>db. grows ?w db (fst p db)"
    using assms(2) by (simp_all add: shared_def)
  note unit = durable_unit_grows [OF context_writes_add(1) race] durable_unit_grows [OF context_writes_add(2) race]
    durable_unit_grows [OF context_writes_add(3) race]
  have raw: "grows ?w (rs_db st) (rs_db (snd (write_stream_raw vc env wc key name v ser st)))"
    for key name v ser
    unfolding write_stream_raw_def by (rule unit(3))
  show ?thesis
  proof (cases op)
    case (StepOp name body)
    with assms(2) have "adds_only ?w body" by (simp add: shared_def)
    from run_step_grows [OF this, of st vc "en_now1 env" wc name] assms(1) StepOp show ?thesis
      by (auto simp: first_of_def)
  next
    case (SendOp dest v topic)
    from unit(1) assms(1) SendOp show ?thesis by (auto simp: first_of_def send_def)
  next
    case (RecvOp topic ms)
    with assms(1) recv_grows [where env = env, OF _ race rounds] show ?thesis by (auto simp: first_of_def)
  next
    case (SetEventOp key v)
    from unit(2) assms(1) SetEventOp show ?thesis by (auto simp: first_of_def set_event_def)
  next
    case (GetEventOp target key ms)
    with assms(1) get_event_grows [where env = env, OF _ race rounds] show ?thesis by (auto simp: first_of_def)
  next
    case (WriteStreamOp key v)
    from raw assms(1) WriteStreamOp show ?thesis
      by (auto simp: first_of_def write_stream_def throw_def split: sum.splits)
  next
    case (CloseStreamOp key)
    from raw assms(1) CloseStreamOp show ?thesis by (auto simp: first_of_def close_stream_def)
  next
    case (SleepOp ms)
    from sleep_grows [OF race] assms(1) SleepOp show ?thesis by (auto simp: first_of_def)
  qed
qed

subsection \<open>Calls that overlap\<close>

text \<open>
  While a call is under way another incarnation of the workflow may record the step. A call that
  succeeds all the same has written the record itself or read it back.
\<close>

lemma decoded_other_neq:
  "record_step vc now w f name q db = (Inl e, db') \<Longrightarrow> other (display e) \<noteq> e"
proof -
  assume rec: "record_step vc now w f name q db = (Inl e, db')"
  have "err_source (from_serde m) \<noteq> None" "err_source (from_sqlx x) \<noteq> None"
    "err_context (conflicting_id w) \<noteq> None" for m x
    by (simp_all add: from_serde_def from_sqlx_def conflicting_id_def ctx_def)
  moreover have "(\<exists>m. e = from_serde m) \<or> e = conflicting_id w \<or> (\<exists>x. e = from_sqlx x)"
    using rec by (auto simp: record_step_def throw_def encode_value_def record_operation_result_def
        split: sum.splits if_splits)
  moreover have "err_source (other m) = None" "err_context (other m) = None" for m by simp_all
  ultimately show ?thesis by metis
qed

lemma step_raced:
  assumes "at_step st n" and "n < 2 ^ 31" and "\<not> wc_within_step wc"
    and "find_operation (rs_db st) (wc_workflow_id wc) (int n) = None"
    and "run_step vc now wc name body st = (res, st')"
    and "find_operation (rs_db st') (wc_workflow_id wc) (int n) = Some r"
    and "storable vc env (StepOp name body) (map_ok OutValue res)"
  shows "recorded_answer vc (StepOp name body) r = map_ok OutValue res \<and> rs_step st' = rs_step (advance 1 st)"
  using assms(4)
proof (rule check_fresh [of _ _ _ name])
  fix e assume "check_operation_execution (wc_workflow_id wc) (int n) name (rs_db st) = Inl e"
  with assms show ?thesis by (auto simp: run_step_def next_step_id_at replay_step_def)
next
  let ?w = "wc_workflow_id wc"
  assume chk: "check_operation_execution ?w (int n) name (rs_db st) = Inr None"
  obtain q db1 where body: "body (rs_db st) = (q, db1)" by force
  obtain u db2 where rec: "record_step vc now ?w (int n) name q db1 = (u, db2)" by force
  have run: "(res, st') = (case u of Inl e \<Rightarrow> (Inl e, (advance 1 st)\<lparr>rs_db := db2\<rparr>)
      | Inr _ \<Rightarrow> (q, (advance 1 st)\<lparr>rs_db := db2\<rparr>))"
    using assms(1-3,5) chk body rec
    by (auto simp: run_step_def next_step_id_at replay_step_def split: sum.splits)
  obtain uu where u: "u = Inr uu"
    using run rec assms(7) by (cases u) (auto simp: storable_def dest: decoded_other_neq)
  with run have out: "res = q" "st' = (advance 1 st)\<lparr>rs_db := db2\<rparr>" by simp_all
  show ?thesis
  proof (cases q)
    case (Inl e)
    let ?err = "serialize_workflow_error (vc_error vc) (display e) None Portable"
    from Inl u rec have "records ?w (int n)
        (operation_values now ?w (int n) name None (Some ?err) None (Some PORTABLE_NAME)) db1 db2"
      by (auto simp: record_step_def intro!: record_operation_records)
    moreover have "decoded_step_error (vc_error vc) ?err (Some PORTABLE_NAME) = e"
      using assms(7) out Inl by (auto simp: storable_def decoded_serialized_error)
    ultimately show ?thesis using out Inl assms(6) by (auto simp: records_def recorded_answer_def)
  next
    case (Inr v)
    from Inr u rec obtain s where s: "encode_value (vc_serde vc) (vc_to vc) v Portable = Inr s"
      and "records ?w (int n)
        (operation_values now ?w (int n) name (Some s) None None (Some PORTABLE_NAME)) db1 db2"
      by (auto simp: record_step_def throw_def split: sum.splits intro!: record_operation_records)
    moreover have "stored_value vc (Some s) (Some PORTABLE_NAME) = Inr v"
      using assms(7) out Inr s by (auto simp: storable_def intro: stored_value_encoded)
    ultimately show ?thesis using out Inr assms(6) by (auto simp: records_def recorded_answer_def)
  qed
qed

lemma durable_unit_step:
  assumes "at_step st n" and "n < 2 ^ 31" and "\<not> wc_within_step wc"
    and "durable_unit name refusal race wc work st = (res, st')"
  shows "rs_step st' = rs_step (advance 1 st)"
  using assms
  by (auto simp: durable_unit_def next_step_id_at on_db_def split: sum.splits option.splits prod.splits)

lemma sleep_raced:
  assumes "at_step st n" and "n < 2 ^ 31" and "\<not> wc_within_step wc"
    and "find_operation (rs_db st) (wc_workflow_id wc) (int n) = None"
    and "sleep vc env wc ms st = (Inr x, st')"
    and "find_operation (rs_db st') (wc_workflow_id wc) (int n) = Some r"
    and "storable vc env (SleepOp ms) res"
  shows "recorded_answer vc (SleepOp ms) r = Inr OutUnit \<and> rs_step st' = rs_step (advance 1 st)"
proof -
  let ?w = "wc_workflow_id wc" and ?wake = "en_now1 env + cast_i64 (int ms)"
  define out where "out = encode_json_value (vc_serde vc) (Number (IntNum ?wake)) Portable"
  have enc: "encode_value (vc_serde vc) (\<lambda>n. Inr (Number (IntNum n))) ?wake Portable = Inr out"
    by (simp add: encode_value_def out_def)
  have dec: "decode_value (vc_serde vc) (vc_i64_from vc) (Some out) (Some PORTABLE_NAME) = Inr ?wake"
    using assms(7) decode_encode_json [of "vc_serde vc" "Number (IntNum ?wake)" Portable]
    by (simp add: decode_value_def out_def storable_def Let_def)
  obtain q db' where dl: "sleep_deadline vc env ?w (int n) ms (rs_db st) = (q, db')" by force
  have st': "st' = (advance 1 st)\<lparr>rs_db := db'\<rparr>" and q: "\<exists>d. q = Inr d"
    using assms(1-3,5) dl
    by (auto simp: sleep_def next_step_id_at on_db_def record_sleep_def andthen_def ret_def
        split: sum.splits)
  have chk: "check_operation_execution ?w (int n) ''DBOS.sleep'' (rs_db st) = Inr None"
    using assms(4) dl q by (auto intro: check_fresh [OF assms(4), of "''DBOS.sleep''"] simp: sleep_deadline_def)
  obtain u db1 where rec: "record_operation_result (en_now2 env) ?w (int n) ''DBOS.sleep'' (Some out)
      None None (Some PORTABLE_NAME) (en_race env (rs_db st)) = (u, db1)" by force
  have "\<exists>d. stored_i64 vc (recorded r) = Inr d"
  proof (cases u)
    case (Inr y)
    with rec have "records ?w (int n) (operation_values (en_now2 env) ?w (int n) ''DBOS.sleep'' (Some out)
        None None (Some PORTABLE_NAME)) (en_race env (rs_db st)) db1"
      by (auto intro: record_operation_records)
    moreover have "db' = db1" using dl chk enc rec Inr by (simp add: sleep_deadline_def Let_def)
    ultimately have "r = operation_values (en_now2 env) ?w (int n) ''DBOS.sleep'' (Some out)
        None None (Some PORTABLE_NAME)"
      using assms(6) st' by (simp add: records_def)
    then show ?thesis using dec by (simp add: stored_i64_def recorded_def)
  next
    case (Inl e)
    with dl chk enc rec q obtain ro where ro: "check_operation_execution ?w (int n) ''DBOS.sleep'' db1 = Inr (Some ro)"
      "stored_i64 vc ro = q" "db' = db1"
      by (auto simp: sleep_deadline_def Let_def split: if_splits sum.splits option.splits)
    then have "ro = recorded r"
      using assms(6) st' by (auto simp: check_operation_execution_def split: option.splits if_splits)
    with ro(2) q show ?thesis by auto
  qed
  then show ?thesis using st' by (auto simp: recorded_answer_def)
qed

lemma recv_raced:
  assumes "at_step st n" and "n < 2 ^ 31 - 1" and "\<not> wc_within_step wc"
    and "find_operation (rs_db st) (wc_workflow_id wc) (int n) = None"
    and "recv vc env wc topic ms st = Some (Inr v, st')"
    and "find_operation (rs_db st') (wc_workflow_id wc) (int n) = Some r"
  shows "recorded_answer vc (RecvOp topic ms) r = Inr (OutOption v) \<and> rs_step st' = rs_step (advance 2 st)"
proof -
  let ?w = "wc_workflow_id wc" and ?t = "topic_or_default topic" and ?st2 = "advance 2 st"
  have ids: "next_step_id st = (int n, advance 1 st)"
    "next_step_id (advance 1 st) = (int n + 1, advance 2 st)"
    using next_step_id_at [OF assms(1)] next_step_id_at [OF at_step_advance [OF assms(1), of 1]] assms(2)
    by (simp_all add: numeral_2_eq_2)
  have chk: "check_operation_execution ?w (int n) ''DBOS.recv'' (rs_db st) = Inr None"
    and free: "?w @ ''::'' @ ?t \<notin> set (rs_waiters st)"
    using assms(3-5) ids
    by (auto simp: recv_def Let_def check_operation_new check_operation_execution_def
        split: sum.splits option.splits if_splits)
  obtain q db1 where sl: "record_sleep vc env ?w (int n + 1) ms (rs_db st) = (q, db1)" by force
  obtain remaining where q: "q = Inr remaining"
    using assms(3,5) ids chk free sl by (cases q) (auto simp: recv_def Let_def)
  let ?found = "\<lambda>db. if notification_exists_unconsumed ?w ?t db then Some () else None"
  obtain x db2 where wt: "wait_rounds ?found (en_instant env + remaining) (en_rounds env) db1 = Some (x, db2)"
    using assms(3,5) ids chk free sl q by (auto simp: recv_def Let_def split: option.splits)
  obtain u db3 where tx: "recv_tx (en_now2 env) ?w (int n) ?t db2 = (u, db3)" by force
  have out: "(Inr v, st') = (case u of Inl e \<Rightarrow> (Inl e, ?st2\<lparr>rs_db := db3\<rparr>)
      | Inr d \<Rightarrow> (decode_delivered vc d, ?st2\<lparr>rs_db := db3\<rparr>))"
    using assms(3,5) ids chk free sl q wt tx by (auto simp: recv_def Let_def split: sum.splits)
  then obtain d where d: "u = Inr d" by (cases u) auto
  with recv_tx_live [OF tx] out assms(6) have "r = operation_values (en_now2 env) ?w (int n) ''DBOS.recv''
      (map_option fst d) None None (Some (unwrap_or (Option.bind d snd) PORTABLE_NAME))"
    by (simp add: records_def)
  then have "decode_optional vc (recorded r) = decode_delivered vc d" by (simp only: delivered_answer)
  moreover have "decode_delivered vc d = Inr v" using out d by simp
  ultimately show ?thesis using out d by (simp add: recorded_answer_def)
qed

lemma get_event_raced:
  assumes "at_step st n" and "n < 2 ^ 31 - 1" and "\<not> wc_within_step wc"
    and "find_operation (rs_db st) (wc_workflow_id wc) (int n) = None"
    and "get_event vc env wc target key ms st = Some (Inr v, st')"
    and "find_operation (rs_db st') (wc_workflow_id wc) (int n) = Some r"
  shows "recorded_answer vc (GetEventOp target key ms) r = Inr (OutOption v) \<and>
    rs_step st' = rs_step (advance 2 st)"
proof -
  let ?w = "wc_workflow_id wc" and ?st2 = "advance 2 st"
  have ids: "next_step_id st = (int n, advance 1 st)"
    "next_step_id (advance 1 st) = (int n + 1, advance 2 st)"
    using next_step_id_at [OF assms(1)] next_step_id_at [OF at_step_advance [OF assms(1), of 1]] assms(2)
    by (simp_all add: numeral_2_eq_2)
  have chk: "check_operation_execution ?w (int n) ''DBOS.getEvent'' (rs_db st) = Inr None"
    using assms(3-5) ids
    by (auto simp: get_event_def Let_def check_operation_new check_operation_execution_def
        split: sum.splits option.splits if_splits)
  obtain q db1 where sl: "record_sleep vc env ?w (int n + 1) ms (rs_db st) = (q, db1)" by force
  obtain remaining where q: "q = Inr remaining"
    using assms(3,5) ids chk sl by (cases q) (auto simp: get_event_def Let_def)
  obtain d db2 where wt: "wait_rounds (select_workflow_event target key)
      (en_instant env + remaining) (en_rounds env) db1 = Some (d, db2)"
    using assms(3,5) ids chk sl q by (auto simp: get_event_def Let_def split: option.splits)
  obtain u db3 where tx: "record_delivered (en_now2 env) ?w (int n) ''DBOS.getEvent'' d db2 = (u, db3)"
    by force
  have out: "(Inr v, st') = (case u of Inl e \<Rightarrow> (Inl e, ?st2\<lparr>rs_db := db3\<rparr>)
      | Inr _ \<Rightarrow> (decode_delivered vc d, ?st2\<lparr>rs_db := db3\<rparr>))"
    using assms(3,5) ids chk sl q wt tx by (auto simp: get_event_def Let_def split: sum.splits)
  then have u: "u = Inr ()" by (cases u) auto
  with tx have "records ?w (int n) (operation_values (en_now2 env) ?w (int n) ''DBOS.getEvent''
      (map_option fst d) None None (Some (unwrap_or (Option.bind d snd) PORTABLE_NAME))) db2 db3"
    by (auto simp: record_delivered_def intro: record_operation_records)
  with out u assms(6) have "r = operation_values (en_now2 env) ?w (int n) ''DBOS.getEvent''
      (map_option fst d) None None (Some (unwrap_or (Option.bind d snd) PORTABLE_NAME))"
    by (simp add: records_def)
  then have "decode_optional vc (recorded r) = decode_delivered vc d" by (simp only: delivered_answer)
  moreover have "decode_delivered vc d = Inr v" using out u by simp
  ultimately show ?thesis using out u by (simp add: recorded_answer_def)
qed

text \<open>
  The errors of a step are its results; another call under overlap counts only when it succeeds.
\<close>

definition answered :: "'v op \<Rightarrow> DbosError + 'v outcome \<Rightarrow> bool" where
  "answered op res = (case op of StepOp name body \<Rightarrow> True | _ \<Rightarrow> \<not> isl res)"

lemma perform_raced:
  assumes "at_step st n" and "n < 2 ^ 31 - 1" and "\<not> wc_within_step wc"
    and "find_operation (rs_db st) (wc_workflow_id wc) (int n) = None"
    and "perform vc wc env op st = Some (res, st')"
    and "find_operation (rs_db st') (wc_workflow_id wc) (int n) = Some r"
    and "storable vc env op res" and "answered op res"
  shows "recorded_answer vc op r = res \<and> rs_step st' = rs_step (advance (op_width op) st)"
proof -
  have n: "n < 2 ^ 31" using assms(2) by simp
  note du = durable_unit_step [OF assms(1) n assms(3)]
  show ?thesis
  proof (cases op)
    case (StepOp name body)
    obtain q where q: "run_step vc (en_now1 env) wc name body st = (q, st')" "res = map_ok OutValue q"
      using assms(5) StepOp by (cases "run_step vc (en_now1 env) wc name body st") (auto simp: first_of_def)
    with step_raced [OF assms(1) n assms(3,4) q(1) assms(6)] assms(7) StepOp show ?thesis by simp
  next
    case (SendOp dest v topic)
    obtain q where q: "send vc env wc dest v topic st = (q, st')" "res = map_ok (\<lambda>_. OutUnit) q"
      using assms(5) SendOp by (cases "send vc env wc dest v topic st") (auto simp: first_of_def)
    with du [OF q(1) [unfolded send_def]] SendOp assms(8) show ?thesis
      by (cases q) (auto simp: recorded_answer_def answered_def)
  next
    case (RecvOp topic ms)
    obtain x where x: "recv vc env wc topic ms st = Some (x, st')" "res = map_ok OutOption x"
      using assms(5) RecvOp by (auto simp: first_of_def)
    with RecvOp assms(8) obtain v where q: "recv vc env wc topic ms st = Some (Inr v, st')" "res = Inr (OutOption v)"
      by (cases x) (auto simp: answered_def)
    with recv_raced [OF assms(1-4) q(1) assms(6)] RecvOp show ?thesis by simp
  next
    case (SetEventOp key v)
    obtain q where q: "set_event vc env wc key v st = (q, st')" "res = map_ok (\<lambda>_. OutUnit) q"
      using assms(5) SetEventOp by (cases "set_event vc env wc key v st") (auto simp: first_of_def)
    with du [OF q(1) [unfolded set_event_def]] SetEventOp assms(8) show ?thesis
      by (cases q) (auto simp: recorded_answer_def answered_def)
  next
    case (GetEventOp target key ms)
    obtain x where x: "get_event vc env wc target key ms st = Some (x, st')" "res = map_ok OutOption x"
      using assms(5) GetEventOp by (auto simp: first_of_def)
    with GetEventOp assms(8) obtain v where q: "get_event vc env wc target key ms st = Some (Inr v, st')"
      "res = Inr (OutOption v)"
      by (cases x) (auto simp: answered_def)
    with get_event_raced [OF assms(1-4) q(1) assms(6)] GetEventOp show ?thesis by simp
  next
    case (WriteStreamOp key v)
    obtain q where q: "write_stream vc env wc key v st = (q, st')" "res = map_ok (\<lambda>_. OutUnit) q"
      using assms(5) WriteStreamOp by (cases "write_stream vc env wc key v st") (auto simp: first_of_def)
    then obtain enc where "write_stream_raw vc env wc key ''DBOS.writeStream'' enc (Some PORTABLE_NAME) st =
        (q, st')"
      using WriteStreamOp assms(8) by (auto simp: write_stream_def answered_def throw_def split: sum.splits)
    from du [OF this [unfolded write_stream_raw_def]] q(2) WriteStreamOp assms(8) show ?thesis
      by (cases q) (auto simp: recorded_answer_def answered_def)
  next
    case (CloseStreamOp key)
    obtain q where q: "close_stream vc env wc key st = (q, st')" "res = map_ok (\<lambda>_. OutUnit) q"
      using assms(5) CloseStreamOp by (cases "close_stream vc env wc key st") (auto simp: first_of_def)
    with du [OF q(1) [unfolded close_stream_def write_stream_raw_def]] CloseStreamOp assms(8) show ?thesis
      by (cases q) (auto simp: recorded_answer_def answered_def)
  next
    case (SleepOp ms)
    with assms(5,8) obtain x where q: "sleep vc env wc ms st = (Inr x, st')" "res = Inr OutUnit"
      by (cases "sleep vc env wc ms st") (auto simp: first_of_def answered_def map_ok_def split: sum.splits)
    with sleep_raced [OF assms(1) n assms(3,4) q(1) assms(6)] assms(7) SleepOp show ?thesis by simp
  qed
qed

subsection \<open>Runs with crashes\<close>

text \<open>
  A call that is answered by its record, or that leaves one while others only add records: its
  result survives serialization, and it is not a call that lost the race for its record, which
  fails. (When nobody else adds records of the workflow meanwhile, an error may be the record's.)
\<close>

definition durable_step ::
  "'v value_codec \<Rightarrow> WorkflowContext \<Rightarrow> call_env \<Rightarrow> 'v op \<Rightarrow> run_state \<Rightarrow> nat \<Rightarrow>
   DbosError + 'v outcome \<Rightarrow> run_state \<Rightarrow> bool" where
  "durable_step vc wc env op st n res st1 \<longleftrightarrow>
     perform vc wc env op st = Some (res, st1) \<and> n < 2 ^ 31 - 1 \<and>
     (case log_of (wc_workflow_id wc) (rs_db st) (int n) of
        Some r \<Rightarrow> live_status (rs_db st) (wc_workflow_id wc) \<and> oo_function_name r = op_name op \<and> encodes vc op
      | None \<Rightarrow> shared (wc_workflow_id wc) env op \<and> (quiet (wc_workflow_id wc) env op \<or> answered op res) \<and>
          storable vc env op res \<and> log_of (wc_workflow_id wc) (rs_db st1) (int n) \<noteq> None)"

text \<open>
  The states of processes that run the body \<open>p\<close>, from a first one on the database \<open>db0\<close>: a process
  makes calls; others change the database, and may add records of the workflow; a process dies at
  any time, in the middle of a call included, and a new one starts from the beginning.
\<close>

inductive lived ::
  "'v value_codec \<Rightarrow> WorkflowContext \<Rightarrow> 'v prog \<Rightarrow> sysdb \<Rightarrow> 'v prog \<Rightarrow> run_state \<Rightarrow> nat \<Rightarrow> bool"
  for vc :: "'v value_codec" and wc :: WorkflowContext and p :: "'v prog" and db0 :: sysdb where
  boot: "lived vc wc p db0 p (new_run db0 ws) 0"
| others: "lived vc wc p db0 q st n \<Longrightarrow> grows (wc_workflow_id wc) (rs_db st) db' \<Longrightarrow>
    lived vc wc p db0 q (st\<lparr>rs_db := db'\<rparr>) n"
| call: "lived vc wc p db0 (Call op k) st n \<Longrightarrow> durable_step vc wc env op st n res st1 \<Longrightarrow>
    lived vc wc p db0 (k res) st1 (n + op_width op)"
| crash: "lived vc wc p db0 q st n \<Longrightarrow> grows (wc_workflow_id wc) (rs_db st) db' \<Longrightarrow>
    lived vc wc p db0 p (new_run db' ws) 0"

lemma durable_step_effect:
  assumes "durable_step vc wc env op st n res st1" and "at_step st n" and "\<not> wc_within_step wc"
  obtains r where "log_of (wc_workflow_id wc) (rs_db st1) (int n) = Some r" and "recorded_answer vc op r = res"
    and "at_step st1 (n + op_width op)"
proof (cases "log_of (wc_workflow_id wc) (rs_db st) (int n)")
  case (Some r)
  with assms(1) have "perform vc wc env op st = Some (recorded_answer vc op r, advance (op_width op) st)"
    by (intro perform_recorded [OF assms(2) _ assms(3)]) (simp_all add: durable_step_def log_of_def)
  then have "res = recorded_answer vc op r" "st1 = advance (op_width op) st"
    using assms(1) by (simp_all add: durable_step_def)
  then show thesis using that [of r] Some at_step_advance [OF assms(2)] by simp
next
  case None
  with assms(1) obtain r where r: "log_of (wc_workflow_id wc) (rs_db st1) (int n) = Some r"
    by (auto simp: durable_step_def)
  have n: "n < 2 ^ 31 - 1" and run: "perform vc wc env op st = Some (res, st1)" and st: "storable vc env op res"
    using assms(1) None by (simp_all add: durable_step_def)
  note free = None [unfolded log_of_def] and row = r [unfolded log_of_def]
  have "recorded_answer vc op r = res \<and> rs_step st1 = rs_step (advance (op_width op) st)"
  proof (cases "answered op res")
    case True
    show ?thesis by (rule perform_raced [OF assms(2) n assms(3) free run row st True])
  next
    case False
    with assms(1) None have "quiet (wc_workflow_id wc) env op" by (simp add: durable_step_def)
    from perform_live [OF assms(2) n assms(3) free this run row st] show ?thesis
      by (simp add: live_effect_def)
  qed
  moreover from this have "at_step st1 (n + op_width op)"
    using at_step_advance [OF assms(2)] by (simp add: at_step_def)
  ultimately show thesis using that r by simp
qed

lemma durable_step_grows:
  assumes "durable_step vc wc env op st n res st1" and "at_step st n" and "\<not> wc_within_step wc"
  shows "grows (wc_workflow_id wc) (rs_db st) (rs_db st1)"
proof (cases "log_of (wc_workflow_id wc) (rs_db st) (int n)")
  case (Some r)
  with assms(1) have "perform vc wc env op st = Some (recorded_answer vc op r, advance (op_width op) st)"
    by (intro perform_recorded [OF assms(2) _ assms(3)]) (simp_all add: durable_step_def log_of_def)
  with assms(1) have "st1 = advance (op_width op) st" by (simp add: durable_step_def)
  then show ?thesis by simp
next
  case None
  with assms(1) have "perform vc wc env op st = Some (res, st1)" and "shared (wc_workflow_id wc) env op"
    by (simp_all add: durable_step_def)
  then show ?thesis by (rule perform_grows)
qed

lemma lived_reaches:
  assumes "lived vc wc p db0 q st n" and "\<not> wc_within_step wc"
  shows "at_step st n \<and> reaches vc (log_of (wc_workflow_id wc) (rs_db st)) p q n"
  using assms(1)
proof (induction rule: lived.induct)
  case (boot ws)
  show ?case by (simp add: reaches.here)
next
  case (others q st n db')
  then show ?case using reaches_mono by (auto simp: grows_def)
next
  case (call op k st n env res st1)
  from call.IH have at: "at_step st n"
    and path: "reaches vc (log_of (wc_workflow_id wc) (rs_db st)) p (Call op k) n" by simp_all
  obtain r where r: "log_of (wc_workflow_id wc) (rs_db st1) (int n) = Some r" "recorded_answer vc op r = res"
    and at1: "at_step st1 (n + op_width op)"
    using durable_step_effect [OF call.hyps(2) at assms(2)] by blast
  have "reaches vc (log_of (wc_workflow_id wc) (rs_db st1)) p (Call op k) n"
    using reaches_mono [OF path] durable_step_grows [OF call.hyps(2) at assms(2)] by (simp add: grows_def)
  from reaches.onward [OF this r(1)] show ?case using r(2) at1 by simp
next
  case (crash q st n db' ws)
  show ?case by (simp add: reaches.here)
qed

lemma lived_follow: "lived vc wc p db0 q st n \<Longrightarrow> q = Finish r \<Longrightarrow> \<not> wc_within_step wc \<Longrightarrow>
    follow vc p (log_of (wc_workflow_id wc) (rs_db st)) 0 = Some r"
  using lived_reaches reaches_follow by fastforce

lemma lived_grows:
  assumes "lived vc wc p db0 q st n" and "\<not> wc_within_step wc"
  shows "grows (wc_workflow_id wc) db0 (rs_db st)"
  using assms(1)
proof (induction rule: lived.induct)
  case (boot ws)
  show ?case by (simp add: new_run_def)
next
  case (others q st n db')
  then show ?case by (auto intro: grows_trans)
next
  case (call op k st n env res st1)
  moreover have "at_step st n" using lived_reaches [OF call.hyps(1) assms(2)] by simp
  ultimately show ?case using durable_step_grows assms(2) by (blast intro: grows_trans)
next
  case (crash q st n db' ws)
  then show ?case by (auto simp: new_run_def intro: grows_trans)
qed



definition charge_rest :: "DbosError + string outcome \<Rightarrow> string prog" where
  "charge_rest r = Finish (case r of Inr (OutValue v) \<Rightarrow> Inr (''paid '' @ v) | _ \<Rightarrow> Inr ''unpaid'')"

definition charge_prog :: "string prog" where
  "charge_prog = Call (StepOp ''charge'' (\<lambda>db. (Inr ''42'', db))) charge_rest"

definition charged :: run_state where
  "charged = (advance 1 (new_run sample_db []))\<lparr>rs_db := sample_db\<lparr>operation_outputs :=
     [operation_values 7 ''wf'' 0 ''charge'' (Some (CHR 0x22 # ''42'' @ [CHR 0x22])) None None
        (Some PORTABLE_NAME)]\<rparr>\<rparr>"

lemma charge_is_durable:
  "durable_step sample_codec sample_wc (sample_env 7) (StepOp ''charge'' (\<lambda>db. (Inr ''42'', db)))
     (new_run sample_db []) 0 (Inr (OutValue ''42'')) charged"
proof -
  have "perform sample_codec sample_wc (sample_env 7) (StepOp ''charge'' (\<lambda>db. (Inr ''42'', db)))
      (new_run sample_db []) = Some (Inr (OutValue ''42''), charged)"
    using sample_step by (simp add: first_of_def sample_env_def charged_def)
  moreover have "quiet ''wf'' (sample_env 7) (StepOp ''charge'' (\<lambda>db. (Inr ''42'', db)))"
    by (simp add: quiet_def sample_env_def keeps_ops_def)
  moreover have "storable sample_codec (sample_env 7) (StepOp ''charge'' (\<lambda>db. (Inr ''42'', db)))
      (Inr (OutValue ''42''))"
    using mini_serde_string by (simp add: storable_def sample_codec_def)
  moreover have "log_of ''wf'' (rs_db charged) 0 \<noteq> None"
    by (simp add: log_of_def charged_def find_operation_def)
  ultimately show ?thesis
    using sample_no_ops quiet_shared by (auto simp: durable_step_def log_of_def sample_wc_def new_run_def)
qed

lemma charge_replays_on:
  assumes "log_of ''wf'' db 0 = log_of ''wf'' (rs_db charged) 0" and "live_status db ''wf''"
  shows "durable_step sample_codec sample_wc (sample_env 99) (StepOp ''charge'' (\<lambda>db. (Inr ''42'', db)))
     (new_run db []) 0 (Inr (OutValue ''42'')) (advance 1 (new_run db []))"
proof -
  let ?r = "operation_values 7 ''wf'' 0 ''charge'' (Some (CHR 0x22 # ''42'' @ [CHR 0x22])) None None
    (Some PORTABLE_NAME)"
  let ?op = "StepOp ''charge'' (\<lambda>db. (Inr ''42'', db)) :: string op"
  have r0: "log_of ''wf'' (rs_db charged) 0 = Some ?r"
    by (simp add: charged_def find_operation_def log_of_def)
  with assms have r: "find_operation (rs_db (new_run db [])) (wc_workflow_id sample_wc) (int 0) = Some ?r"
    and live: "live_status (rs_db (new_run db [])) (wc_workflow_id sample_wc)"
    by (simp_all add: log_of_def new_run_def sample_wc_def)
  have "\<not> wc_within_step sample_wc" by (simp add: sample_wc_def)
  from durable_step_effect [OF charge_is_durable at_step_new this]
  have "recorded_answer sample_codec ?op ?r = Inr (OutValue ''42'')"
    using r0 by (auto simp: sample_wc_def)
  moreover have "perform sample_codec sample_wc (sample_env 99) ?op (new_run db []) =
      Some (recorded_answer sample_codec ?op ?r, advance (op_width ?op) (new_run db []))"
    by (rule perform_recorded [OF at_step_new _ _ live r]) (simp_all add: sample_wc_def encodes_def)
  ultimately show ?thesis
    using r live by (simp add: durable_step_def log_of_def encodes_def)
qed

lemma charged_live: "live_status (rs_db charged) ''wf''"
  using sample_live(1) by (simp add: live_status_def charged_def)


text \<open>Two naps at once: the second process finds its step recorded when it comes to record it.\<close>

definition nap_prog :: "string prog" where
  "nap_prog = Call (SleepOp 50) (\<lambda>r. Finish (Inr ''awake''))"

definition record_nap :: "unit db_op" where
  "record_nap = record_operation_result 1000 ''wf'' 0 ''DBOS.sleep'' (Some (show_int 1050)) None None
     (Some PORTABLE_NAME)"

definition late_env :: call_env where
  "late_env = (sample_env 1030)\<lparr>en_race := snd \<circ> record_nap\<rparr>"

definition napped :: run_state where
  "napped = (advance 1 (new_run sample_db []))\<lparr>rs_db := snd (record_nap sample_db)\<rparr>"

lemma nap_times: "serde_ok mini_serde (Number (IntNum 1050))" "serde_ok mini_serde (Number (IntNum 1080))"
proof -
  have "show_int 1050 \<noteq> ''null''" "hd (show_int 1050) \<noteq> CHR 0x22" "show_int 1050 \<noteq> []"
    "show_int 1080 \<noteq> ''null''" "hd (show_int 1080) \<noteq> CHR 0x22" "show_int 1080 \<noteq> []"
    by code_simp+
  then show "serde_ok mini_serde (Number (IntNum 1050))" "serde_ok mini_serde (Number (IntNum 1080))"
    by (simp_all add: serde_ok_def mini_serde_def parse_i64_show NIL_MARKER_def)
qed

lemma nap_recorded:
  "record_nap sample_db = (Inr (), snd (record_nap sample_db))"
  "find_operation (snd (record_nap sample_db)) ''wf'' 0 = Some (operation_values 1000 ''wf'' 0 ''DBOS.sleep''
     (Some (show_int 1050)) None None (Some PORTABLE_NAME))"
  "live_status (snd (record_nap sample_db)) ''wf''"
  using record_operation_new [OF sample_no_ops sample_live(2)] sample_live(1)
    find_operation_append [of sample_db "operation_values 1000 ''wf'' 0 ''DBOS.sleep''
      (Some (show_int 1050)) None None (Some PORTABLE_NAME)" "''wf''" 0] sample_no_ops
  by (simp_all add: record_nap_def live_status_def)

lemma nap_stored:
  "decode_value mini_serde (vc_i64_from sample_codec) (Some (show_int 1050)) (Some PORTABLE_NAME) = Inr 1050"
  using decode_encode_json [OF nap_times(1), of Portable]
  by (simp add: decode_value_def encode_json_value_def mini_serde_def sample_codec_def)

lemma nap_runs:
  "sleep sample_codec (sample_env 1000) sample_wc 50 (new_run sample_db []) = (Inr 50, napped)"
  "sleep sample_codec late_env sample_wc 50 (new_run sample_db []) = (Inr 20, napped)"
proof -
  have w: "\<not> wc_within_step sample_wc" "wc_workflow_id sample_wc = ''wf''" by (simp_all add: sample_wc_def)
  have d: "rs_db (new_run sample_db []) = sample_db" by (simp add: new_run_def)
  have codec: "vc_serde sample_codec = mini_serde" by (simp add: sample_codec_def)
  have enc: "encode_value mini_serde (\<lambda>n. Inr (Number (IntNum n))) m Portable = Inr (show_int m)" for m
    by (simp add: encode_value_def encode_json_value_def mini_serde_def)
  have chk: "check_operation_execution ''wf'' 0 ''DBOS.sleep'' sample_db = Inr None"
    using sample_live(1) sample_no_ops by (simp add: check_operation_new live_status_def)
  have again: "check_operation_execution ''wf'' 0 ''DBOS.sleep'' (snd (record_nap sample_db)) =
      Inr (Some (recorded (operation_values 1000 ''wf'' 0 ''DBOS.sleep'' (Some (show_int 1050)) None None
        (Some PORTABLE_NAME))))"
    using nap_recorded(2,3) by (simp add: check_operation_found live_status_def)
  have "sleep_deadline sample_codec (sample_env 1000) ''wf'' 0 50 sample_db =
      (Inr 1050, snd (record_nap sample_db))"
    by (simp add: sleep_deadline_def chk codec enc sample_env_def cast_i64_id record_nap_def Let_def
        record_operation_new [OF sample_no_ops sample_live(2)])
  moreover have "sleep_deadline sample_codec late_env ''wf'' 0 50 sample_db =
      (Inr 1050, snd (record_nap sample_db))"
    using record_operation_taken [OF nap_recorded(2)] again nap_stored
    by (simp add: sleep_deadline_def chk codec enc late_env_def sample_env_def cast_i64_id Let_def
        stored_i64_def recorded_def is_error_def)
  ultimately show "sleep sample_codec (sample_env 1000) sample_wc 50 (new_run sample_db []) = (Inr 50, napped)"
    "sleep sample_codec late_env sample_wc 50 (new_run sample_db []) = (Inr 20, napped)"
    using w d next_step_id_at [OF at_step_new, of sample_db "[]"]
    by (simp_all add: sleep_def on_db_def record_sleep_def andthen_def ret_def napped_def late_env_def
        sample_env_def new_run_def)
qed

lemma nap_is_durable:
  assumes "env = sample_env 1000 \<or> env = late_env"
  shows "durable_step sample_codec sample_wc env (SleepOp 50) (new_run sample_db []) 0 (Inr OutUnit) napped"
proof -
  have "perform sample_codec sample_wc env (SleepOp 50) (new_run sample_db []) = Some (Inr OutUnit, napped)"
    using assms nap_runs by (auto simp: first_of_def)
  moreover have "grows ''wf'' db (snd (record_nap db))" for db
    using adds_only_record by (simp add: record_nap_def adds_only_def)
  then have "shared ''wf'' env (SleepOp 50 :: string op)"
    using assms by (auto simp: shared_def late_env_def sample_env_def)
  moreover have "storable sample_codec env (SleepOp 50) (Inr OutUnit)"
    using assms nap_times by (auto simp: storable_def sample_codec_def late_env_def sample_env_def cast_i64_id)
  moreover have "log_of ''wf'' (rs_db napped) 0 \<noteq> None"
    using nap_recorded(2) by (simp add: log_of_def napped_def)
  ultimately show ?thesis
    using sample_no_ops
    by (simp add: durable_step_def log_of_def sample_wc_def new_run_def answered_def)
qed


end
