(* ===== verification/Dbos_Cluster.thy ===== *)
theory Dbos_Cluster
  imports Dbos_Log Dbos_System
begin

text \<open>
  One workflow on many executors. A recovery pass, a resume or a dequeue can start a body that is
  still running elsewhere, so several incarnations of it may be alive at once, share the database
  and die at any time. As long as no call loses the race for its record they all read one growing
  log, and the workflow has one outcome whoever records it; a call that does lose it fails with a
  conflict, and that error can replace the outcome of the winner.
\<close>

subsection \<open>Outcomes\<close>

text \<open>What the erased handler makes of the body's result.\<close>

definition encode_result :: "'v value_codec \<Rightarrow> Format \<Rightarrow> DbosError + 'v \<Rightarrow> DbosError + string" where
  "encode_result vc fmt r =
     (case r of Inl e \<Rightarrow> Inl e | Inr v \<Rightarrow> encode_value (vc_serde vc) (vc_to vc) v fmt)"

type_synonym stored_outcome = "string \<times> string option \<times> string option"

definition outcome_of :: "string \<Rightarrow> sysdb \<Rightarrow> stored_outcome option" where
  "outcome_of w db =
     (case find_workflow db w of
        None \<Rightarrow> None
      | Some r \<Rightarrow>
          if ws_status r \<in> {as_str Success, as_str Error}
          then Some (ws_status r, ws_output r, ws_error r) else None)"

definition stored :: "error_serde \<Rightarrow> Format \<Rightarrow> DbosError + string \<Rightarrow> stored_outcome" where
  "stored es fmt res =
     (case res of
        Inr out \<Rightarrow> (as_str Success, Some out, None)
      | Inl e \<Rightarrow> (as_str Error, None, Some (serialize_workflow_error es (display e) None fmt)))"

lemma outcome_of_record:
  "outcome_of w (record_outcome es now w fmt res db) =
     (case find_workflow db w of
        None \<Rightarrow> None
      | Some r \<Rightarrow> if ws_status r = as_str Cancelled then None else Some (stored es fmt res))"
  by (cases "find_workflow db w"; cases res)
    (auto simp: outcome_of_def record_outcome_def find_workflow_outcome stored_def dest: find_workflow_SomeD)

lemma log_of_outcome [simp]: "log_of w (record_outcome es now v fmt res db) = log_of w db"
  by (cases res)
    (simp_all add: log_of_def record_outcome_def update_workflow_outcome_def find_operation_def fun_eq_iff)

subsection \<open>The cluster\<close>

text \<open>
  An incarnation: what is left of the body, its process state, and the step it is at. Its calls are
  those of \<open>durable_step\<close>: they read their record or leave it, with results that survive serialization.
  A call that loses the race for its record is not among them; of an incarnation that made one only
  the death is a step here, and what happens when it goes on is \<open>lost_race_replaces_outcome\<close> below.
\<close>

type_synonym 'v incarnation = "'v prog \<times> run_state \<times> nat"

inductive cluster_step ::
  "'v value_codec \<Rightarrow> WorkflowContext \<Rightarrow> 'v prog \<Rightarrow> Format \<Rightarrow> sysdb \<times> 'v incarnation list \<Rightarrow>
   sysdb \<times> 'v incarnation list \<Rightarrow> bool"
  for vc :: "'v value_codec" and wc :: WorkflowContext and p :: "'v prog" and fmt :: Format where
  spawn: "cluster_step vc wc p fmt (db, rs) (db, (p, new_run db ws, 0) # rs)"
| others: "grows (wc_workflow_id wc) db db' \<Longrightarrow>
    outcome_of (wc_workflow_id wc) db' = outcome_of (wc_workflow_id wc) db \<Longrightarrow>
    cluster_step vc wc p fmt (db, rs) (db', rs)"
| call: "durable_step vc wc env op (st\<lparr>rs_db := db\<rparr>) n res st1 \<Longrightarrow>
    outcome_of (wc_workflow_id wc) (rs_db st1) = outcome_of (wc_workflow_id wc) db \<Longrightarrow>
    cluster_step vc wc p fmt (db, xs @ (Call op k, st, n) # ys)
      (rs_db st1, xs @ (k res, st1, n + op_width op) # ys)"
| finish: "cluster_step vc wc p fmt (db, xs @ (Finish r, st, n) # ys)
    (record_outcome (vc_error vc) now (wc_workflow_id wc) fmt (encode_result vc fmt r) db, xs @ ys)"
| crash: "cluster_step vc wc p fmt (db, xs @ i # ys) (db, xs @ ys)"

definition on_log :: "'v value_codec \<Rightarrow> string \<Rightarrow> 'v prog \<Rightarrow> sysdb \<Rightarrow> 'v incarnation \<Rightarrow> bool" where
  "on_log vc w p db i \<longleftrightarrow>
     (case i of (q, st, n) \<Rightarrow> at_step st n \<and> reaches vc (log_of w db) p q n)"

definition outcome_on_log :: "'v value_codec \<Rightarrow> string \<Rightarrow> 'v prog \<Rightarrow> Format \<Rightarrow> sysdb \<Rightarrow> bool" where
  "outcome_on_log vc w p fmt db \<longleftrightarrow>
     (case outcome_of w db of
        None \<Rightarrow> True
      | Some out \<Rightarrow>
          map_option (\<lambda>r. stored (vc_error vc) fmt (encode_result vc fmt r)) (follow vc p (log_of w db) 0) =
            Some out)"

definition cluster_inv ::
  "'v value_codec \<Rightarrow> string \<Rightarrow> 'v prog \<Rightarrow> Format \<Rightarrow> sysdb \<times> 'v incarnation list \<Rightarrow> bool" where
  "cluster_inv vc w p fmt s \<longleftrightarrow>
     list_all (on_log vc w p (fst s)) (snd s) \<and> outcome_on_log vc w p fmt (fst s)"

lemma on_log_grows: "on_log vc w p db i \<Longrightarrow> grows w db db' \<Longrightarrow> on_log vc w p db' i"
  by (auto simp: on_log_def grows_def intro: reaches_mono)

lemma list_on_log_grows: "list_all (on_log vc w p db) rs \<Longrightarrow> grows w db db' \<Longrightarrow> list_all (on_log vc w p db') rs"
  by (auto simp: list_all_iff intro: on_log_grows)

lemma outcome_on_log_grows:
  assumes "outcome_on_log vc w p fmt db" and "grows w db db'" and "outcome_of w db' = outcome_of w db"
  shows "outcome_on_log vc w p fmt db'"
proof (cases "outcome_of w db")
  case (Some out)
  with assms(1) obtain r where "follow vc p (log_of w db) 0 = Some r"
    "stored (vc_error vc) fmt (encode_result vc fmt r) = out"
    by (auto simp: outcome_on_log_def)
  moreover from this follow_mono assms(2) have "follow vc p (log_of w db') 0 = Some r"
    by (auto simp: grows_def)
  ultimately show ?thesis using Some assms(3) by (simp add: outcome_on_log_def)
qed (simp add: outcome_on_log_def assms(3))

lemma cluster_step_grows:
  assumes "cluster_step vc wc p fmt s s'" and "\<not> wc_within_step wc"
    and "cluster_inv vc (wc_workflow_id wc) p fmt s"
  shows "grows (wc_workflow_id wc) (fst s) (fst s')"
  using assms
proof cases
  case (call env op db st n res st1 xs k ys)
  then have "at_step (st\<lparr>rs_db := db\<rparr>) n" using assms(3) by (simp add: cluster_inv_def on_log_def)
  from durable_step_grows [OF call(3) this assms(2)] call show ?thesis by simp
qed (simp_all add: grows_def)

lemma cluster_step_inv:
  assumes "cluster_step vc wc p fmt s s'" and "\<not> wc_within_step wc"
    and "cluster_inv vc (wc_workflow_id wc) p fmt s"
  shows "cluster_inv vc (wc_workflow_id wc) p fmt s'"
proof -
  let ?w = "wc_workflow_id wc"
  note grown = cluster_step_grows [OF assms]
  show ?thesis
    using assms(1)
  proof cases
    case (spawn db rs ws)
    with assms(3) show ?thesis by (simp add: cluster_inv_def on_log_def reaches.here)
  next
    case (others db db' rs)
    with assms(3) list_on_log_grows outcome_on_log_grows show ?thesis by (auto simp: cluster_inv_def)
  next
    case (call env op db st n res st1 xs k ys)
    have old: "list_all (on_log vc ?w p db) (xs @ (Call op k, st, n) # ys)" "outcome_on_log vc ?w p fmt db"
      using assms(3) call(1) by (simp_all add: cluster_inv_def)
    have g: "grows ?w db (rs_db st1)" using grown call(1,2) by simp
    have new: "list_all (on_log vc ?w p (rs_db st1)) (xs @ (Call op k, st, n) # ys)"
      by (rule list_on_log_grows [OF old(1) g])
    then have at: "at_step (st\<lparr>rs_db := db\<rparr>) n"
      and path: "reaches vc (log_of ?w (rs_db st1)) p (Call op k) n" by (simp_all add: on_log_def)
    obtain r where "log_of ?w (rs_db st1) (int n) = Some r" "recorded_answer vc op r = res"
      and at1: "at_step st1 (n + op_width op)"
      using durable_step_effect [OF call(3) at assms(2)] by blast
    with reaches.onward [OF path] have "on_log vc ?w p (rs_db st1) (k res, st1, n + op_width op)"
      by (auto simp: on_log_def)
    with new outcome_on_log_grows [OF old(2) g call(4)] call(2) show ?thesis by (simp add: cluster_inv_def)
  next
    case (finish db xs r st n ys now)
    let ?db = "record_outcome (vc_error vc) now ?w fmt (encode_result vc fmt r) db"
    have inv: "list_all (on_log vc ?w p db) (xs @ (Finish r, st, n) # ys)"
      using assms(3) finish(1) by (simp add: cluster_inv_def)
    then have "reaches vc (log_of ?w db) p (Finish r) n" by (simp add: on_log_def)
    from reaches_follow [OF this] have "follow vc p (log_of ?w ?db) 0 = Some r" by simp
    then have "outcome_on_log vc ?w p fmt ?db"
      by (simp add: outcome_on_log_def outcome_of_record split: option.splits)
    moreover have "list_all (on_log vc ?w p ?db) (xs @ ys)"
      using list_on_log_grows [OF inv, of ?db] grown finish by simp
    ultimately show ?thesis using finish(2) by (simp add: cluster_inv_def)
  next
    case (crash db xs i ys)
    with assms(3) show ?thesis by (simp add: cluster_inv_def)
  qed
qed

lemma cluster_run_inv:
  assumes "(cluster_step vc wc p fmt)\<^sup>*\<^sup>* s s'" and "\<not> wc_within_step wc"
    and "cluster_inv vc (wc_workflow_id wc) p fmt s"
  shows "cluster_inv vc (wc_workflow_id wc) p fmt s' \<and> grows (wc_workflow_id wc) (fst s) (fst s')"
  using assms
proof (induction rule: rtranclp_induct)
  case base
  then show ?case by simp
next
  case (step s1 s2)
  then have inv: "cluster_inv vc (wc_workflow_id wc) p fmt s1"
    and g: "grows (wc_workflow_id wc) (fst s) (fst s1)" by simp_all
  from cluster_step_inv [OF step.hyps(2) assms(2) inv]
    grows_trans [OF g cluster_step_grows [OF step.hyps(2) assms(2) inv]]
  show ?case by simp
qed

text \<open>A recorded outcome is only ever replaced by another incarnation's, or kept.\<close>

lemma cluster_step_outcome:
  assumes "cluster_step vc wc p fmt s s'" and "outcome_of (wc_workflow_id wc) (fst s) = Some out"
  shows "outcome_of (wc_workflow_id wc) (fst s') \<noteq> None"
  using assms
proof cases
  case (finish db xs r st n ys now)
  with assms(2) obtain row where "find_workflow db (wc_workflow_id wc) = Some row"
    and "ws_status row \<noteq> as_str Cancelled"
    by (auto simp: outcome_of_def split: option.splits if_splits)
  with finish(2) show ?thesis by (simp add: outcome_of_record)
qed simp_all

lemma cluster_run_outcome:
  assumes "(cluster_step vc wc p fmt)\<^sup>*\<^sup>* s s'" and "outcome_of (wc_workflow_id wc) (fst s) \<noteq> None"
  shows "outcome_of (wc_workflow_id wc) (fst s') \<noteq> None"
  using assms by (induction rule: rtranclp_induct) (auto dest: cluster_step_outcome)

subsection \<open>The operations of the runtime as changes by others\<close>

lemma grows_append: "operation_outputs db' = operation_outputs db @ xs \<Longrightarrow> grows w db db'"
  by (auto simp: grows_def log_of_def map_le_def find_operation_def find_key_append)

lemma adds_only_outputs: "(\<And>db. operation_outputs (snd (m db)) = operation_outputs db) \<Longrightarrow> adds_only w m"
  by (simp add: adds_only_def grows_append [where xs = "[]"])

lemma insert_workflow_adds: "adds_only w (insert_workflow_status i m)"
  by (rule adds_only_outputs)
    (auto simp: insert_workflow_status_def upsert_workflow_def finish_insert_def dlq_update_def Let_def
      split: option.splits if_splits)

lemma record_child_adds: "adds_only w (record_child_workflow nc v f n c)"
  unfolding record_child_workflow_def by (rule adds_only_record)

lemma adds_only_ret: "adds_only w (ret x)"
  by (simp add: adds_only_def ret_def)

lemma start_tx_adds: "adds_only w (start_tx i m nc parent)"
  unfolding start_tx_def
  by (intro adds_only_transaction adds_only_andthen insert_workflow_adds)
    (auto intro!: adds_only_andthen record_child_adds adds_only_ret split: option.splits)

lemma start_workflow_adds: "adds_only w (start_workflow sd inner se name inp opts parent fmt rcv)"
  unfolding adds_only_def
proof
  fix db
  show "grows w db (snd (start_workflow sd inner se name inp opts parent fmt rcv db))"
    using start_tx_adds [unfolded adds_only_def]
    by (cases "di_registry inner name") (simp_all add: start_workflow_state)
qed

lemma enqueue_workflow_adds: "adds_only w (enqueue_workflow inner se q name inp opts)"
  unfolding adds_only_def
proof
  fix db
  show "grows w db (snd (enqueue_workflow inner se q name inp opts db))"
    using adds_only_transaction [OF insert_workflow_adds, unfolded adds_only_def]
    by (cases "di_registry inner name") (simp_all add: enqueue_workflow_state)
qed

lemma claim_loop_outputs: "operation_outputs (snd (claim_loop i now recent claimed ids db)) = operation_outputs db"
  by (induction i now recent claimed ids db rule: claim_loop.induct)
    (auto simp: claim_update_def split: option.splits)

lemma dequeue_outputs: "operation_outputs (snd (dequeue_workflows i now1 now2 locked db)) = operation_outputs db"
  using claim_loop_outputs [of i now2 "num_recent i now1 db" "[]" _ db]
  by (auto simp: dequeue_workflows_def Let_def split: sum.splits prod.splits) (metis snd_conv)

lemma fork_adds: "grows w db (snd (fork_workflow u now i db))"
proof (cases "fst (fork_workflow u now i db)")
  case (Inl e)
  then have "snd (fork_workflow u now i db) = db"
    by (auto simp: fork_workflow_def Let_def split: option.splits if_splits)
  then show ?thesis by simp
next
  case (Inr nid)
  then have "fork_workflow u now i db = (Inr nid, snd (fork_workflow u now i db))" by (metis prod.collapse)
  then show ?thesis
  proof (rule fork_InrE)
    fix o_row
    let ?copied = "if fk_start_step i > 0
      then copied_operations nid (fk_original_workflow_id i) (fk_start_step i) db else []"
    assume "snd (fork_workflow u now i db) = (if fk_start_step i > 0
      then (fork_base now nid i o_row db)
        \<lparr>operation_outputs := operation_outputs db @
             copied_operations nid (fk_original_workflow_id i) (fk_start_step i) db,
         workflow_events_history := workflow_events_history db @
             copied_history nid (fk_original_workflow_id i) (fk_start_step i) db,
         workflow_events := workflow_events db @
             copied_events nid (fk_original_workflow_id i) (fk_start_step i) db,
         streams := streams db @
             copied_streams nid (fk_original_workflow_id i) (fk_start_step i) db\<rparr>
      else fork_base now nid i o_row db)"
    then have "operation_outputs (snd (fork_workflow u now i db)) = operation_outputs db @ ?copied"
      by (simp add: fork_base_def)
    then show ?thesis by (rule grows_append)
  qed
qed

lemma outputs_frames [simp]:
  "operation_outputs (snd (insert_notification u now d t m ser db)) = operation_outputs db"
  "operation_outputs (snd (consume_oldest_notification d t db)) = operation_outputs db"
  "operation_outputs (record_outcome es now v fmt res db) = operation_outputs db"
  "operation_outputs (snd (cancel_workflows now ids db)) = operation_outputs db"
  "operation_outputs (snd (cancel_all_before di dv now cutoff db)) = operation_outputs db"
  by (auto simp: insert_notification_def insert_notification_row_def consume_oldest_notification_def
      record_outcome_def update_workflow_outcome_def cancel_workflows_def cancel_all_before_def Let_def
      split: list.splits sum.splits)

lemma exec_call_grows: "\<not> deletes c \<Longrightarrow> grows w db (exec_call c db)"
proof (cases c)
  case (RecordCall now v f n out err ch ser)
  then show ?thesis using adds_only_record [of w, unfolded adds_only_def] by simp
qed (simp_all add: start_workflow_adds [unfolded adds_only_def, rule_format] fork_adds
  enqueue_workflow_adds [unfolded adds_only_def, rule_format] grows_append [where xs = "[]"]
  dequeue_outputs transition_delayed_workflows_def clear_queue_assignment_def resume_workflows_def)

lemma exec_call_outcome:
  assumes "system_ok db" and "find_workflow db w \<noteq> None" and "spares w c"
  shows "outcome_of w (exec_call c db) = outcome_of w db"
proof -
  have wf: "db_wf db" and nd: "\<not> deletes c" using assms by (simp_all add: system_ok_def spares_def)
  obtain r where r: "find_workflow db w = Some r" using assms(2) by auto
  obtain r' where r': "find_workflow (exec_call c db) w = Some r'" "row_move (mover_of c) r r'"
    using exec_call_moves [OF wf nd] r unfolding rows_move_def by blast
  show ?thesis
  proof (cases "mover_of c = Runner")
    case True
    then obtain es now v fmt result where c: "c = OutcomeCall es now v fmt result" by (cases c) auto
    then have "v \<noteq> w" using assms(3) by (auto simp: spares_def)
    then have "find_workflow (exec_call c db) w = find_workflow db w"
      using r find_workflow_SomeD [OF r] by (cases result) (auto simp: c record_outcome_def find_workflow_outcome)
    then show ?thesis by (simp add: outcome_of_def)
  next
    case False
    obtain s where s: "ws_status r = as_str s"
      using assms(1) r by (auto simp: system_ok_def row_ok_def from_str_iff)
    with r'(2) obtain t where t: "ws_status r' = as_str t" "t = s \<or> status_move (mover_of c) s t"
      by (auto simp: row_move_def)
    have "status_move m s t \<Longrightarrow> m \<noteq> Runner \<Longrightarrow> s \<notin> {Success, Error} \<and> t \<notin> {Success, Error}" for m
      by (cases m) auto
    with t(2) False have "t = s \<or> s \<notin> {Success, Error} \<and> t \<notin> {Success, Error}" by blast
    moreover have "ws_output r' = ws_output r" "ws_error r' = ws_error r"
      using r'(2) False by (simp_all add: row_move_def)
    ultimately show ?thesis using r r'(1) s t(1) by (auto simp: outcome_of_def)
  qed
qed

lemma exec_call_is_other:
  assumes "system_ok db" and "find_workflow db (wc_workflow_id wc) \<noteq> None" and "spares (wc_workflow_id wc) c"
  shows "cluster_step vc wc p fmt (db, rs) (exec_call c db, rs)"
proof (rule cluster_step.others)
  show "grows (wc_workflow_id wc) db (exec_call c db)" using assms(3) by (simp add: exec_call_grows spares_def)
  show "outcome_of (wc_workflow_id wc) (exec_call c db) = outcome_of (wc_workflow_id wc) db"
    by (rule exec_call_outcome [OF assms])
qed

subsection \<open>Properties\<close>


text \<open>Two incarnations: the first finishes, then the second.\<close>

definition paid_db :: sysdb where
  "paid_db = record_outcome mini_error_serde 8 ''wf'' Portable
     (encode_result sample_codec Portable (Inr ''paid 42'')) (rs_db charged)"

lemma paid_facts:
  "outcome_of ''wf'' sample_db = None"
  "outcome_of ''wf'' paid_db =
     Some (stored mini_error_serde Portable (encode_result sample_codec Portable (Inr ''paid 42'')))"
  "log_of ''wf'' paid_db = log_of ''wf'' (rs_db charged)" "live_status paid_db ''wf''"
proof -
  obtain payload where enc: "encode_result sample_codec Portable (Inr ''paid 42'') = Inr payload"
    by (simp add: encode_result_def encode_value_def sample_codec_def)
  have row: "find_workflow (rs_db charged) ''wf'' = Some (fresh_row sample_input)"
    using sample_find by (simp add: charged_def find_workflow_def)
  have pending: "ws_status (fresh_row sample_input) = as_str Pending" by simp
  show "outcome_of ''wf'' sample_db = None" using pending by (simp add: outcome_of_def sample_find)
  show "outcome_of ''wf'' paid_db =
      Some (stored mini_error_serde Portable (encode_result sample_codec Portable (Inr ''paid 42'')))"
    using row pending by (simp add: paid_db_def outcome_of_record)
  show "log_of ''wf'' paid_db = log_of ''wf'' (rs_db charged)" by (simp add: paid_db_def)
  show "live_status paid_db ''wf''"
    using row find_workflow_SomeD [OF row]
    by (auto simp: live_status_def get_status_def paid_db_def enc record_outcome_def find_workflow_outcome
        as_str.simps)
qed


text \<open>
  A lost race replaces the outcome. When a second incarnation is still in the body of a step while
  the first records that step and completes the workflow, the second's checkpoint fails with
  \<open>ConflictingId\<close>; the body returns it, and recording that error turns the SUCCESS into an ERROR and
  drops the output.
\<close>

theorem lost_race_replaces_outcome:
  assumes "at_step st n" and "n < 2 ^ 31" and "\<not> wc_within_step wc"
    and "live_status (rs_db st) (wc_workflow_id wc)"
    and "find_operation (rs_db st) (wc_workflow_id wc) (int n) = None"
    and "body (rs_db st) = (Inr v, db1)" and "\<not> isl (vc_to vc v)"
    and "find_operation db1 (wc_workflow_id wc) (int n) = Some r"
    and "find_workflow db1 (wc_workflow_id wc) = Some row" and "ws_status row = ''SUCCESS''"
  shows "\<exists>st1 row'. run_step vc now wc name body st = (Inl (conflicting_id (wc_workflow_id wc)), st1) \<and>
    rs_db st1 = db1 \<and>
    find_workflow (record_outcome es later (wc_workflow_id wc) fmt
      (encode_result vc fmt (Inl (conflicting_id (wc_workflow_id wc)))) db1) (wc_workflow_id wc) = Some row' \<and>
    ws_status row' = ''ERROR'' \<and> ws_output row' = None"
proof -
  let ?w = "wc_workflow_id wc"
  have chk: "check_operation_execution ?w (int n) name (rs_db st) = Inr None"
    using assms(4,5) by (auto simp: check_operation_new live_status_def)
  obtain j where "vc_to vc v = Inr j" using assms(7) by (cases "vc_to vc v") auto
  then have "run_step vc now wc name body st = (Inl (conflicting_id ?w), (advance 1 st)\<lparr>rs_db := db1\<rparr>)"
    using assms(3,6) chk next_step_id_at [OF assms(1,2)] record_operation_taken [OF assms(8)]
    by (simp add: run_step_def replay_step_def record_step_def encode_value_def)
  moreover have "ws_workflow_uuid row = ?w" using find_workflow_SomeD [OF assms(9)] by simp
  ultimately show ?thesis
    using assms(9,10)
    by (simp add: encode_result_def record_outcome_def find_workflow_outcome as_str.simps)
qed

theorem lost_race_replaces_outcome_witness:
  "\<exists>st1. run_step sample_codec 9 sample_wc ''charge'' (\<lambda>db. (Inr ''42'', paid_db)) (new_run sample_db []) =
     (Inl (conflicting_id ''wf''), st1) \<and> rs_db st1 = paid_db"
proof -
  have d: "rs_db (new_run sample_db []) = sample_db" by (simp add: new_run_def)
  have w: "\<not> wc_within_step sample_wc" "wc_workflow_id sample_wc = ''wf''" by (simp_all add: sample_wc_def)
  have a: "live_status (rs_db (new_run sample_db [])) (wc_workflow_id sample_wc)"
    "find_operation (rs_db (new_run sample_db [])) (wc_workflow_id sample_wc) (int 0) = None"
    using sample_live(1) sample_no_ops d w by simp_all
  obtain r where r: "find_operation paid_db (wc_workflow_id sample_wc) (int 0) = Some r"
    using fun_cong [OF paid_facts(3), of 0] by (simp add: log_of_def w(2) charged_def find_operation_def)
  obtain row where row: "find_workflow paid_db (wc_workflow_id sample_wc) = Some row" "ws_status row = ''SUCCESS''"
    using paid_facts(2)
    by (auto simp: outcome_of_def stored_def encode_result_def encode_value_def sample_codec_def as_str.simps w(2)
        split: option.splits if_splits)
  have nl: "\<not> isl (vc_to sample_codec ''42'')" by (simp add: sample_codec_def)
  have body: "(\<lambda>db. (Inr ''42'', paid_db)) (rs_db (new_run sample_db [])) = (Inr ''42'', paid_db)" by simp
  from lost_race_replaces_outcome [OF at_step_new zero_less_power w(1) a body nl r row, unfolded w(2), of 9 "''charge''"] show ?thesis
    by simp blast
qed

end
