(* ===== verification/Dbos_QueueRunner.thy ===== *)
theory Dbos_QueueRunner
  imports Dbos_Workflow Dbos_QueueDb
begin

text \<open>
  The queue runner of \<open>crates/dbos/src/runtime/queue.rs\<close>: the queue configuration, the in-memory
  running counts, one iteration of the poll loop and the dispatched tasks, composed into a step
  relation of one executor whose tasks finish, or die, at any time between iterations.

  Conventions. The state has the database, the running counts and the live tasks, each with the
  count it is charged to. The random jitter only delays an iteration and is not in the model;
  polling intervals are any linearly ordered durations with the two scalings of the code. A task
  that panics, or whose handler never returns, is a task that does not finish.
\<close>

subsection \<open>Configuration\<close>

record RateLimiter =
  rl_limit :: nat
  rl_period :: nat

record 'd WorkflowQueue =
  wq_name :: string
  wq_worker_concurrency :: "nat option"
  wq_global_concurrency :: "nat option"
  wq_priority_enabled :: bool
  wq_rate_limit :: "RateLimiter option"
  wq_max_tasks_per_iteration :: nat
  wq_partition_queue :: bool
  wq_base_polling :: 'd
  wq_max_polling :: 'd

definition DEFAULT_MAX_TASKS_PER_ITERATION :: nat where
  "DEFAULT_MAX_TASKS_PER_ITERATION = 100"

text \<open>\<open>one_second\<close> and \<open>two_minutes\<close> are the default polling bounds of the duration type.\<close>

definition new_queue :: "'d \<Rightarrow> 'd \<Rightarrow> string \<Rightarrow> 'd WorkflowQueue" where
  "new_queue one_second two_minutes name =
     \<lparr>wq_name = name, wq_worker_concurrency = None, wq_global_concurrency = None,
      wq_priority_enabled = False, wq_rate_limit = None,
      wq_max_tasks_per_iteration = DEFAULT_MAX_TASKS_PER_ITERATION, wq_partition_queue = False,
      wq_base_polling = one_second, wq_max_polling = two_minutes\<rparr>"

text \<open>The builder methods.\<close>

definition worker_concurrency :: "nat \<Rightarrow> 'd WorkflowQueue \<Rightarrow> 'd WorkflowQueue" where
  "worker_concurrency n q = q\<lparr>wq_worker_concurrency := Some n\<rparr>"

definition global_concurrency :: "nat \<Rightarrow> 'd WorkflowQueue \<Rightarrow> 'd WorkflowQueue" where
  "global_concurrency n q = q\<lparr>wq_global_concurrency := Some n\<rparr>"

definition rate_limit :: "nat \<Rightarrow> nat \<Rightarrow> 'd WorkflowQueue \<Rightarrow> 'd WorkflowQueue" where
  "rate_limit limit period q = q\<lparr>wq_rate_limit := Some \<lparr>rl_limit = limit, rl_period = period\<rparr>\<rparr>"

definition max_tasks_per_iteration :: "nat \<Rightarrow> 'd WorkflowQueue \<Rightarrow> 'd WorkflowQueue" where
  "max_tasks_per_iteration n q = q\<lparr>wq_max_tasks_per_iteration := n\<rparr>"

definition base_polling_interval :: "'d \<Rightarrow> 'd WorkflowQueue \<Rightarrow> 'd WorkflowQueue" where
  "base_polling_interval d q = q\<lparr>wq_base_polling := d\<rparr>"

definition max_polling_interval :: "'d \<Rightarrow> 'd WorkflowQueue \<Rightarrow> 'd WorkflowQueue" where
  "max_polling_interval d q = q\<lparr>wq_max_polling := d\<rparr>"

definition priority_enabled :: "'d WorkflowQueue \<Rightarrow> 'd WorkflowQueue" where
  "priority_enabled q = q\<lparr>wq_priority_enabled := True\<rparr>"

definition partitioned :: "'d WorkflowQueue \<Rightarrow> 'd WorkflowQueue" where
  "partitioned q = q\<lparr>wq_partition_queue := True\<rparr>"

subsection \<open>Running counts\<close>

type_synonym count_key = "string \<times> string"

type_synonym worker_counts = "count_key \<Rightarrow> nat option"

definition count_key :: "string \<Rightarrow> string option \<Rightarrow> count_key" where
  "count_key q part = (q, unwrap_or part [])"

definition worker_count :: "worker_counts \<Rightarrow> string \<Rightarrow> string option \<Rightarrow> nat" where
  "worker_count counts q part = unwrap_or (counts (count_key q part)) 0"

definition inc_worker :: "count_key \<Rightarrow> worker_counts \<Rightarrow> worker_counts" where
  "inc_worker key counts = counts(key \<mapsto> unwrap_or (counts key) 0 + 1)"

text \<open>\<open>fetch_sub\<close> on an \<open>AtomicUsize\<close> wraps below zero.\<close>

definition dec_worker :: "count_key \<Rightarrow> worker_counts \<Rightarrow> worker_counts" where
  "dec_worker key counts =
     (case counts key of
        None \<Rightarrow> counts
      | Some n \<Rightarrow> counts(key \<mapsto> (if n = 0 then 2 ^ 64 - 1 else n - 1)))"

subsection \<open>Dispatching\<close>

record runner_state =
  qr_db :: sysdb
  qr_counts :: worker_counts
  qr_tasks :: "(count_key \<times> task) list"

definition dispatch_dequeued ::
  "DbosInner \<Rightarrow> string \<Rightarrow> string option \<Rightarrow> DequeuedWorkflow \<Rightarrow> runner_state \<Rightarrow> runner_state" where
  "dispatch_dequeued inner queue_name part dw st =
     (case di_registry inner (dw_name dw) of
        None \<Rightarrow> st
      | Some entry \<Rightarrow>
          let key = count_key queue_name part
          in st\<lparr>qr_counts := inc_worker key (qr_counts st),
                qr_tasks := qr_tasks st @
                  [(key, \<lparr>tk_handler = re_handler entry,
                          tk_context = \<lparr>wc_workflow_id = dw_id dw, wc_auth = anonymous,
                                        wc_within_step = False\<rparr>,
                          tk_input = dw_inputs dw,
                          tk_format = from_name (dw_serialization dw)\<rparr>)]\<rparr>)"

text \<open>The end of a task: record the outcome and free the slot.\<close>

definition finish_dequeued ::
  "error_serde \<Rightarrow> int \<Rightarrow> nat \<Rightarrow> DbosError + string \<Rightarrow> runner_state \<Rightarrow> runner_state" where
  "finish_dequeued es now n result st =
     (case qr_tasks st ! n of (key, t) \<Rightarrow>
        st\<lparr>qr_db := record_outcome es now (wc_workflow_id (tk_context t)) (tk_format t) result (qr_db st),
           qr_counts := dec_worker key (qr_counts st),
           qr_tasks := take n (qr_tasks st) @ drop (Suc n) (qr_tasks st)\<rparr>)"

text \<open>A panic unwinds the task: nothing after the handler call runs.\<close>

definition task_dies :: "nat \<Rightarrow> runner_state \<Rightarrow> runner_state" where
  "task_dies n st = st\<lparr>qr_tasks := take n (qr_tasks st) @ drop (Suc n) (qr_tasks st)\<rparr>"

subsection \<open>The poll loop\<close>

record iteration_env =
  ie_others :: "sysdb \<Rightarrow> sysdb"
  ie_now :: int
  ie_clock1 :: "string option \<Rightarrow> int"
  ie_clock2 :: "string option \<Rightarrow> int"
  ie_locked :: "string option \<Rightarrow> string \<Rightarrow> bool"

definition dequeue_input ::
  "DbosInner \<Rightarrow> 'd WorkflowQueue \<Rightarrow> worker_counts \<Rightarrow> string option \<Rightarrow> DequeueInput" where
  "dequeue_input inner q counts part =
     \<lparr>dq_queue_name = wq_name q, dq_executor_id = di_executor_id inner,
      dq_application_version = di_application_version inner, dq_partition_key = part,
      dq_local_running_count = worker_count counts (wq_name q) part,
      dq_worker_concurrency = wq_worker_concurrency q,
      dq_global_concurrency = wq_global_concurrency q,
      dq_max_tasks_per_iteration = wq_max_tasks_per_iteration q,
      dq_rate_limit = map_option (\<lambda>r. (rl_limit r, rl_period r)) (wq_rate_limit q)\<rparr>"

definition poll_partition ::
  "DbosInner \<Rightarrow> 'd WorkflowQueue \<Rightarrow> iteration_env \<Rightarrow> string option \<Rightarrow> runner_state \<times> bool \<Rightarrow>
   runner_state \<times> bool" where
  "poll_partition inner q env part s =
     (case s of (st, had_backoff) \<Rightarrow>
        (case dequeue_workflows (dequeue_input inner q (qr_counts st) part)
                (ie_clock1 env part) (ie_clock2 env part) (ie_locked env part) (qr_db st) of
           (Inr workflows, db') \<Rightarrow>
             (fold (dispatch_dequeued inner (wq_name q) part) workflows (st\<lparr>qr_db := db'\<rparr>),
              had_backoff)
         | (Inl e, db') \<Rightarrow> (st\<lparr>qr_db := db'\<rparr>, had_backoff \<or> is_db_contention e)))"

definition queue_partitions :: "'d WorkflowQueue \<Rightarrow> sysdb \<Rightarrow> string option list" where
  "queue_partitions q db =
     (if wq_partition_queue q then map Some (get_queue_partitions (wq_name q) db) else [None])"

definition queue_iteration ::
  "DbosInner \<Rightarrow> 'd WorkflowQueue \<Rightarrow> iteration_env \<Rightarrow> runner_state \<Rightarrow> runner_state \<times> bool" where
  "queue_iteration inner q env st =
     (let db1 = transition_delayed_workflows (ie_now env) (ie_others env (qr_db st))
      in fold (poll_partition inner q env) (queue_partitions q db1) (st\<lparr>qr_db := db1\<rparr>, False))"

record 'd interval_arith =
  ia_double :: "'d \<Rightarrow> 'd"
  ia_shrink :: "'d \<Rightarrow> 'd"

definition next_interval ::
  "('d::linorder) interval_arith \<Rightarrow> 'd WorkflowQueue \<Rightarrow> bool \<Rightarrow> 'd \<Rightarrow> 'd" where
  "next_interval ia q had_backoff interval =
     (if had_backoff then min (ia_double ia interval) (wq_max_polling q)
      else max (ia_shrink ia interval) (wq_base_polling q))"

text \<open>The loop until it is cancelled: one environment per iteration.\<close>

fun run_queue ::
  "('d::linorder) interval_arith \<Rightarrow> DbosInner \<Rightarrow> 'd WorkflowQueue \<Rightarrow> iteration_env list \<Rightarrow> 'd \<Rightarrow>
   runner_state \<Rightarrow> 'd \<times> runner_state" where
  "run_queue ia inner q [] interval st = (interval, st)"
| "run_queue ia inner q (env # envs) interval st =
     (case queue_iteration inner q env st of
        (st', had_backoff) \<Rightarrow>
          run_queue ia inner q envs (next_interval ia q had_backoff interval) st')"

text \<open>
  One executor with its queues: iterations of the runners, tasks that finish or die, and changes
  of the database by others, in any order.
\<close>

inductive runner_step ::
  "error_serde \<Rightarrow> DbosInner \<Rightarrow> 'd WorkflowQueue list \<Rightarrow> runner_state \<Rightarrow> runner_state \<Rightarrow> bool"
  for es inner queues where
  iterate: "q \<in> set queues \<Longrightarrow> queue_iteration inner q env st = (st', b) \<Longrightarrow>
    runner_step es inner queues st st'"
| finish: "n < length (qr_tasks st) \<Longrightarrow>
    runner_step es inner queues st (finish_dequeued es now n result st)"
| dies: "n < length (qr_tasks st) \<Longrightarrow> runner_step es inner queues st (task_dies n st)"
| others: "runner_step es inner queues st (st\<lparr>qr_db := db'\<rparr>)"

inductive runner_reachable ::
  "error_serde \<Rightarrow> DbosInner \<Rightarrow> 'd WorkflowQueue list \<Rightarrow> runner_state \<Rightarrow> bool"
  for es inner queues where
  launch: "runner_reachable es inner queues \<lparr>qr_db = db, qr_counts = Map.empty, qr_tasks = []\<rparr>"
| step: "runner_reachable es inner queues st \<Longrightarrow> runner_step es inner queues st st' \<Longrightarrow>
    runner_reachable es inner queues st'"

inductive_cases runner_stepE: "runner_step es inner queues st st'"

subsection \<open>Facts\<close>

definition slots :: "runner_state \<Rightarrow> count_key \<Rightarrow> nat" where
  "slots st key = unwrap_or (qr_counts st key) 0"

definition charged :: "runner_state \<Rightarrow> count_key \<Rightarrow> nat" where
  "charged st key = length (filter (\<lambda>p. fst p = key) (qr_tasks st))"

lemma slots_db [simp]: "slots (st\<lparr>qr_db := db\<rparr>) key = slots st key"
  by (simp add: slots_def)

lemma charged_db [simp]: "charged (st\<lparr>qr_db := db\<rparr>) key = charged st key"
  by (simp add: charged_def)

lemma worker_count_slots: "worker_count (qr_counts st) q part = slots st (count_key q part)"
  by (simp add: worker_count_def slots_def)

lemma claim_loop_length:
  "length (fst (claim_loop i now recent claimed ids db)) \<le> length claimed + length ids"
  by (induction i now recent claimed ids db rule: claim_loop.induct)
    (auto split: option.splits)

lemma select_candidates_length:
  "select_candidates i locked n db = Inr ids \<Longrightarrow> length ids \<le> nat n"
  by (auto simp: select_candidates_def Let_def sql_limit_def split: if_splits)

text \<open>No dequeue returns more than its bound.\<close>

lemma dequeue_length:
  assumes "dequeue_workflows i now1 now2 locked db = (Inr claimed, db')"
  shows "int (length claimed) \<le> max 0 (max_tasks i db)"
proof (cases "rate_exhausted i (num_recent i now1 db) \<or> max_tasks i db \<le> 0")
  case True
  with assms show ?thesis by (auto simp: dequeue_workflows_def Let_def split: if_splits)
next
  case False
  with assms obtain ids where ids: "select_candidates i locked (max_tasks i db) db = Inr ids"
    and "claimed = [] \<or> claimed = fst (claim_loop i now2 (num_recent i now1 db) [] ids db)"
    by (auto simp: dequeue_workflows_def Let_def split: sum.splits prod.splits if_splits)
  then have "length claimed \<le> length ids"
    using claim_loop_length [of i now2 "num_recent i now1 db" "[]" ids db] by auto
  with select_candidates_length [OF ids] False show ?thesis by linarith
qed

lemma dequeue_worker_bound:
  assumes "dequeue_workflows (dequeue_input inner q counts part) now1 now2 locked db = (Inr claimed, db')"
    and "wq_worker_concurrency q = Some wc" and "worker_count counts (wq_name q) part \<le> wc"
  shows "worker_count counts (wq_name q) part + length claimed \<le> wc"
proof -
  let ?i = "dequeue_input inner q counts part"
  have "max_tasks ?i db \<le> int wc - int (worker_count counts (wq_name q) part)"
    using assms(2,3) by (auto simp: max_tasks_def dequeue_input_def Let_def split: option.splits)
  with dequeue_length [OF assms(1)] assms(3) show ?thesis by linarith
qed

text \<open>Dispatching charges every task it spawns to the count of its queue and partition.\<close>

lemma dispatch_slots:
  "slots (dispatch_dequeued inner q part dw st) key =
     slots st key + (if key = count_key q part \<and> di_registry inner (dw_name dw) \<noteq> None then 1 else 0)"
  by (simp add: dispatch_dequeued_def slots_def inc_worker_def Let_def split: option.splits)

lemma dispatch_charged:
  "charged (dispatch_dequeued inner q part dw st) key =
     charged st key + (if key = count_key q part \<and> di_registry inner (dw_name dw) \<noteq> None then 1 else 0)"
  by (simp add: dispatch_dequeued_def charged_def Let_def split: option.splits)

lemma dispatch_fold:
  fixes inner :: DbosInner and q :: string and part :: "string option"
  defines "D \<equiv> fold (dispatch_dequeued inner q part)"
  shows "slots (D ws st) key + charged st key = charged (D ws st) key + slots st key"
    and "key \<noteq> count_key q part \<Longrightarrow> slots (D ws st) key = slots st key"
    and "slots (D ws st) key \<le> slots st key + length ws"
    and "slots st key \<le> slots (D ws st) key"
proof -
  have "slots (D ws st) key + charged st key = charged (D ws st) key + slots st key \<and>
    (key \<noteq> count_key q part \<longrightarrow> slots (D ws st) key = slots st key) \<and>
    slots (D ws st) key \<le> slots st key + length ws \<and> slots st key \<le> slots (D ws st) key"
    unfolding D_def
  proof (induction ws arbitrary: st)
    case (Cons w ws)
    from Cons [of "dispatch_dequeued inner q part w st"] show ?case
      by (auto simp: dispatch_slots dispatch_charged split: if_splits)
  qed simp
  then show "slots (D ws st) key + charged st key = charged (D ws st) key + slots st key"
    and "key \<noteq> count_key q part \<Longrightarrow> slots (D ws st) key = slots st key"
    and "slots (D ws st) key \<le> slots st key + length ws"
    and "slots st key \<le> slots (D ws st) key" by auto
qed

subsection \<open>The slot invariant\<close>

definition within_limit :: "'d WorkflowQueue list \<Rightarrow> runner_state \<Rightarrow> bool" where
  "within_limit queues st \<longleftrightarrow>
     (\<forall>q \<in> set queues. \<forall>wc p. wq_worker_concurrency q = Some wc \<longrightarrow> slots st (wq_name q, p) \<le> wc)"

definition slots_inv :: "'d WorkflowQueue list \<Rightarrow> runner_state \<Rightarrow> bool" where
  "slots_inv queues st \<longleftrightarrow> within_limit queues st \<and> (\<forall>key. charged st key \<le> slots st key)"

lemma poll_partition_inv:
  assumes "slots_inv queues st" and "q \<in> set queues" and "distinct (map wq_name queues)"
  shows "slots_inv queues (fst (poll_partition inner q env part (st, b)))"
proof -
  let ?i = "dequeue_input inner q (qr_counts st) part"
  obtain r db' where dq: "dequeue_workflows ?i (ie_clock1 env part) (ie_clock2 env part)
      (ie_locked env part) (qr_db st) = (r, db')" by force
  show ?thesis
  proof (cases r)
    case (Inl e)
    with dq assms(1) show ?thesis by (simp add: poll_partition_def slots_inv_def within_limit_def)
  next
    case (Inr ws)
    let ?st = "fold (dispatch_dequeued inner (wq_name q) part) ws (st\<lparr>qr_db := db'\<rparr>)"
    note f = dispatch_fold [where inner = inner and q = "wq_name q" and part = part and ws = ws
        and st = "st\<lparr>qr_db := db'\<rparr>"]
    have "slots ?st (wq_name q', p) \<le> wc"
      if q': "q' \<in> set queues" and wc: "wq_worker_concurrency q' = Some wc" for q' p wc
    proof (cases "(wq_name q', p) = count_key (wq_name q) part")
      case False
      with f(2) assms(1) q' wc show ?thesis by (simp add: slots_inv_def within_limit_def)
    next
      case True
      then have "q' = q" using assms(2,3) q' by (auto simp: count_key_def distinct_map dest: inj_onD)
      have "worker_count (qr_counts st) (wq_name q) part \<le> wc"
        using assms(1,2) wc \<open>q' = q\<close> by (simp add: worker_count_slots slots_inv_def within_limit_def count_key_def)
      from dequeue_worker_bound [OF dq [unfolded Inr] _ this] wc \<open>q' = q\<close> f(3) [of "count_key (wq_name q) part"] True
      show ?thesis by (simp add: worker_count_slots)
    qed
    moreover have "charged ?st key \<le> slots ?st key" for key
    proof -
      have "charged st key \<le> slots st key" using assms(1) unfolding slots_inv_def by blast
      with f(1) [of key] show ?thesis by simp
    qed
    ultimately show ?thesis using dq Inr by (simp add: poll_partition_def slots_inv_def within_limit_def)
  qed
qed

lemma iteration_inv:
  assumes "slots_inv queues st" and "q \<in> set queues" and "distinct (map wq_name queues)"
    and "queue_iteration inner q env st = (st', b)"
  shows "slots_inv queues st'"
proof -
  have "slots_inv queues (fst (fold (poll_partition inner q env) parts s))" if "slots_inv queues (fst s)" for parts s
    using that
  proof (induction parts arbitrary: s)
    case (Cons p parts)
    from poll_partition_inv [OF Cons.prems assms(2,3), of inner env p "snd s"] Cons.IH show ?case by simp
  qed simp
  from this [of "(st\<lparr>qr_db := transition_delayed_workflows (ie_now env) (ie_others env (qr_db st))\<rparr>, False)"]
    assms(1,4) show ?thesis
    by (simp add: queue_iteration_def Let_def slots_inv_def within_limit_def) (metis fst_conv)
qed

lemma charged_remove:
  assumes "n < length (qr_tasks st)"
  shows "length (filter (\<lambda>p. fst p = key) (take n (qr_tasks st) @ drop (Suc n) (qr_tasks st))) =
    charged st key - (if fst (qr_tasks st ! n) = key then 1 else 0)"
    and "fst (qr_tasks st ! n) = key \<Longrightarrow> charged st key > 0"
proof -
  have "filter P (qr_tasks st) = filter P (take n (qr_tasks st)) @
      (if P (qr_tasks st ! n) then [qr_tasks st ! n] else []) @ filter P (drop (Suc n) (qr_tasks st))" for P
    by (subst id_take_nth_drop [OF assms]) simp
  then show "length (filter (\<lambda>p. fst p = key) (take n (qr_tasks st) @ drop (Suc n) (qr_tasks st))) =
    charged st key - (if fst (qr_tasks st ! n) = key then 1 else 0)"
    and "fst (qr_tasks st ! n) = key \<Longrightarrow> charged st key > 0"
    by (simp_all add: charged_def)
qed

lemma slots_inv_step:
  assumes "runner_step es inner queues st st'" and "distinct (map wq_name queues)" and "slots_inv queues st"
  shows "slots_inv queues st'"
  using assms(1)
proof (rule runner_stepE)
  fix q env b
  assume "q \<in> set queues" "queue_iteration inner q env st = (st', b)"
  with assms(2,3) show ?thesis by (auto intro: iteration_inv)
next
  fix n now result
  assume st': "st' = finish_dequeued es now n result st" and n: "n < length (qr_tasks st)"
  obtain k t where kt: "qr_tasks st ! n = (k, t)" by (cases "qr_tasks st ! n")
  have le: "charged st key \<le> slots st key" for key using assms(3) unfolding slots_inv_def by blast
  have "slots st k > 0" using charged_remove(2) [OF n, of k] kt le [of k] by simp
  then obtain m where m: "qr_counts st k = Some m" "m > 0" by (cases "qr_counts st k") (simp_all add: slots_def)
  have s: "slots st' key = slots st key - (if key = k then 1 else 0)" for key
    using m by (simp add: st' finish_dequeued_def kt slots_def dec_worker_def)
  have c: "charged st' key = charged st key - (if k = key then 1 else 0)" for key
    using charged_remove(1) [OF n, of key] kt by (simp add: st' finish_dequeued_def charged_def)
  have "charged st' key \<le> slots st' key" for key using s [of key] c [of key] le [of key] by auto
  moreover have "slots st' key \<le> slots st key" for key using s [of key] by simp
  ultimately show ?thesis
    using assms(3) unfolding slots_inv_def within_limit_def by (meson order_trans)
next
  fix n
  assume st': "st' = task_dies n st" and n: "n < length (qr_tasks st)"
  have "slots st' key = slots st key" "charged st' key \<le> charged st key" for key
    using charged_remove(1) [OF n, of key] by (simp_all add: st' task_dies_def slots_def charged_def)
  with assms(3) show ?thesis unfolding slots_inv_def within_limit_def by (metis order_trans)
next
  fix db'
  assume "st' = st\<lparr>qr_db := db'\<rparr>"
  with assms(3) show ?thesis by (simp add: slots_inv_def within_limit_def)
qed

lemma slots_inv_reachable:
  "runner_reachable es inner queues st \<Longrightarrow> distinct (map wq_name queues) \<Longrightarrow> slots_inv queues st"
  by (induction rule: runner_reachable.induct)
    (auto simp: slots_inv_def within_limit_def slots_def charged_def dest: slots_inv_step)

text \<open>The polling interval stays between the queue's bounds.\<close>

lemma next_interval_bounds:
  assumes "wq_base_polling q \<le> i" and "i \<le> wq_max_polling q" and "\<And>d. ia_shrink ia d \<le> d" and "\<And>d. d \<le> ia_double ia d"
  shows "wq_base_polling q \<le> next_interval ia q b i \<and> next_interval ia q b i \<le> wq_max_polling q"
proof -
  have "wq_base_polling q \<le> ia_double ia i" using assms(1,4) order_trans by blast
  moreover have "ia_shrink ia i \<le> wq_max_polling q" using assms(2,3) order_trans by blast
  ultimately show ?thesis using assms(1,2) by (auto simp: next_interval_def min_def max_def)
qed

text \<open>A queue whose local count has reached the limit dispatches nothing.\<close>

lemma full_dequeue:
  assumes "wq_worker_concurrency q = Some c" and "worker_count counts (wq_name q) part \<ge> c"
  shows "dequeue_workflows (dequeue_input inner q counts part) now1 now2 locked db = (Inr [], db)"
proof -
  have "max_tasks (dequeue_input inner q counts part) db \<le> 0"
    using assms by (auto simp: max_tasks_def dequeue_input_def Let_def split: option.splits)
  then show ?thesis by (simp add: dequeue_workflows_def Let_def)
qed

lemma full_iteration:
  assumes "\<not> wq_partition_queue q" and "wq_worker_concurrency q = Some c"
    and "worker_count (qr_counts st) (wq_name q) None \<ge> c"
  shows "\<exists>db'. queue_iteration inner q env st = (st\<lparr>qr_db := db'\<rparr>, False)"
  using assms full_dequeue [OF assms(2,3)]
  by (auto simp: queue_iteration_def queue_partitions_def poll_partition_def Let_def)

lemma full_run:
  assumes "\<not> wq_partition_queue q" and "wq_worker_concurrency q = Some c"
    and "worker_count (qr_counts st) (wq_name q) None \<ge> c"
  shows "qr_tasks (snd (run_queue ia inner q envs i st)) = qr_tasks st \<and>
    qr_counts (snd (run_queue ia inner q envs i st)) = qr_counts st"
  using assms(3)
proof (induction envs arbitrary: i st)
  case (Cons env envs)
  obtain db' where it: "queue_iteration inner q env st = (st\<lparr>qr_db := db'\<rparr>, False)"
    using full_iteration [OF assms(1,2) Cons.prems] by blast
  from Cons.IH [of "st\<lparr>qr_db := db'\<rparr>"] Cons.prems it show ?case by simp
qed simp

lemma task_dies_iterate: "(task_dies 0 ^^ n) st = st\<lparr>qr_tasks := drop n (qr_tasks st)\<rparr>"
  by (induction n arbitrary: st) (simp_all add: task_dies_def funpow_swap1 drop_Suc tl_drop)

subsection \<open>Properties\<close>

text \<open>
  C23. Worker concurrency is a real bound. For an executor with distinctly named queues, after
  any sequence of runner iterations, finished tasks, dead tasks and database changes by others,
  the tasks of one queue and partition that are alive at the same time never exceed the queue's
  worker concurrency, and the in-memory count never loses track of a live task.
\<close>

theorem worker_concurrency_bound:
  assumes "runner_reachable es inner queues st" and "distinct (map wq_name queues)"
    and "q \<in> set queues" and "wq_worker_concurrency q = Some wc"
  shows "length (filter (\<lambda>p. fst p = count_key (wq_name q) part) (qr_tasks st)) \<le>
      worker_count (qr_counts st) (wq_name q) part \<and>
    worker_count (qr_counts st) (wq_name q) part \<le> wc"
proof -
  have inv: "slots_inv queues st" using slots_inv_reachable assms(1,2) by blast
  then have "charged st (count_key (wq_name q) part) \<le> slots st (count_key (wq_name q) part)"
    unfolding slots_inv_def by blast
  with inv assms(3,4) show ?thesis
    by (simp add: slots_inv_def within_limit_def worker_count_slots charged_def) (simp add: count_key_def)
qed

definition jobs_queue :: "nat WorkflowQueue" where
  "jobs_queue = worker_concurrency 1 (new_queue 1 120 ''jobs'')"

definition sample_iteration :: iteration_env where
  "sample_iteration = \<lparr>ie_others = (\<lambda>db. sample_queue_db), ie_now = 1000, ie_clock1 = (\<lambda>_. 1000),
     ie_clock2 = (\<lambda>_. 1001), ie_locked = (\<lambda>_ _. False)\<rparr>"

theorem worker_concurrency_bound_witness:
  "length (filter (\<lambda>p. fst p = (''jobs'', []))
     (qr_tasks (fst (queue_iteration (sample_inner ''A'') jobs_queue sample_iteration
        \<lparr>qr_db = empty_db, qr_counts = Map.empty, qr_tasks = []\<rparr>)))) \<le> 1"
proof -
  let ?l = "\<lparr>qr_db = empty_db, qr_counts = Map.empty, qr_tasks = []\<rparr>"
  obtain st b where it: "queue_iteration (sample_inner ''A'') jobs_queue sample_iteration ?l = (st, b)" by force
  have q: "jobs_queue \<in> set [jobs_queue]" "distinct (map wq_name [jobs_queue])"
    "wq_worker_concurrency jobs_queue = Some 1" by (simp_all add: jobs_queue_def worker_concurrency_def)
  have "runner_reachable mini_error_serde (sample_inner ''A'') [jobs_queue] st"
    by (rule runner_reachable.step [OF runner_reachable.launch runner_step.iterate [OF q(1) it]])
  from worker_concurrency_bound [OF this q(2,1,3), of None] show ?thesis
    by (simp add: it) (simp add: count_key_def jobs_queue_def worker_concurrency_def new_queue_def)
qed

text \<open>
  A panicking workflow loses its slot for good. The count is decremented only after the
  handler returned. When all live tasks of a queue at its worker concurrency die, nothing is
  running, but the count stays at the limit and no later iteration of the runner, on any database,
  dispatches another workflow of the queue.
\<close>

theorem dead_tasks_block_the_queue:
  assumes "\<not> wq_partition_queue q" and "wq_worker_concurrency q = Some c"
    and "worker_count (qr_counts st) (wq_name q) None = c"
    and "dead = (task_dies 0 ^^ length (qr_tasks st)) st"
  shows "qr_tasks dead = [] \<and> qr_tasks (snd (run_queue ia inner q envs i dead)) = [] \<and>
    worker_count (qr_counts (snd (run_queue ia inner q envs i dead))) (wq_name q) None = c"
proof -
  have d: "qr_tasks dead = []" "qr_counts dead = qr_counts st"
    by (simp_all add: assms(4) task_dies_iterate)
  with full_run [OF assms(1,2), of dead ia inner envs i] assms(3) show ?thesis by simp
qed

definition busy_state :: runner_state where
  "busy_state = \<lparr>qr_db = sample_queue_db, qr_counts = [(''jobs'', []) \<mapsto> 1],
     qr_tasks = [((''jobs'', []), sample_task (Inr ''true''))]\<rparr>"

theorem dead_tasks_block_the_queue_witness:
  "qr_tasks (snd (run_queue \<lparr>ia_double = (\<lambda>d. 2 * d), ia_shrink = (\<lambda>d. d)\<rparr> (sample_inner ''A'') jobs_queue
     [sample_iteration, sample_iteration] 1 (task_dies 0 busy_state))) = []"
proof -
  have q: "\<not> wq_partition_queue jobs_queue" "wq_worker_concurrency jobs_queue = Some 1"
    "worker_count (qr_counts busy_state) (wq_name jobs_queue) None = 1"
    by (simp_all add: jobs_queue_def worker_concurrency_def new_queue_def busy_state_def worker_count_def count_key_def)
  have d: "task_dies 0 busy_state = (task_dies 0 ^^ length (qr_tasks busy_state)) busy_state"
    by (simp add: busy_state_def)
  show ?thesis using dead_tasks_block_the_queue [OF q d] by blast
qed

end
