(* ===== verification/Dbos_Scheduler.thy ===== *)
theory Dbos_Scheduler
  imports Dbos_Workflow
begin

text \<open>
  Cron scheduling, \<open>crates/dbos/src/runtime/scheduler.rs\<close>. The cron crate and the time formatting are
  parameters: \<open>next_after\<close> is the first tick after a time (\<open>None\<close> when there is none) and \<open>rfc3339\<close>
  the text of a tick to the second. Time is in whole seconds, the grain of the ticks. Waiting for a
  tick has no effect on the state and is not in the model; cancelling ends the list of ticks.
\<close>

subsection \<open>Cron text\<close>

text \<open>\<open>split_whitespace\<close>: the maximal runs without whitespace.\<close>

fun split_from :: "string \<Rightarrow> string \<Rightarrow> string list" where
  "split_from w [] = (if w = [] then [] else [rev w])"
| "split_from w (c # cs) =
     (if is_whitespace c then (if w = [] then split_from [] cs else rev w # split_from [] cs)
      else split_from (c # w) cs)"

definition split_whitespace :: "string \<Rightarrow> string list" where
  "split_whitespace s = split_from [] s"

definition normalize_cron :: "string \<Rightarrow> string" where
  "normalize_cron cron =
     (if length (split_whitespace cron) = 5 then ''0 '' @ cron else cron)"

subsection \<open>The loop\<close>

record ScheduledWorkflowInput =
  scheduled_time :: int

record clockwork =
  cw_rfc3339 :: "int \<Rightarrow> string"
  cw_to_value :: "ScheduledWorkflowInput \<Rightarrow> string + json"
  cw_args_to :: "PortableArgs \<Rightarrow> string"

definition tick_id :: "clockwork \<Rightarrow> string \<Rightarrow> int \<Rightarrow> string" where
  "tick_id cw name t = name @ ''-'' @ cw_rfc3339 cw t"

record firing =
  fr_others :: "sysdb \<Rightarrow> sysdb"
  fr_env :: start_env

text \<open>Firing one tick: the start call of the tick's workflow.\<close>

definition tick_call :: "clockwork \<Rightarrow> DbosInner \<Rightarrow> string \<Rightarrow> int \<Rightarrow> string \<Rightarrow> firing \<Rightarrow> start_call" where
  "tick_call cw inner name t encoded f =
     \<lparr>sc_others = fr_others f, sc_inner = inner, sc_env = fr_env f, sc_name = name,
      sc_input = Some encoded,
      sc_options = default_options\<lparr>wo_workflow_id := Some (tick_id cw name t)\<rparr>,
      sc_parent = None, sc_format = Portable\<rparr>"

definition tick_input :: "clockwork \<Rightarrow> serde \<Rightarrow> int \<Rightarrow> DbosError + string" where
  "tick_input cw sd t =
     encode_input sd (cw_args_to cw) (cw_to_value cw) \<lparr>scheduled_time = t\<rparr> Portable"

text \<open>One firing per element of the list; the result has the fired ticks with what they spawned.\<close>

fun scheduler_loop ::
  "clockwork \<Rightarrow> serde \<Rightarrow> DbosInner \<Rightarrow> string \<Rightarrow> (int \<Rightarrow> int option) \<Rightarrow> firing list \<Rightarrow> int \<Rightarrow> sysdb \<Rightarrow>
   (int \<times> task list) list \<times> sysdb" where
  "scheduler_loop cw sd inner name next_after [] last_tick db = ([], db)"
| "scheduler_loop cw sd inner name next_after (f # fs) last_tick db =
     (case next_after last_tick of
        None \<Rightarrow> ([], db)
      | Some t \<Rightarrow>
          (case tick_input cw sd t of
             Inl e \<Rightarrow>
               (case scheduler_loop cw sd inner name next_after fs t (fr_others f db) of
                  (fired, db') \<Rightarrow> ((t, []) # fired, db'))
           | Inr encoded \<Rightarrow>
               (case start_call sd (tick_call cw inner name t encoded f) db of
                  (r, db1) \<Rightarrow>
                    (case scheduler_loop cw sd inner name next_after fs t db1 of
                       (fired, db') \<Rightarrow> ((t, spawned r) # fired, db')))))"

definition run_scheduler ::
  "clockwork \<Rightarrow> serde \<Rightarrow> DbosInner \<Rightarrow> (string \<Rightarrow> (int \<Rightarrow> int option) option) \<Rightarrow> string \<Rightarrow> string \<Rightarrow> int \<Rightarrow>
   firing list \<Rightarrow> sysdb \<Rightarrow> (int \<times> task list) list \<times> sysdb" where
  "run_scheduler cw sd inner parse name cron now fs db =
     (case parse (normalize_cron cron) of
        None \<Rightarrow> ([], db)
      | Some next_after \<Rightarrow> scheduler_loop cw sd inner name next_after fs now db)"

subsection \<open>Facts\<close>

text \<open>Fired ticks follow each other without gap or repetition.\<close>

fun consecutive :: "(int \<Rightarrow> int option) \<Rightarrow> int \<Rightarrow> int list \<Rightarrow> bool" where
  "consecutive next_after t [] = True"
| "consecutive next_after t (u # us) = (next_after t = Some u \<and> consecutive next_after u us)"

lemma scheduler_ticks:
  "scheduler_loop cw sd inner name next_after fs t db = (fired, db') \<Longrightarrow>
     consecutive next_after t (map fst fired)"
  by (induction cw sd inner name next_after fs t db arbitrary: fired db' rule: scheduler_loop.induct)
    (auto split: option.splits sum.splits prod.splits)

lemma consecutive_increases:
  assumes "\<And>t u. next_after t = Some u \<Longrightarrow> t < u"
  shows "consecutive next_after t us \<Longrightarrow> sorted_wrt (<) (t # us)"
proof (induction us arbitrary: t)
  case (Cons u us)
  from Cons.IH [of u] Cons.prems have "sorted_wrt (<) (u # us)" by simp
  moreover have "t < u" using assms Cons.prems by simp
  ultimately show ?case by (auto intro: less_trans)
qed simp

lemma tick_id_inject:
  "tick_id cw name t = tick_id cw name u \<longleftrightarrow> cw_rfc3339 cw t = cw_rfc3339 cw u"
  by (simp add: tick_id_def)

lemma tick_call_starts_on:
  "starts_on (tick_id cw name t) xs (tick_call cw inner name t encoded f) =
     keeps_owner (tick_id cw name t) xs (fr_others f)"
  by (simp add: starts_on_def tick_call_def default_options_def)

lemma split_from_leading:
  "\<not> is_whitespace c \<Longrightarrow> is_whitespace d \<Longrightarrow>
     split_whitespace (c # d # s) = [c] # split_whitespace s"
  by (simp add: split_whitespace_def)

text \<open>A five-field spec gets a seconds field and has six fields then; others are kept.\<close>

lemma normalize_cron_fields:
  "length (split_whitespace (normalize_cron cron)) =
     (if length (split_whitespace cron) = 5 then 6 else length (split_whitespace cron))"
proof -
  have "\<not> is_whitespace CHR ''0''" "is_whitespace CHR '' ''" by (simp_all add: is_whitespace_def)
  then have "split_whitespace (CHR ''0'' # CHR '' '' # cron) = [CHR ''0''] # split_whitespace cron"
    by (rule split_from_leading)
  then show ?thesis by (simp add: normalize_cron_def)
qed

subsection \<open>Properties\<close>

text \<open>
  C31. One run per tick across the fleet. Any number of executors that have the workflow
  registered fire the same tick, in any order, each start with its own owner id and others
  changing the database in between without deleting the tick's workflow or taking these owner
  ids; the workflow of the tick did not exist before. Then at most one body runs, exactly one if
  the first start finds no row, and it gets the tick as its input; and one scheduler never fires
  a tick twice: its ticks are the consecutive, strictly increasing ticks of the schedule, with
  different workflow ids when the time format tells ticks apart.
\<close>

theorem one_run_per_tick:
  assumes "cs = map (\<lambda>(inner, f). tick_call cw inner name t encoded f) fleet"
    and "tick_input cw sd t = Inr encoded"
    and "\<forall>(inner, f) \<in> set fleet. di_registry inner name \<noteq> None \<and>
           keeps_owner (tick_id cw name t) (xid_of ` set cs) (fr_others f)"
    and "distinct (map xid_of cs)" and "find_workflow db (tick_id cw name t) = None"
    and "\<And>t u. next_after t = Some u \<Longrightarrow> t < u"
    and "scheduler_loop cw sd inner0 name next_after fs now db0 = (fired, db')"
  shows "length (spawned_by sd cs db) \<le> 1 \<and>
    (fleet \<noteq> [] \<and> find_workflow (fr_others (snd (hd fleet)) db) (tick_id cw name t) = None \<longrightarrow>
       (\<exists>k. spawned_by sd cs db = [k] \<and> tk_input k = Some encoded \<and>
          wc_workflow_id (tk_context k) = tick_id cw name t)) \<and>
    consecutive next_after now (map fst fired) \<and> distinct (map fst fired) \<and>
    (inj_on (cw_rfc3339 cw) (fst ` set fired) \<longrightarrow> distinct (map (tick_id cw name \<circ> fst) fired))"
proof -
  let ?w = "tick_id cw name t"
  have st: "\<forall>c \<in> set cs. starts_on ?w (xid_of ` set cs) c"
    unfolding assms(1) using assms(3) by (auto simp: tick_call_starts_on assms(1))
  have le: "length (spawned_by sd cs db) \<le> 1"
    by (rule spawned_by_fresh [OF st assms(5) order_refl assms(4)])
  have one: "\<exists>k. spawned_by sd cs db = [k] \<and> tk_input k = Some encoded \<and>
          wc_workflow_id (tk_context k) = ?w"
    if "fleet \<noteq> []" and free: "find_workflow (fr_others (snd (hd fleet)) db) ?w = None"
  proof -
    from that(1) obtain inner f rest where fl: "fleet = (inner, f) # rest" by (cases fleet) auto
    then obtain entry where reg: "di_registry inner name = Some entry" using assms(3) by auto
    let ?o = "default_options\<lparr>wo_workflow_id := Some ?w\<rparr>"
    have id: "choose_id ?o None (se_uuid (fr_env f)) = ?w" by simp
    have free1: "find_workflow (fr_others f db) ?w = None" using free fl by simp
    obtain k db1 where "start_workflow sd inner (fr_env f) name (Some encoded) ?o None Portable False
        (fr_others f db) = (Inr (\<lparr>wh_id = ?w, wh_kind = Owned\<rparr>, Some k), db1)"
      and k: "wc_workflow_id (tk_context k) = ?w" "tk_input k = Some encoded"
      using start_fresh [OF free1 id reg, of sd "Some encoded" Portable False] by auto
    then have "start_call sd (tick_call cw inner name t encoded f) db =
        (Inr (\<lparr>wh_id = ?w, wh_kind = Owned\<rparr>, Some k), db1)"
      by (simp add: start_call_def tick_call_def)
    then have "\<exists>ks. spawned_by sd cs db = k # ks" by (simp add: assms(1) fl spawned_def)
    with le k show ?thesis by auto
  qed
  have cons: "consecutive next_after now (map fst fired)" by (rule scheduler_ticks [OF assms(7)])
  have "distinct (map fst fired)"
    using consecutive_increases [of next_after, OF assms(6) cons] by (auto simp: strict_sorted_iff)
  moreover have "distinct (map (tick_id cw name \<circ> fst) fired)" if "inj_on (cw_rfc3339 cw) (fst ` set fired)"
  proof -
    have "inj_on (tick_id cw name) (fst ` set fired)"
      using that by (auto simp: inj_on_def tick_id_inject)
    with \<open>distinct (map fst fired)\<close> show ?thesis
      by (simp add: distinct_map comp_inj_on flip: map_map)
  qed
  ultimately show ?thesis using le one cons by blast
qed

definition sample_clockwork :: clockwork where
  "sample_clockwork = \<lparr>cw_rfc3339 = show_int, cw_to_value = (\<lambda>_. Inr Null), cw_args_to = (\<lambda>_. ''[]'')\<rparr>"

definition sample_firing :: "string \<Rightarrow> firing" where
  "sample_firing x = \<lparr>fr_others = id, fr_env = sample_start x\<rparr>"

definition every_minute :: "int \<Rightarrow> int option" where
  "every_minute t = Some (60 * (t div 60 + 1))"

theorem one_run_per_tick_witness:
  "\<exists>k. spawned_by mini_serde
      [tick_call sample_clockwork (sample_inner ''A'') ''checkout'' 60 ''[]'' (sample_firing ''x''),
       tick_call sample_clockwork (sample_inner ''B'') ''checkout'' 60 ''[]'' (sample_firing ''y'')] empty_db = [k]"
proof -
  let ?fleet = "[(sample_inner ''A'', sample_firing ''x''), (sample_inner ''B'', sample_firing ''y'')]"
  let ?cs = "map (\<lambda>(inner, f). tick_call sample_clockwork inner ''checkout'' 60 ''[]'' f) ?fleet"
  have inp: "tick_input sample_clockwork mini_serde 60 = Inr ''[]''"
    by (simp add: tick_input_def encode_input_def sample_clockwork_def)
  have fl: "\<forall>(inner, f) \<in> set ?fleet. di_registry inner ''checkout'' \<noteq> None \<and>
      keeps_owner (tick_id sample_clockwork ''checkout'' 60) (xid_of ` set ?cs) (fr_others f)"
    by (simp add: sample_inner_def sample_firing_def keeps_owner_def)
  have d: "distinct (map xid_of ?cs)"
    by (simp add: xid_of_def tick_call_def sample_firing_def sample_start_def)
  have free: "find_workflow empty_db w = None" for w
    by (simp add: find_workflow_def empty_db_def)
  have inc: "\<And>t u. every_minute t = Some u \<Longrightarrow> t < u"
    by (simp add: every_minute_def)
  have none: "scheduler_loop sample_clockwork mini_serde (sample_inner ''A'') ''checkout'' every_minute [] 0
      empty_db = ([], empty_db)" by simp
  show ?thesis
    using one_run_per_tick [OF refl inp fl d free inc none] free by (auto simp: sample_firing_def)
qed

end
