(* ===== verification/Dbos_Listener.thy ===== *)
theory Dbos_Listener
  imports Dbos_Prelude
begin

text \<open>
  The LISTEN/NOTIFY listener (\<open>crates/dbos/src/runtime/listener.rs\<close>) with the waiters it wakes: the waiter
  registries, the guard that removes a registration, the notifications and the wake-up of everybody
  on a tick or a new connection, and the wait loops of \<open>recv\<close> and \<open>get_event\<close>
  (\<open>crates/dbos/src/runtime/context.rs\<close>) as a step relation. The three hash maps are one association list whose
  keys carry the map; a \<open>tokio::sync::Notify\<close> is a number. As tokio documents, a \<open>notified()\<close> future
  gets every \<open>notify_waiters()\<close> after its creation, so a waiter that has created its future and not
  yet polled it is already armed. As sqlx documents, \<open>PgListener::recv\<close> reconnects by itself when its
  connection is lost, drops what was notified meanwhile, and only returns an error when that fails:
  the listener need not see a lost connection. The stream readers share their registrations like \<open>get_event\<close>; their
  loops are in \<open>Dbos_Streams\<close> and \<open>Dbos_Runtime\<close>.
\<close>

subsection \<open>Registries\<close>

datatype registry = NotificationsWaiters | EventsWaiters | StreamsWaiters

type_synonym waiter_key = "registry \<times> string"

type_synonym waiter_registry = "(waiter_key \<times> nat) list"

datatype phase = Armed | Waiting

record waiter =
  wt_key :: waiter_key
  wt_notify :: nat
  wt_phase :: phase
  wt_woken :: bool

text \<open>
  Beside the registries and the waiting tasks: the keys with data, the notifications under way to
  the listener, whether it is in its receiving loop, and whether the server knows its session
  (\<open>hb_linked\<close>). No code reads \<open>hb_missed\<close>: it holds the keys whose notification was lost since everybody
  was last woken.
\<close>

record hub =
  hb_registry :: waiter_registry
  hb_fresh :: nat
  hb_waiters :: "nat \<Rightarrow> waiter option"
  hb_data :: "waiter_key set"
  hb_inflight :: "waiter_key list"
  hb_listening :: bool
  hb_linked :: bool
  hb_missed :: "waiter_key set"

definition start_hub :: hub where
  "start_hub = \<lparr>hb_registry = [], hb_fresh = 0, hb_waiters = (\<lambda>_. None), hb_data = {},
     hb_inflight = [], hb_listening = False, hb_linked = False, hb_missed = {}\<rparr>"

definition NOTIFICATIONS_CHANNEL :: string where
  "NOTIFICATIONS_CHANNEL = ''dbos_notifications_channel''"

definition WORKFLOW_EVENTS_CHANNEL :: string where
  "WORKFLOW_EVENTS_CHANNEL = ''dbos_workflow_events_channel''"

definition STREAMS_CHANNEL :: string where
  "STREAMS_CHANNEL = ''dbos_streams_channel''"

text \<open>Dropping a guard.\<close>

definition drop_guard :: "waiter_key \<Rightarrow> waiter_registry \<Rightarrow> waiter_registry" where
  "drop_guard key reg = filter (\<lambda>(k, n). k \<noteq> key) reg"

definition notify_waiters :: "nat set \<Rightarrow> hub \<Rightarrow> hub" where
  "notify_waiters ns h =
     h\<lparr>hb_waiters := (\<lambda>i. map_option (\<lambda>w. if wt_notify w \<in> ns then w\<lparr>wt_woken := True\<rparr> else w)
                            (hb_waiters h i))\<rparr>"

definition wake_all :: "hub \<Rightarrow> hub" where
  "wake_all h = notify_waiters (snd ` set (hb_registry h)) h"

subsection \<open>The listener\<close>

datatype listen_event =
    Connected
  | PollTick
  | Notification string string
  | Disconnected

definition channel_registry :: "string \<Rightarrow> registry option" where
  "channel_registry ch =
     (if ch = NOTIFICATIONS_CHANNEL then Some NotificationsWaiters
      else if ch = WORKFLOW_EVENTS_CHANNEL then Some EventsWaiters
      else if ch = STREAMS_CHANNEL then Some StreamsWaiters
      else None)"

text \<open>One arm of \<open>run_listener\<close>'s loops; without a connection it only reconnects.\<close>

definition run_listener :: "listen_event \<Rightarrow> hub \<Rightarrow> hub" where
  "run_listener ev h =
     (case ev of
        Connected \<Rightarrow> wake_all (h\<lparr>hb_listening := True\<rparr>)
      | PollTick \<Rightarrow> if hb_listening h then wake_all h else h
      | Notification ch payload \<Rightarrow>
          if hb_listening h
          then (case channel_registry ch of
                  None \<Rightarrow> h
                | Some r \<Rightarrow>
                    (case map_of (hb_registry h) (r, payload) of
                       None \<Rightarrow> h
                     | Some n \<Rightarrow> notify_waiters {n} h))
          else h
      | Disconnected \<Rightarrow> h\<lparr>hb_listening := False, hb_linked := False, hb_inflight := []\<rparr>)"

fun channel_of :: "registry \<Rightarrow> string" where
  "channel_of NotificationsWaiters = NOTIFICATIONS_CHANNEL"
| "channel_of EventsWaiters = WORKFLOW_EVENTS_CHANNEL"
| "channel_of StreamsWaiters = STREAMS_CHANNEL"

subsection \<open>The waiting tasks\<close>

text \<open>\<open>recv\<close>: an occupied entry is refused.\<close>

definition register_recv :: "nat \<Rightarrow> waiter_key \<Rightarrow> hub \<Rightarrow> hub option" where
  "register_recv i key h =
     (case map_of (hb_registry h) key of
        Some _ \<Rightarrow> None
      | None \<Rightarrow> Some (h\<lparr>hb_registry := (key, hb_fresh h) # hb_registry h, hb_fresh := hb_fresh h + 1,
            hb_waiters := (hb_waiters h)(i \<mapsto> \<lparr>wt_key = key, wt_notify = hb_fresh h, wt_phase = Armed,
                                              wt_woken = False\<rparr>)\<rparr>))"

text \<open>\<open>get_event\<close> and the stream readers: an occupied entry is shared.\<close>

definition register_shared :: "nat \<Rightarrow> waiter_key \<Rightarrow> hub \<Rightarrow> hub" where
  "register_shared i key h =
     (case map_of (hb_registry h) key of
        Some n \<Rightarrow> h\<lparr>hb_waiters := (hb_waiters h)(i \<mapsto> \<lparr>wt_key = key, wt_notify = n, wt_phase = Armed,
                                              wt_woken = False\<rparr>)\<rparr>
      | None \<Rightarrow> h\<lparr>hb_registry := (key, hb_fresh h) # hb_registry h, hb_fresh := hb_fresh h + 1,
            hb_waiters := (hb_waiters h)(i \<mapsto> \<lparr>wt_key = key, wt_notify = hb_fresh h, wt_phase = Armed,
                                              wt_woken = False\<rparr>)\<rparr>)"

text \<open>A task that returns, with what it waited for or at its deadline, drops its guard.\<close>

definition leave :: "nat \<Rightarrow> waiter \<Rightarrow> hub \<Rightarrow> hub" where
  "leave i w h = h\<lparr>hb_registry := drop_guard (wt_key w) (hb_registry h), hb_waiters := (hb_waiters h)(i := None)\<rparr>"

text \<open>
  Everything that can happen, the commit of a message or event and the consumption of the last
  message of a key included. The session of the listener can break at any time (\<open>drop\<close>), with the
  loss of what it had not yet received, and be there again (\<open>link\<close>) without the listener noticing;
  what is committed in between is not notified. \<open>shared\<close> says whether \<open>get_event\<close> calls occur.
\<close>

inductive hub_step :: "bool \<Rightarrow> hub \<Rightarrow> hub \<Rightarrow> bool" for shared :: bool where
  recv: "hb_waiters h i = None \<Longrightarrow> register_recv i (NotificationsWaiters, p) h = Some h' \<Longrightarrow> hub_step shared h h'"
| get_event: "shared \<Longrightarrow> hb_waiters h i = None \<Longrightarrow> hub_step shared h (register_shared i (EventsWaiters, p) h)"
| found: "hb_waiters h i = Some w \<Longrightarrow> wt_phase w = Armed \<Longrightarrow> wt_key w \<in> hb_data h \<Longrightarrow>
    hub_step shared h (leave i w h)"
| wait: "hb_waiters h i = Some w \<Longrightarrow> wt_phase w = Armed \<Longrightarrow> wt_key w \<notin> hb_data h \<Longrightarrow>
    hub_step shared h (h\<lparr>hb_waiters := (hb_waiters h)(i \<mapsto> w\<lparr>wt_phase := Waiting\<rparr>)\<rparr>)"
| give_up: "hb_waiters h i = Some w \<Longrightarrow> wt_phase w = Armed \<Longrightarrow> wt_key w \<notin> hb_data h \<Longrightarrow>
    hub_step shared h (leave i w h)"
| wake_up: "hb_waiters h i = Some w \<Longrightarrow> wt_phase w = Waiting \<Longrightarrow> wt_woken w \<Longrightarrow>
    hub_step shared h (h\<lparr>hb_waiters := (hb_waiters h)(i \<mapsto> w\<lparr>wt_phase := Armed, wt_woken := False\<rparr>)\<rparr>)"
| deadline: "hb_waiters h i = Some w \<Longrightarrow> wt_phase w = Waiting \<Longrightarrow>
    hub_step shared h (h\<lparr>hb_waiters := (hb_waiters h)(i \<mapsto> w\<lparr>wt_phase := Armed, wt_woken := False\<rparr>)\<rparr>)"
| commit: "hb_linked h \<Longrightarrow>
    hub_step shared h (h\<lparr>hb_data := insert key (hb_data h), hb_inflight := hb_inflight h @ [key]\<rparr>)"
| commit_unheard: "\<not> hb_linked h \<Longrightarrow>
    hub_step shared h (h\<lparr>hb_data := insert key (hb_data h), hb_missed := insert key (hb_missed h)\<rparr>)"
| consume: "hub_step shared h (h\<lparr>hb_data := hb_data h - {key}\<rparr>)"
| link: "hub_step shared h (h\<lparr>hb_linked := True\<rparr>)"
| drop: "hb_inflight h = kept @ lost \<Longrightarrow>
    hub_step shared h (h\<lparr>hb_linked := False, hb_inflight := kept, hb_missed := hb_missed h \<union> set lost\<rparr>)"
| deliver: "hb_listening h \<Longrightarrow> hb_inflight h = (r, p) # rest \<Longrightarrow>
    hub_step shared h ((run_listener (Notification (channel_of r) p) h)\<lparr>hb_inflight := rest\<rparr>)"
| connected: "\<not> hb_listening h \<Longrightarrow> hub_step shared h ((run_listener Connected h)\<lparr>hb_missed := {}\<rparr>)"
| poll_tick: "hb_listening h \<Longrightarrow> hub_step shared h ((run_listener PollTick h)\<lparr>hb_missed := {}\<rparr>)"
| disconnected: "hb_listening h \<Longrightarrow>
    hub_step shared h ((run_listener Disconnected h)\<lparr>hb_missed := hb_missed h \<union> set (hb_inflight h)\<rparr>)"

inductive hub_reachable :: "bool \<Rightarrow> hub \<Rightarrow> bool" for shared :: bool where
  start: "hub_reachable shared start_hub"
| step: "hub_reachable shared h \<Longrightarrow> hub_step shared h h' \<Longrightarrow> hub_reachable shared h'"

subsection \<open>No wake-up is lost\<close>

text \<open>
  While every key has one waiter at most: each waiter is registered, and a waiter whose data has
  arrived is woken, or its notification is under way, or it was lost since everybody was last woken.
\<close>

definition registered :: "hub \<Rightarrow> bool" where
  "registered h \<longleftrightarrow> (\<forall>i w. hb_waiters h i = Some w \<longrightarrow> map_of (hb_registry h) (wt_key w) = Some (wt_notify w))"

definition single :: "hub \<Rightarrow> bool" where
  "single h \<longleftrightarrow> (\<forall>i j w v. hb_waiters h i = Some w \<longrightarrow> hb_waiters h j = Some v \<longrightarrow> wt_key w = wt_key v \<longrightarrow> i = j)"

definition not_lost :: "hub \<Rightarrow> bool" where
  "not_lost h \<longleftrightarrow> (\<forall>i w. hb_waiters h i = Some w \<longrightarrow> wt_phase w = Waiting \<longrightarrow> wt_key w \<in> hb_data h \<longrightarrow>
     wt_woken w \<or> wt_key w \<in> set (hb_inflight h) \<or> wt_key w \<in> hb_missed h)"

definition hub_inv :: "hub \<Rightarrow> bool" where
  "hub_inv h \<longleftrightarrow> registered h \<and> single h \<and> not_lost h"

lemma channel_registry_of [simp]: "channel_registry (channel_of r) = Some r"
  by (cases r) (simp_all add: channel_registry_def NOTIFICATIONS_CHANNEL_def WORKFLOW_EVENTS_CHANNEL_def STREAMS_CHANNEL_def)

lemma map_of_drop_guard: "map_of (drop_guard key reg) k = (if k = key then None else map_of reg k)"
  by (induction reg) (auto simp: drop_guard_def)

lemma notified_waiter:
  "hb_waiters (notify_waiters ns h) i = Some w' \<longleftrightarrow>
     (\<exists>w. hb_waiters h i = Some w \<and> w' = (if wt_notify w \<in> ns then w\<lparr>wt_woken := True\<rparr> else w))"
  by (cases "hb_waiters h i") (simp_all add: notify_waiters_def, blast)

lemma notify_fields [simp]:
  "hb_registry (notify_waiters ns h) = hb_registry h" "hb_data (notify_waiters ns h) = hb_data h"
  "hb_inflight (notify_waiters ns h) = hb_inflight h" "hb_listening (notify_waiters ns h) = hb_listening h"
  "hb_linked (notify_waiters ns h) = hb_linked h" "hb_missed (notify_waiters ns h) = hb_missed h"
  by (simp_all add: notify_waiters_def)

text \<open>Notifying keeps what is registered, and who waits for what.\<close>

lemma notify_registered: "registered h \<Longrightarrow> registered (notify_waiters ns h)"
  by (auto simp: registered_def notified_waiter split: if_splits)

lemma notify_single: "single h \<Longrightarrow> single (notify_waiters ns h)"
  unfolding single_def notified_waiter by (auto split: if_splits)

lemma notify_not_lost:
  assumes "not_lost h" shows "not_lost (notify_waiters ns h)"
  unfolding not_lost_def
proof (intro allI impI)
  fix i w' assume "hb_waiters (notify_waiters ns h) i = Some w'" and w': "wt_phase w' = Waiting"
    "wt_key w' \<in> hb_data (notify_waiters ns h)"
  then obtain w where w: "hb_waiters h i = Some w" "w' = (if wt_notify w \<in> ns then w\<lparr>wt_woken := True\<rparr> else w)"
    using notified_waiter by blast
  show "wt_woken w' \<or> wt_key w' \<in> set (hb_inflight (notify_waiters ns h)) \<or> wt_key w' \<in> hb_missed (notify_waiters ns h)"
    using assms w w' by (cases "wt_notify w \<in> ns") (auto simp: not_lost_def)
qed

lemma wake_all_wakes:
  assumes "registered h" and "hb_waiters (wake_all h) i = Some w"
  shows "wt_woken w"
proof -
  obtain v where v: "hb_waiters h i = Some v"
    "w = (if wt_notify v \<in> snd ` set (hb_registry h) then v\<lparr>wt_woken := True\<rparr> else v)"
    using assms(2) by (auto simp: wake_all_def notified_waiter)
  have "map_of (hb_registry h) (wt_key v) = Some (wt_notify v)" using assms(1) v(1) by (simp add: registered_def)
  then have "wt_notify v \<in> snd ` set (hb_registry h)" by (metis image_eqI map_of_SomeD snd_conv)
  then show ?thesis using v(2) by simp
qed

text \<open>Waking everybody makes up for whatever was missed.\<close>

lemma wake_all_inv:
  assumes "hub_inv h"
  shows "hub_inv ((wake_all (h\<lparr>hb_listening := b\<rparr>))\<lparr>hb_missed := {}\<rparr>)"
proof -
  let ?h = "h\<lparr>hb_listening := b\<rparr>"
  have r: "registered ?h" "single ?h" using assms by (simp_all add: hub_inv_def registered_def single_def)
  have "not_lost ((wake_all ?h)\<lparr>hb_missed := {}\<rparr>)" using wake_all_wakes [OF r(1)] by (auto simp: not_lost_def)
  moreover have "registered (wake_all ?h)" "single (wake_all ?h)"
    using r notify_registered notify_single by (simp_all add: wake_all_def)
  ultimately show ?thesis by (simp add: hub_inv_def registered_def single_def)
qed

lemma add_waiter_inv:
  assumes "hub_inv h" and "map_of (hb_registry h) key = None" and "hb_waiters h i = None"
  shows "hub_inv (h\<lparr>hb_registry := (key, n) # hb_registry h, hb_fresh := m,
    hb_waiters := (hb_waiters h)(i \<mapsto> \<lparr>wt_key = key, wt_notify = n, wt_phase = Armed, wt_woken = False\<rparr>)\<rparr>)"
proof -
  have "wt_key w \<noteq> key" if "hb_waiters h j = Some w" for j w
    using assms(1,2) that by (auto simp: hub_inv_def registered_def)
  then show ?thesis
    using assms by (auto simp: hub_inv_def registered_def single_def not_lost_def)
qed

lemma leave_inv:
  assumes "hub_inv h" and "hb_waiters h i = Some w"
  shows "hub_inv (leave i w h)"
proof -
  have "wt_key v \<noteq> wt_key w" if "hb_waiters h j = Some v" "j \<noteq> i" for j v
    using assms that unfolding hub_inv_def single_def by metis
  then show ?thesis
    using assms by (auto simp: hub_inv_def registered_def single_def not_lost_def leave_def map_of_drop_guard)
qed

lemma rephase_inv:
  assumes "hub_inv h" and "hb_waiters h i = Some w" and "wt_key v = wt_key w" and "wt_notify v = wt_notify w"
    and "wt_phase v = Armed \<or> wt_key w \<notin> hb_data h"
  shows "hub_inv (h\<lparr>hb_waiters := (hb_waiters h)(i \<mapsto> v)\<rparr>)"
proof -
  have "registered (h\<lparr>hb_waiters := (hb_waiters h)(i \<mapsto> v)\<rparr>)" "not_lost (h\<lparr>hb_waiters := (hb_waiters h)(i \<mapsto> v)\<rparr>)"
    using assms by (auto simp: hub_inv_def registered_def not_lost_def)
  moreover have "single (h\<lparr>hb_waiters := (hb_waiters h)(i \<mapsto> v)\<rparr>)"
    using assms unfolding hub_inv_def single_def by (auto split: if_splits)
  ultimately show ?thesis using assms(1) by (simp add: hub_inv_def)
qed

text \<open>A key with new data is notified or missed; a notification that goes is missed.\<close>

lemma traffic_inv:
  assumes "hub_inv h" and "\<forall>k \<in> hb_data g - hb_data h. k \<in> set (hb_inflight g) \<union> hb_missed g"
    and "set (hb_inflight h) \<union> hb_missed h \<subseteq> set (hb_inflight g) \<union> hb_missed g"
    and "hb_registry g = hb_registry h" and "hb_waiters g = hb_waiters h"
  shows "hub_inv g"
  using assms unfolding hub_inv_def registered_def single_def not_lost_def by simp blast

lemma deliver_inv:
  assumes "hub_inv h" and on: "hb_listening h" and "hb_inflight h = (r, p) # rest"
  shows "hub_inv ((run_listener (Notification (channel_of r) p) h)\<lparr>hb_inflight := rest\<rparr>)"
proof -
  show ?thesis
  proof (cases "map_of (hb_registry h) (r, p)")
    case None
    then have "wt_key w \<noteq> (r, p)" if "hb_waiters h i = Some w" for i w
      using assms(1) that unfolding hub_inv_def registered_def by (metis option.distinct(1))
    then show ?thesis
      using assms on None
      by (simp add: run_listener_def hub_inv_def registered_def single_def not_lost_def)
  next
    case (Some n)
    let ?h = "notify_waiters {n} h"
    have reg: "registered ?h" "single ?h" "not_lost ?h"
      using assms(1) notify_registered notify_single notify_not_lost by (auto simp: hub_inv_def)
    have woken: "wt_woken w" if present: "hb_waiters ?h i = Some w" and key: "wt_key w = (r, p)" for i w
    proof -
      obtain v where v: "hb_waiters h i = Some v" "w = (if wt_notify v \<in> {n} then v\<lparr>wt_woken := True\<rparr> else v)"
        using present by (auto simp: notified_waiter)
      then have "wt_key v = (r, p)" using key by (cases "wt_notify v \<in> {n}") auto
      moreover have "map_of (hb_registry h) (wt_key v) = Some (wt_notify v)"
        using assms(1) v(1) unfolding hub_inv_def registered_def by blast
      ultimately have "wt_notify v = n" using Some by simp
      then show ?thesis using v(2) by simp
    qed
    have "not_lost (?h\<lparr>hb_inflight := rest\<rparr>)"
      using reg(3) woken assms(3) unfolding not_lost_def by auto
    then show ?thesis
      using reg on Some by (simp add: run_listener_def hub_inv_def registered_def single_def)
  qed
qed

lemma hub_step_inv: "hub_step False h h' \<Longrightarrow> hub_inv h \<Longrightarrow> hub_inv h'"
proof (induction rule: hub_step.induct)
  case (recv h i p h')
  then show ?case using add_waiter_inv by (auto simp: register_recv_def split: option.splits)
next
  case (wait h i w)
  then show ?case by (intro rephase_inv [of h i w]) auto
next
  case (wake_up h i w)
  then show ?case by (intro rephase_inv [of h i w]) auto
next
  case (deadline h i w)
  then show ?case by (intro rephase_inv [of h i w]) auto
next
  case (drop h kept lost)
  show ?case by (rule traffic_inv [OF drop.prems]) (auto simp: drop.hyps)
next
  case (deliver h r p rest)
  then show ?case by (intro deliver_inv)
next
  case (connected h)
  then show ?case using wake_all_inv [of h True] by (simp add: run_listener_def)
next
  case (poll_tick h)
  then have "h\<lparr>hb_listening := True\<rparr> = h" by (cases h) simp
  from wake_all_inv [OF poll_tick.prems, of True, unfolded this] poll_tick.hyps show ?case
    by (simp add: run_listener_def)
next
  case (disconnected h)
  show ?case by (rule traffic_inv [OF disconnected.prems]) (auto simp: run_listener_def)
next
  case (commit h key)
  show ?case by (rule traffic_inv [OF commit.prems]) auto
next
  case (commit_unheard h key)
  show ?case by (rule traffic_inv [OF commit_unheard.prems]) auto
next
  case (consume h key)
  show ?case by (rule traffic_inv [OF consume.prems]) auto
next
  case (link h)
  show ?case by (rule traffic_inv [OF link.prems]) auto
qed (simp_all add: leave_inv)

lemma hub_reachable_inv: "hub_reachable False h \<Longrightarrow> hub_inv h"
proof (induction rule: hub_reachable.induct)
  case start
  show ?case by (simp add: start_hub_def hub_inv_def registered_def single_def not_lost_def)
next
  case (step h h')
  then show ?case using hub_step_inv by blast
qed

text \<open>While its session stands, the listener misses nothing.\<close>

lemma missed_only_offline:
  "hub_step shared h h' \<Longrightarrow> hb_linked h \<Longrightarrow> hb_linked h' \<Longrightarrow> hb_missed h' \<subseteq> hb_missed h"
  by (induction rule: hub_step.induct)
    (auto simp: register_recv_def register_shared_def leave_def run_listener_def wake_all_def split: option.splits)

text \<open>A waiter that has been woken stays so until its task takes the wake-up.\<close>

lemma woken_stays:
  assumes "hub_step shared h h'" and "hb_waiters h i = Some w" and "wt_phase w = Waiting" and "wt_woken w"
  shows "hb_waiters h' i = Some w \<or> hb_waiters h' i = Some (w\<lparr>wt_phase := Armed, wt_woken := False\<rparr>)"
proof -
  have same: "w\<lparr>wt_woken := True\<rparr> = w" using assms(4) by (cases w) simp
  show ?thesis
    using assms(1-3)
    by (induction rule: hub_step.induct)
      (auto simp: register_recv_def register_shared_def leave_def run_listener_def wake_all_def notify_waiters_def
        same split: option.splits)
qed

text \<open>
  C26. A \<open>recv\<close> whose message has arrived does not sleep on. Let the listener's waiters be \<open>recv\<close>
  calls, in any order of registrations, probes, commits, deliveries and ticks, while the listener
  loses its connection, noticing it or not, and regains it. A sleeping waiter whose message has been
  committed has been woken, or its notification is under way, or was lost with the connection since
  everybody was last woken. In every case its registration is intact: its notification, the next
  tick and the next connection each wake it, and a wake-up stays until its task takes it.
\<close>
theorem recv_wakeups_are_not_lost:
  assumes "hub_reachable False h" and "hb_waiters h i = Some w" and "wt_phase w = Waiting"
    and "wt_key w \<in> hb_data h"
  shows "(wt_woken w \<or> wt_key w \<in> set (hb_inflight h) \<or> wt_key w \<in> hb_missed h) \<and>
    (\<exists>v. hb_waiters (run_listener Connected h) i = Some v \<and> wt_woken v) \<and>
    (hb_listening h \<longrightarrow>
      (\<exists>v. hb_waiters (run_listener PollTick h) i = Some v \<and> wt_woken v) \<and>
      (\<exists>v. hb_waiters (run_listener (Notification (channel_of (fst (wt_key w))) (snd (wt_key w))) h) i = Some v \<and>
        wt_woken v)) \<and>
    (wt_woken w \<and> hub_step False h h' \<longrightarrow>
      hb_waiters h' i = Some w \<or> hb_waiters h' i = Some (w\<lparr>wt_phase := Armed, wt_woken := False\<rparr>))"
proof (intro conjI impI)
  have inv: "hub_inv h" by (rule hub_reachable_inv [OF assms(1)])
  then show "wt_woken w \<or> wt_key w \<in> set (hb_inflight h) \<or> wt_key w \<in> hb_missed h"
    using assms(2-4) by (simp add: hub_inv_def not_lost_def)
  have reg: "map_of (hb_registry h) (wt_key w) = Some (wt_notify w)"
    using inv assms(2) by (simp add: hub_inv_def registered_def)
  have all: "\<exists>v. hb_waiters (wake_all g) i = Some v \<and> wt_woken v"
    if same: "hb_waiters g = hb_waiters h" "hb_registry g = hb_registry h" for g
  proof -
    have "registered g" using inv same by (simp add: hub_inv_def registered_def)
    moreover obtain v where "hb_waiters (wake_all g) i = Some v"
      using same assms(2) by (simp add: wake_all_def notify_waiters_def)
    ultimately show ?thesis using wake_all_wakes by blast
  qed
  show "\<exists>v. hb_waiters (run_listener Connected h) i = Some v \<and> wt_woken v"
    by (simp add: run_listener_def all)
  show "\<exists>v. hb_waiters (run_listener PollTick h) i = Some v \<and> wt_woken v" if "hb_listening h"
    using that by (simp add: run_listener_def all)
  show "\<exists>v. hb_waiters (run_listener (Notification (channel_of (fst (wt_key w))) (snd (wt_key w))) h) i = Some v \<and>
        wt_woken v" if "hb_listening h"
    using that reg assms(2) by (simp add: run_listener_def notify_waiters_def)
  show "hb_waiters h' i = Some w \<or> hb_waiters h' i = Some (w\<lparr>wt_phase := Armed, wt_woken := False\<rparr>)"
    if "wt_woken w \<and> hub_step False h h'"
    using that assms(2,3) woken_stays by blast
qed

text \<open>A message committed while the one waiter sleeps.\<close>

definition mail_key :: waiter_key where "mail_key = (NotificationsWaiters, ''wf::topic'')"

definition sleeping_hub :: hub where
  "sleeping_hub =
     \<lparr>hb_registry = [(mail_key, 0)], hb_fresh = 1,
      hb_waiters = [0 \<mapsto> \<lparr>wt_key = mail_key, wt_notify = 0, wt_phase = Waiting, wt_woken = False\<rparr>],
      hb_data = {mail_key}, hb_inflight = [mail_key], hb_listening = True, hb_linked = True, hb_missed = {}\<rparr>"

lemma connected_reachable: "hub_reachable shared (start_hub\<lparr>hb_listening := True, hb_linked := True\<rparr>)"
proof -
  have "hub_reachable shared (start_hub\<lparr>hb_linked := True\<rparr>)"
    by (rule hub_reachable.step [OF hub_reachable.start hub_step.link])
  from hub_reachable.step [OF this hub_step.connected] show ?thesis
    by (simp add: start_hub_def run_listener_def wake_all_def notify_waiters_def)
qed

definition lone_sleeper :: hub where
  "lone_sleeper = sleeping_hub\<lparr>hb_data := {}, hb_inflight := []\<rparr>"

lemma lone_sleeper_reachable: "hub_reachable False lone_sleeper"
proof -
  let ?w = "\<lambda>ph. \<lparr>wt_key = mail_key, wt_notify = 0, wt_phase = ph, wt_woken = False\<rparr>"
  let ?h1 = "start_hub\<lparr>hb_listening := True, hb_linked := True\<rparr>"
  let ?h2 = "?h1\<lparr>hb_registry := [(mail_key, 0)], hb_fresh := 1, hb_waiters := [0 \<mapsto> ?w Armed]\<rparr>"
  have "hub_reachable False ?h1" by (rule connected_reachable)
  moreover have "hub_step False ?h1 ?h2"
    by (rule hub_step.recv [of _ 0 "''wf::topic''"]) (simp_all add: start_hub_def register_recv_def mail_key_def)
  ultimately have "hub_reachable False ?h2" by (rule hub_reachable.step)
  moreover have "hub_step False ?h2 lone_sleeper"
    using hub_step.wait [of ?h2 0 "?w Armed"] by (simp add: start_hub_def lone_sleeper_def sleeping_hub_def)
  ultimately show ?thesis by (rule hub_reachable.step)
qed

lemma sleeping_reachable: "hub_reachable False sleeping_hub"
proof -
  have "hub_step False lone_sleeper sleeping_hub"
    using hub_step.commit [of lone_sleeper False mail_key] by (simp add: lone_sleeper_def sleeping_hub_def)
  with lone_sleeper_reachable show ?thesis by (rule hub_reachable.step)
qed

theorem recv_wakeups_are_not_lost_witness:
  "\<exists>v. hb_waiters (run_listener (Notification ''dbos_notifications_channel'' ''wf::topic'') sleeping_hub) 0 = Some v \<and>
     wt_woken v"
  using recv_wakeups_are_not_lost [OF sleeping_reachable, of 0]
  by (simp add: sleeping_hub_def mail_key_def NOTIFICATIONS_CHANNEL_def)

text \<open>
  The connection breaks, the message comes, and \<open>recv\<close> reconnects by itself: the listener is in its
  receiving loop, nothing is under way, and the waiter sleeps on its message until the next tick.
  Only a reconnection of the outer loop wakes everybody.
\<close>

lemma silent_reconnect_leaves_the_tick:
  "\<exists>h w. hub_reachable False h \<and> hb_waiters h 0 = Some w \<and> wt_phase w = Waiting \<and> \<not> wt_woken w \<and>
     wt_key w \<in> hb_data h \<and> hb_inflight h = [] \<and> hb_listening h \<and> hb_linked h"
proof -
  let ?h1 = "lone_sleeper\<lparr>hb_linked := False\<rparr>"
  let ?h2 = "?h1\<lparr>hb_data := {mail_key}, hb_missed := {mail_key}\<rparr>"
  have "hub_step False lone_sleeper ?h1"
    using hub_step.drop [of lone_sleeper "[]" "[]" False] by (simp add: lone_sleeper_def sleeping_hub_def)
  with lone_sleeper_reachable have "hub_reachable False ?h1" by (rule hub_reachable.step)
  moreover have "hub_step False ?h1 ?h2"
    using hub_step.commit_unheard [of ?h1 False mail_key] by (simp add: lone_sleeper_def sleeping_hub_def)
  ultimately have "hub_reachable False ?h2" by (rule hub_reachable.step)
  then have "hub_reachable False (?h2\<lparr>hb_linked := True\<rparr>)" by (rule hub_reachable.step [OF _ hub_step.link])
  then show ?thesis
    by (intro exI [of _ "?h2\<lparr>hb_linked := True\<rparr>"]) (simp add: lone_sleeper_def sleeping_hub_def)
qed

subsection \<open>A shared registration\<close>

text \<open>A waiter whose notify is no longer registered is out of the listener's reach.\<close>

lemma orphan_stays:
  assumes "hb_waiters h i = Some w" and "wt_notify w \<notin> snd ` set (hb_registry h)"
  shows "hb_waiters (run_listener ev h) i = Some w" and "hb_registry (run_listener ev h) = hb_registry h"
proof -
  have "wt_notify w \<noteq> n" if "map_of (hb_registry h) k = Some n" for k n
    using assms(2) map_of_SomeD [OF that] by (metis image_eqI snd_conv)
  then show "hb_waiters (run_listener ev h) i = Some w"
    using assms
    by (cases ev) (auto simp: run_listener_def wake_all_def notify_waiters_def split: option.splits)
  show "hb_registry (run_listener ev h) = hb_registry h"
    by (cases ev) (auto simp: run_listener_def wake_all_def split: option.splits)
qed

lemma orphan_never_woken:
  "hb_waiters h i = Some w \<Longrightarrow> wt_notify w \<notin> snd ` set (hb_registry h) \<Longrightarrow>
   hb_waiters (fold run_listener evs h) i = Some w"
proof (induction evs arbitrary: h)
  case (Cons ev evs)
  show ?case using Cons.IH orphan_stays [OF Cons.prems, of ev] Cons.prems(2) by simp
qed simp

definition event_key :: waiter_key where "event_key = (EventsWaiters, ''wf::key'')"

definition orphan_hub :: hub where
  "orphan_hub =
     \<lparr>hb_registry = [], hb_fresh = 1,
      hb_waiters = [1 \<mapsto> \<lparr>wt_key = event_key, wt_notify = 0, wt_phase = Waiting, wt_woken = False\<rparr>],
      hb_data = {event_key}, hb_inflight = [event_key], hb_listening = True, hb_linked = True, hb_missed = {}\<rparr>"

lemma orphan_reachable: "hub_reachable True orphan_hub"
proof -
  let ?w = "\<lambda>ph. \<lparr>wt_key = event_key, wt_notify = 0, wt_phase = ph, wt_woken = False\<rparr>"
  let ?h1 = "start_hub\<lparr>hb_listening := True, hb_linked := True\<rparr>"
  let ?h2 = "?h1\<lparr>hb_registry := [(event_key, 0)], hb_fresh := 1, hb_waiters := [0 \<mapsto> ?w Armed]\<rparr>"
  let ?h3 = "?h2\<lparr>hb_waiters := [0 \<mapsto> ?w Armed, 1 \<mapsto> ?w Armed]\<rparr>"
  let ?h4 = "?h2\<lparr>hb_waiters := [0 \<mapsto> ?w Armed, 1 \<mapsto> ?w Waiting]\<rparr>"
  let ?h5 = "?h4\<lparr>hb_registry := [], hb_waiters := [1 \<mapsto> ?w Waiting]\<rparr>"
  have "hub_reachable True ?h1" by (rule connected_reachable)
  moreover have "hub_step True ?h1 ?h2"
    using hub_step.get_event [of True ?h1 0 "''wf::key''"] by (simp add: start_hub_def register_shared_def event_key_def)
  ultimately have "hub_reachable True ?h2" by (rule hub_reachable.step)
  moreover have "hub_step True ?h2 ?h3"
    using hub_step.get_event [of True ?h2 1 "''wf::key''"] by (simp add: start_hub_def register_shared_def event_key_def)
  ultimately have "hub_reachable True ?h3" by (rule hub_reachable.step)
  moreover have "hub_step True ?h3 ?h4"
    using hub_step.wait [of ?h3 1 "?w Armed" True] by (simp add: start_hub_def)
  ultimately have "hub_reachable True ?h4" by (rule hub_reachable.step)
  moreover have "hub_step True ?h4 ?h5"
    using hub_step.give_up [of ?h4 0 "?w Armed" True] by (simp add: start_hub_def leave_def drop_guard_def)
  ultimately have "hub_reachable True ?h5" by (rule hub_reachable.step)
  moreover have "hub_step True ?h5 orphan_hub"
    using hub_step.commit [of ?h5 True event_key] by (simp add: start_hub_def orphan_hub_def)
  ultimately show ?thesis by (rule hub_reachable.step)
qed

text \<open>
  Two \<open>get_event\<close> calls of one process for the same event share a registration, and the first
  to time out removes it: the other is then waiting on a notify nobody can find. Its event arrives,
  and no notification, tick or reconnection wakes it any more; only its own deadline does.
\<close>
theorem get_event_can_be_orphaned:
  "\<exists>h w. hub_reachable True h \<and> hb_waiters h 1 = Some w \<and> wt_phase w = Waiting \<and> wt_key w \<in> hb_data h \<and>
     wt_key w \<in> set (hb_inflight h) \<and> hb_listening h \<and>
     (\<forall>evs. \<exists>v. hb_waiters (fold run_listener evs h) 1 = Some v \<and> \<not> wt_woken v)"
proof -
  let ?w = "\<lparr>wt_key = event_key, wt_notify = 0, wt_phase = Waiting, wt_woken = False\<rparr>"
  have w: "hb_waiters orphan_hub 1 = Some ?w" by (simp add: orphan_hub_def)
  have no: "wt_notify ?w \<notin> snd ` set (hb_registry orphan_hub)" by (simp add: orphan_hub_def)
  have "\<exists>v. hb_waiters (fold run_listener evs orphan_hub) 1 = Some v \<and> \<not> wt_woken v" for evs
    using orphan_never_woken [OF w no, of evs] by simp
  then show ?thesis using orphan_reachable w by (intro exI [of _ orphan_hub] exI [of _ ?w]) (simp add: orphan_hub_def)
qed

end
