(* ===== verification/Dbos_Ident.thy ===== *)
theory Dbos_Ident
  imports Dbos_Prelude
begin

text \<open>
  The quoting of identifiers in \<open>crates/dbos/src/db/mod.rs\<close>. Every statement of the system database is
  assembled by \<open>format!\<close> around \<open>schema_prefix(schema)\<close>, with a schema name that comes from the
  configuration; that this cannot change the statement is what \<open>sanitize_ident\<close> is for. The
  reader \<open>read_quoted\<close> is PostgreSQL's lexical rule for a quoted identifier (SQL syntax,
  section on identifiers and key words): it ends at the first quote that is not doubled.
\<close>

definition sanitize_ident :: "string \<Rightarrow> string" where
  "sanitize_ident ident =
     CHR 0x22 # concat (map (\<lambda>c. if c = CHR 0x22 then [c, c] else [c]) ident) @ [CHR 0x22]"

definition schema_prefix :: "string \<Rightarrow> string" where
  "schema_prefix schema = sanitize_ident schema @ ''.''"

text \<open>The rest of a quoted identifier after its opening quote, and what follows the token.\<close>

fun read_body :: "string \<Rightarrow> (string \<times> string) option" where
  "read_body [] = None"
| "read_body (c # cs) =
     (if c \<noteq> CHR 0x22 then map_option (\<lambda>(i, r). (c # i, r)) (read_body cs)
      else (case cs of
              [] \<Rightarrow> Some ([], [])
            | d # ds \<Rightarrow> (if d = CHR 0x22 then map_option (\<lambda>(i, r). (CHR 0x22 # i, r)) (read_body ds)
                        else Some ([], cs))))"

fun read_quoted :: "string \<Rightarrow> (string \<times> string) option" where
  "read_quoted [] = None"
| "read_quoted (c # cs) = (if c = CHR 0x22 then read_body cs else None)"

lemma read_body_doubled:
  assumes "rest = [] \<or> hd rest \<noteq> CHR 0x22"
  shows "read_body (concat (map (\<lambda>c. if c = CHR 0x22 then [c, c] else [c]) ident) @
           CHR 0x22 # rest) = Some (ident, rest)"
proof (induction ident)
  case Nil
  then show ?case using assms by (cases rest) simp_all
next
  case (Cons c cs)
  then show ?case by simp
qed

lemma read_quoted_sanitized:
  assumes "rest = [] \<or> hd rest \<noteq> CHR 0x22"
  shows "read_quoted (sanitize_ident ident @ rest) = Some (ident, rest)"
  using read_body_doubled [OF assms, of ident] by (simp add: sanitize_ident_def)

definition parse_ident :: "string \<Rightarrow> string option" where
  "parse_ident s = (case read_quoted s of Some (i, r) \<Rightarrow> (if r = [] then Some i else None) | None \<Rightarrow> None)"

interpretation ident_codec: codec sanitize_ident parse_ident
  by unfold_locales (use read_quoted_sanitized [of "[]"] in \<open>simp add: parse_ident_def\<close>)

text \<open>
  Whatever characters a schema name holds, quotes and dots included, the prefix the statements
  are built with reads back as one identifier token denoting exactly that name, followed by the
  dot and the text of the statement: a schema name can neither end its token early nor become
  part of the statement.
\<close>
theorem schema_prefix_is_one_token:
  "read_quoted (schema_prefix schema @ stmt) = Some (schema, ''.'' @ stmt)"
  by (simp add: schema_prefix_def read_quoted_sanitized)

end
