(* ===== verification/Dbos_Migrate.thy ===== *)
theory Dbos_Migrate
  imports Dbos_Ident Dbos_Error
begin

text \<open>
  The schema migration runner of \<open>crates/dbos/src/db/migrate.rs\<close>: the rendering of the embedded SQL
  templates, the ordered list of the 40 migrations, and \<open>run_migrations\<close> with its two execution
  modes. The texts of the SQL files and the server that executes them are parameters
  (\<open>files\<close>, \<open>postgres\<close>); what the runner itself tracks, the schema and the single-row table
  \<open>dbos_migrations\<close>, is modelled. A run may be killed: \<open>lives\<close> is the number of commits the
  process still makes, and \<open>torn\<close> is the catalog an interrupted autocommit statement leaves.
\<close>

subsection \<open>Templates\<close>

fun render :: "('s \<Rightarrow> string \<times> 's) \<Rightarrow> 's \<Rightarrow> string \<Rightarrow> string" where
  "render arg st [] = []"
| "render arg st (c # cs) =
     (if c = CHR 0x25 then
        (case cs of
           [] \<Rightarrow> [CHR 0x25]
         | d # ds \<Rightarrow>
             (if d = CHR 0x25 then CHR 0x25 # render arg st ds
              else if d = CHR ''s'' then fst (arg st) @ render arg (snd (arg st)) ds
              else CHR 0x25 # render arg st cs))
      else c # render arg st cs)"

definition render_uniform :: "string \<Rightarrow> string \<Rightarrow> string" where
  "render_uniform template schema = render (\<lambda>_. (schema, ())) () template"

definition render_first_rest :: "string \<Rightarrow> string \<Rightarrow> string \<Rightarrow> string" where
  "render_first_rest template first rest =
     render (\<lambda>used. if used then (rest, used) else (first, True)) False template"

subsection \<open>The list of migrations\<close>

definition SCHEMA_VERSION :: int where
  "SCHEMA_VERSION = 40"

record Migration =
  mig_version :: int
  mig_sql :: string
  mig_online :: bool

text \<open>The table of the one-file migrations: version, file, online.\<close>

definition SIMPLE_to_21 :: "(int \<times> string \<times> bool) list" where
  "SIMPLE_to_21 =
    [(2, ''2_add_queue_partition_key.sql'', False),
     (3, ''3_add_workflow_status_index.sql'', False),
     (4, ''4_add_forked_from.sql'', False),
     (5, ''5_add_step_timestamps.sql'', False),
     (6, ''6_add_workflow_events_history.sql'', False),
     (7, ''7_add_owner_xid.sql'', False),
     (8, ''8_add_parent_workflow_id.sql'', False),
     (9, ''9_add_workflow_schedules.sql'', False),
     (11, ''11_add_serialization_columns.sql'', False),
     (12, ''12_add_notifications_consumed.sql'', False),
     (13, ''13_add_application_versions.sql'', False),
     (14, ''14_add_pgsql_client_functions.sql'', False),
     (15, ''15_add_workflow_schedule_columns.sql'', False),
     (16, ''16_add_delay_until.sql'', False),
     (17, ''17_add_workflow_schedule_queue_name.sql'', False),
     (18, ''18_add_was_forked_from.sql'', False),
     (19, ''19_add_operation_outputs_completed_at_index.sql'', False),
     (20, ''20_set_function_search_path.sql'', False),
     (21, ''21_create_queues_table.sql'', False)]"

definition SIMPLE_from_22 :: "(int \<times> string \<times> bool) list" where
  "SIMPLE_from_22 =
    [(22, ''22_drop_forked_from_index.sql'', True),
     (23, ''23_create_partial_forked_from_index.sql'', True),
     (24, ''24_drop_parent_workflow_id_index.sql'', True),
     (25, ''25_create_partial_parent_workflow_id_index.sql'', True),
     (26, ''26_drop_executor_id_index.sql'', True),
     (27, ''27_create_partial_dedup_id_index.sql'', True),
     (28, ''28_drop_dedup_id_constraint.sql'', False),
     (29, ''29_create_pending_index.sql'', True),
     (30, ''30_create_failed_index.sql'', True),
     (31, ''31_drop_status_index.sql'', True),
     (32, ''32_create_in_flight_index.sql'', True),
     (33, ''33_add_rate_limited.sql'', False),
     (34, ''34_create_rate_limited_index.sql'', True),
     (35, ''35_drop_queue_status_started_index.sql'', True),
     (36, ''36_add_completed_at.sql'', False),
     (37, ''37_create_started_at_index.sql'', True),
     (39, ''39_create_streams_trigger.sql'', False),
     (40, ''40_add_attributes.sql'', False)]"

definition SIMPLE :: "(int \<times> string \<times> bool) list" where
  "SIMPLE = SIMPLE_to_21 @ SIMPLE_from_22"

lemmas SIMPLE_defs = SIMPLE_def SIMPLE_to_21_def SIMPLE_from_22_def

text \<open>The text of migration 10, whose first slot stands inside an SQL string literal.\<close>

definition M10_before :: string where
  "M10_before =
     ''-- Migration 10: Add primary key to notifications table'' @ [CHR 0x0A] @
     ''-- An earlier version of DBOS had a bug where this table was created without a primary key.'' @ [CHR 0x0A] @
     ''-- The initial migration has been changed to create a key, and this migration creates the key'' @ [CHR 0x0A] @
     ''-- for existing applications.'' @ [CHR 0x0A] @
     [CHR 0x0A] @
     ''DO $$'' @ [CHR 0x0A] @
     ''BEGIN'' @ [CHR 0x0A] @
     ''    IF NOT EXISTS ('' @ [CHR 0x0A] @
     ''        SELECT 1 FROM pg_constraint c'' @ [CHR 0x0A] @
     ''        JOIN pg_class cl ON c.conrelid = cl.oid'' @ [CHR 0x0A] @
     ''        JOIN pg_namespace n ON cl.relnamespace = n.oid'' @ [CHR 0x0A] @
     ''        WHERE n.nspname = '' @ [CHR 0x27]"

definition M10_after :: string where
  "M10_after =
     [CHR 0x27] @ [CHR 0x0A] @
     ''          AND cl.relname = '' @ [CHR 0x27] @ ''notifications'' @ [CHR 0x27] @ [CHR 0x0A] @
     ''          AND c.contype = '' @ [CHR 0x27] @ ''p'' @ [CHR 0x27] @ [CHR 0x0A] @
     ''    ) THEN'' @ [CHR 0x0A] @
     ''        ALTER TABLE %s.notifications ADD PRIMARY KEY (message_uuid);'' @ [CHR 0x0A] @
     ''    END IF;'' @ [CHR 0x0A] @
     ''END $$;'' @ [CHR 0x0A]"

definition M10 :: string where
  "M10 = M10_before @ ''%s'' @ M10_after"

type_synonym files = "string \<Rightarrow> string"

definition build_migrations :: "files \<Rightarrow> string \<Rightarrow> Migration list" where
  "build_migrations files schema =
     (let s = sanitize_ident schema in
      sort_key mig_version
        (\<lparr>mig_version = 1,
          mig_sql = render_uniform
            (files ''1_initial_dbos_schema.sql'' @ [CHR 0x0A] @
             files ''1_initial_dbos_schema_listen_notify.sql'') s,
          mig_online = False\<rparr> #
         map (\<lambda>(version, file, online).
                \<lparr>mig_version = version,
                 mig_sql = (if online then render_first_rest (files file) ''CONCURRENTLY'' s
                            else render_uniform (files file) s),
                 mig_online = online\<rparr>) SIMPLE @
         [\<lparr>mig_version = 10, mig_sql = render_first_rest M10 schema s, mig_online = False\<rparr>,
          \<lparr>mig_version = 38,
           mig_sql = render_uniform
             (files ''38_update_enqueue_workflow.sql'' @ [CHR 0x0A] @
              files ''38_set_enqueue_workflow_search_path.sql'') s,
           mig_online = False\<rparr>]))"

subsection \<open>The server and the process\<close>

record 'c postgres =
  run_sql :: "string \<Rightarrow> 'c \<Rightarrow> sqlx_error + 'c"
  invalid_indexes :: "'c \<Rightarrow> string list"
  torn :: "string \<Rightarrow> 'c \<Rightarrow> 'c"

record 'c server =
  has_schema :: bool
  versions :: "int list option"
  catalog :: 'c
  lives :: "nat option"

datatype stop = Died | Failed DbosError

type_synonym ('c, 'a) mig_op = "('c server, stop, 'a) eff"

definition tick :: "'c server \<Rightarrow> 'c server" where
  "tick s = s\<lparr>lives := map_option (\<lambda>n. n - 1) (lives s)\<rparr>"

text \<open>A transaction: all of it is committed or nothing, and a dead process commits nothing.\<close>

definition commit :: "('c, 'a) mig_op \<Rightarrow> ('c, 'a) mig_op" where
  "commit m s = (if lives s = Some 0 then (Inl Died, s) else transaction m (tick s))"

definition execute :: "'c postgres \<Rightarrow> string \<Rightarrow> ('c, unit) mig_op" where
  "execute pg sql s =
     (case run_sql pg sql (catalog s) of
        Inl e \<Rightarrow> (Inl (Failed (from_sqlx e)), s)
      | Inr c \<Rightarrow> (Inr (), s\<lparr>catalog := c\<rparr>))"

text \<open>A statement outside a transaction: the process may die while the server runs it.\<close>

definition autocommit :: "'c postgres \<Rightarrow> string \<Rightarrow> ('c, unit) mig_op" where
  "autocommit pg sql s =
     (if lives s = Some 0 then (Inl Died, s\<lparr>catalog := torn pg sql (catalog s)\<rparr>)
      else execute pg sql (tick s))"

subsection \<open>The runner\<close>

definition schema_exists :: "'c server \<Rightarrow> bool" where
  [simp]: "schema_exists s = has_schema s"

definition migrations_table_exists :: "'c server \<Rightarrow> bool" where
  [simp]: "migrations_table_exists s \<longleftrightarrow> versions s \<noteq> None"

definition read_version_opt :: "'c server \<Rightarrow> int option" where
  "read_version_opt s = (case versions s of Some (v # _) \<Rightarrow> Some v | _ \<Rightarrow> None)"

definition read_version :: "'c server \<Rightarrow> int" where
  "read_version s = unwrap_or (read_version_opt s) 0"

definition should_migrate :: "'c server \<Rightarrow> bool" where
  "should_migrate s =
     (if \<not> schema_exists s then True
      else if \<not> migrations_table_exists s then True
      else read_version s < SCHEMA_VERSION)"

text \<open>The primary key of the table refuses a second row with the same version.\<close>

definition write_version :: "int \<Rightarrow> int \<Rightarrow> ('c, unit) mig_op" where
  "write_version version last_applied s =
     (case versions s of
        None \<Rightarrow> (Inl (Failed (from_sqlx (Database (Some ''42P01'')
                   ''relation dbos_migrations does not exist''))), s)
      | Some rows \<Rightarrow>
          (let new = (if last_applied = 0 then rows @ [version] else map (\<lambda>_. version) rows) in
           if distinct new then (Inr (), s\<lparr>versions := Some new\<rparr>)
           else (Inl (Failed (from_sqlx (Database (Some ''23505'')
                   ''duplicate key value violates unique constraint dbos_migrations_pkey''))), s)))"

text \<open>Phase A: the schema, the table and the version read, in one transaction.\<close>

definition prepare :: "('c, int) mig_op" where
  "prepare = commit (\<lambda>s.
     let s1 = (if schema_exists s then s else s\<lparr>has_schema := True\<rparr>);
         s2 = (if migrations_table_exists s1 then s1 else s1\<lparr>versions := Some []\<rparr>)
     in (Inr (read_version s2), s2))"

definition drop_invalid :: "string \<Rightarrow> string \<Rightarrow> string" where
  "drop_invalid schema name =
     ''DROP INDEX CONCURRENTLY IF EXISTS '' @ sanitize_ident schema @ ''.'' @ sanitize_ident name"

fun drop_all :: "'c postgres \<Rightarrow> string \<Rightarrow> string list \<Rightarrow> ('c, unit) mig_op" where
  "drop_all pg schema [] = ret ()"
| "drop_all pg schema (n # ns) =
     andthen (autocommit pg (drop_invalid schema n)) (\<lambda>_. drop_all pg schema ns)"

definition cleanup_invalid_indexes :: "'c postgres \<Rightarrow> string \<Rightarrow> ('c, unit) mig_op" where
  "cleanup_invalid_indexes pg schema s = drop_all pg schema (invalid_indexes pg (catalog s)) s"

text \<open>Phase B: the loop over the migrations.\<close>

fun apply_migrations ::
  "'c postgres \<Rightarrow> string \<Rightarrow> Migration list \<Rightarrow> int \<Rightarrow> bool \<Rightarrow> ('c, unit) mig_op" where
  "apply_migrations pg schema [] current cleaned = ret ()"
| "apply_migrations pg schema (m # ms) current cleaned =
     (if mig_version m \<le> current then apply_migrations pg schema ms current cleaned
      else if mig_online m then
        andthen (if cleaned then ret () else cleanup_invalid_indexes pg schema) (\<lambda>_.
        andthen (autocommit pg (mig_sql m)) (\<lambda>_.
        andthen (commit (write_version (mig_version m) current)) (\<lambda>_.
          apply_migrations pg schema ms (mig_version m) True)))
      else
        andthen (commit (andthen (if trim (mig_sql m) = [] then ret () else execute pg (mig_sql m))
                           (\<lambda>_. write_version (mig_version m) current))) (\<lambda>_.
          apply_migrations pg schema ms (mig_version m) cleaned))"

definition run_migrations :: "'c postgres \<Rightarrow> files \<Rightarrow> string \<Rightarrow> ('c, unit) mig_op" where
  "run_migrations pg files schema =
     andthen prepare (\<lambda>current.
       apply_migrations pg schema (build_migrations files schema) current False)"

subsection \<open>Rendering\<close>

text \<open>A template is a sequence of characters and slots; in the file a percent sign is doubled.\<close>

datatype piece = Lit char | Slot

fun template_text :: "piece list \<Rightarrow> string" where
  "template_text [] = []"
| "template_text (Lit c # ps) = (if c = CHR 0x25 then [c, c] else [c]) @ template_text ps"
| "template_text (Slot # ps) = ''%s'' @ template_text ps"

fun fill :: "('s \<Rightarrow> string \<times> 's) \<Rightarrow> 's \<Rightarrow> piece list \<Rightarrow> string" where
  "fill arg st [] = []"
| "fill arg st (Lit c # ps) = c # fill arg st ps"
| "fill arg st (Slot # ps) = fst (arg st) @ fill arg (snd (arg st)) ps"

lemma render_template: "render arg st (template_text ps) = fill arg st ps"
  by (induction arg st ps rule: fill.induct) simp_all

definition filled :: "string \<Rightarrow> piece list \<Rightarrow> string" where
  "filled arg ps = concat (map (\<lambda>p. case p of Lit c \<Rightarrow> [c] | Slot \<Rightarrow> arg) ps)"

lemma fill_rest: "fill (\<lambda>used. if used then (rest, used) else (first, True)) True ps = filled rest ps"
  by (induction ps) (auto simp: filled_def split: piece.splits)

lemma fill_first:
  "Slot \<notin> set pre \<Longrightarrow>
   fill (\<lambda>used. if used then (rest, used) else (first, True)) False (pre @ Slot # post) =
   filled rest pre @ first @ filled rest post"
proof (induction pre)
  case Nil
  then show ?case by (simp add: fill_rest) (simp add: filled_def)
next
  case (Cons p pre)
  then show ?case by (cases p) (simp_all add: filled_def)
qed

text \<open>
  Rendering is substitution: for the text of any template, every slot of a uniform rendering is
  the schema, and in the other rendering the first slot is the first argument and every later slot
  the other one; a doubled percent sign is a single one, and nothing inserted is looked at again.
\<close>
theorem render_fills_slots:
  "render_uniform (template_text ps) schema = filled schema ps \<and>
   (Slot \<notin> set pre \<longrightarrow>
    render_first_rest (template_text (pre @ Slot # post)) first rest =
    filled rest pre @ first @ filled rest post)"
proof (intro conjI impI)
  have "fill (\<lambda>_. (schema, ())) u ps = filled schema ps" for u
    by (induction ps arbitrary: u) (auto simp: filled_def split: piece.splits)
  then show "render_uniform (template_text ps) schema = filled schema ps"
    by (simp add: render_uniform_def render_template)
  assume "Slot \<notin> set pre"
  then show "render_first_rest (template_text (pre @ Slot # post)) first rest =
      filled rest pre @ first @ filled rest post"
    unfolding render_first_rest_def render_template by (rule fill_first)
qed

theorem render_fills_slots_witness:
  "render_first_rest (template_text (map Lit ''DROP INDEX '' @ Slot # [Lit CHR '' '', Slot, Lit CHR 0x25]))
     ''CONCURRENTLY'' ''%s'' = ''DROP INDEX CONCURRENTLY %s%''"
proof -
  have no: "Slot \<notin> set (map Lit ''DROP INDEX '')" by auto
  show ?thesis
    using render_fills_slots [of "[]" "[]" "map Lit ''DROP INDEX ''" "[Lit CHR '' '', Slot, Lit CHR 0x25]"
        "''CONCURRENTLY''" "''%s''"] no
    by (simp add: filled_def)
qed

subsection \<open>The versions\<close>

definition ONLINE_VERSIONS :: "int list" where
  "ONLINE_VERSIONS = [22, 23, 24, 25, 26, 27, 29, 30, 31, 32, 34, 35, 37]"

lemma build_migrations_versions:
  "map (\<lambda>m. (mig_version m, mig_online m)) (build_migrations files schema) =
   map (\<lambda>v. (v, v \<in> set ONLINE_VERSIONS)) [1..40]"
  by (simp add: build_migrations_def SIMPLE_defs Let_def sort_key_def upto.simps ONLINE_VERSIONS_def)

lemma sort_mem_sql:
  "m \<in> set (build_migrations files schema) \<Longrightarrow> mig_version m = 10 \<Longrightarrow>
   mig_sql m = render_first_rest M10 schema (sanitize_ident schema)"
  by (auto simp: build_migrations_def SIMPLE_defs Let_def)

text \<open>
  The migrations run in the order 1 to 40, each version once and the last one the version
  \<open>should_migrate\<close> compares with, and exactly the thirteen index migrations run outside a
  transaction.
\<close>
theorem migrations_in_order:
  "map mig_version (build_migrations files schema) = [1..SCHEMA_VERSION] \<and>
   map mig_version (filter mig_online (build_migrations files schema)) = ONLINE_VERSIONS"
proof -
  let ?ms = "build_migrations files schema"
  have vs: "map mig_version ?ms = map fst (map (\<lambda>m. (mig_version m, mig_online m)) ?ms)" by simp
  have "map mig_version (filter mig_online ?ms) =
      map fst (filter snd (map (\<lambda>m. (mig_version m, mig_online m)) ?ms))"
    by (simp add: filter_map comp_def)
  also have "\<dots> = ONLINE_VERSIONS"
    unfolding build_migrations_versions by (simp add: ONLINE_VERSIONS_def upto.simps)
  finally show ?thesis unfolding vs build_migrations_versions
    by (simp add: SCHEMA_VERSION_def comp_def)
qed

subsection \<open>The raw schema name of migration 10\<close>

text \<open>
  Migration 10 compares \<open>pg_namespace.nspname\<close> with a string constant made from the schema name as
  it is. The reader is the server's lexical rule for the constant, after its opening quote.
\<close>

fun read_literal :: "string \<Rightarrow> (string \<times> string) option" where
  "read_literal [] = None"
| "read_literal (c # cs) =
     (if c \<noteq> CHR 0x27 then map_option (\<lambda>(i, r). (c # i, r)) (read_literal cs)
      else (case cs of
              [] \<Rightarrow> Some ([], [])
            | d # ds \<Rightarrow> (if d = CHR 0x27 then map_option (\<lambda>(i, r). (CHR 0x27 # i, r)) (read_literal ds)
                        else Some ([], cs))))"

definition doubled :: "string \<Rightarrow> string" where
  "doubled s = concat (map (\<lambda>c. if c = CHR 0x27 then [c, c] else [c]) s)"

lemma read_literal_doubled: "read_literal s = Some (l, r) \<Longrightarrow> s = doubled l @ CHR 0x27 # r"
  by (induction s arbitrary: l r rule: read_literal.induct)
    (auto simp: doubled_def split: if_splits list.splits)

lemma read_literal_plain:
  "CHR 0x27 \<notin> set s \<Longrightarrow> post = [] \<or> hd post \<noteq> CHR 0x27 \<Longrightarrow>
   read_literal (s @ CHR 0x27 # post) = Some (s, post)"
  by (induction s) (auto split: list.splits)

lemma quotes_not_doubled:
  "post \<noteq> [] \<Longrightarrow> hd post \<noteq> CHR 0x27 \<Longrightarrow> 0 < n \<Longrightarrow>
   b @ CHR 0x27 # post \<noteq> replicate n (CHR 0x27) @ doubled b @ CHR 0x27 # r"
proof (induction b arbitrary: n)
  case Nil
  then show ?case by (cases n; cases "n - 1") (auto simp: doubled_def)
next
  case (Cons c b)
  obtain k where n: "n = Suc k" using Cons.prems(3) by (cases n) auto
  have "b @ CHR 0x27 # post \<noteq> replicate (k + 2) (CHR 0x27) @ doubled b @ CHR 0x27 # r"
    by (rule Cons.IH) (use Cons.prems in auto)
  moreover have "replicate k (CHR 0x27) @ CHR 0x27 # CHR 0x27 # xs = replicate (k + 2) (CHR 0x27) @ xs" for xs
    by (induction k) auto
  ultimately show ?case by (auto simp: n doubled_def)
qed

lemma quote_not_doubled:
  assumes "post \<noteq> []" and "hd post \<noteq> CHR 0x27"
  shows "CHR 0x27 \<in> set s \<Longrightarrow> s @ CHR 0x27 # post \<noteq> doubled s @ CHR 0x27 # r"
proof (induction s)
  case (Cons c s)
  then show ?case
    using quotes_not_doubled [OF assms, of 1 s r] by (cases "c = CHR 0x27") (auto simp: doubled_def)
qed simp

lemma render_plain: "CHR 0x25 \<notin> set pre \<Longrightarrow> render arg st (pre @ t) = pre @ render arg st t"
  by (induction pre) auto

lemma M10_rendered:
  "\<exists>post. \<forall>schema. render_first_rest M10 schema rest =
     M10_before @ schema @ CHR 0x27 # CHR 0x0A # post"
proof -
  have "CHR 0x25 \<notin> set M10_before" by (simp add: M10_before_def)
  moreover have "\<exists>post. \<forall>schema. render (\<lambda>used. if used then (rest, used) else (schema, True)) True M10_after =
      CHR 0x27 # CHR 0x0A # post"
    by (simp add: M10_after_def)
  ultimately show ?thesis by (auto simp: render_first_rest_def M10_def render_plain)
qed

text \<open>
  Migration 10 can compare the catalog with the schema name only when the name contains no
  single quote: the constant of its rendered text, which opens at the end of the fixed part, then
  reads back as the name. With a single quote in the name, which \<open>sanitize_ident\<close> handles in
  every other statement, the constant the server reads is never the name.
\<close>
theorem migration_10_misquotes:
  assumes "m \<in> set (build_migrations files schema)" and "mig_version m = 10"
  shows "\<exists>post. mig_sql m = M10_before @ post \<and>
    (map_option fst (read_literal post) = Some schema \<longleftrightarrow> CHR 0x27 \<notin> set schema)"
proof -
  obtain post where sql: "mig_sql m = M10_before @ schema @ CHR 0x27 # CHR 0x0A # post"
    using M10_rendered [of "sanitize_ident schema"] sort_mem_sql [OF assms] by metis
  have "map_option fst (read_literal (schema @ CHR 0x27 # CHR 0x0A # post)) \<noteq> Some schema"
    if "CHR 0x27 \<in> set schema"
    using read_literal_doubled quote_not_doubled [of "CHR 0x0A # post", OF _ _ that] by fastforce
  then show ?thesis
    using sql read_literal_plain [of schema "CHR 0x0A # post"] by fastforce
qed

theorem migration_10_misquotes_witness:
  "\<exists>m post. m \<in> set (build_migrations (\<lambda>_. []) [CHR ''o'', CHR 0x27, CHR ''b'']) \<and>
     mig_sql m = M10_before @ post \<and>
     map_option fst (read_literal post) \<noteq> Some [CHR ''o'', CHR 0x27, CHR ''b'']"
proof -
  let ?schema = "[CHR ''o'', CHR 0x27, CHR ''b'']"
  have "10 \<in> set (map mig_version (build_migrations (\<lambda>_. []) ?schema))"
    by (simp add: build_migrations_def SIMPLE_defs Let_def)
  then obtain m where m: "m \<in> set (build_migrations (\<lambda>_. []) ?schema)" "mig_version m = 10"
    by auto
  show ?thesis using migration_10_misquotes [OF m] m(1) by auto
qed

subsection \<open>Crashes\<close>

text \<open>
  What the runner relies on. \<open>dirty c' c\<close>: the catalog \<open>c'\<close> is \<open>c\<close> but for invalid indexes; dropping
  the first of them keeps that and takes it off the list, and so does a drop that was interrupted,
  but for the list. A migration leads from the catalog of its predecessor to its own; an online one
  is guarded by \<open>IF [NOT] EXISTS\<close>, so a second execution changes nothing, and interrupted it leaves
  the catalog before it or after it, with invalid indexes.
\<close>

definition repairs :: "'c postgres \<Rightarrow> string \<Rightarrow> ('c \<Rightarrow> 'c \<Rightarrow> bool) \<Rightarrow> bool" where
  "repairs pg schema dirty \<longleftrightarrow>
     (\<forall>c' c. dirty c' c \<longrightarrow>
        (case invalid_indexes pg c' of
           [] \<Rightarrow> c' = c
         | n # ns \<Rightarrow>
             dirty (torn pg (drop_invalid schema n) c') c \<and>
             (\<exists>c''. run_sql pg (drop_invalid schema n) c' = Inr c'' \<and> dirty c'' c \<and>
                    invalid_indexes pg c'' = ns)))"

definition scripted :: "'c postgres \<Rightarrow> ('c \<Rightarrow> 'c \<Rightarrow> bool) \<Rightarrow> (int \<Rightarrow> 'c) \<Rightarrow> Migration \<Rightarrow> bool" where
  "scripted pg dirty stage m \<longleftrightarrow>
     (if mig_online m then
        run_sql pg (mig_sql m) (stage (mig_version m - 1)) = Inr (stage (mig_version m)) \<and>
        run_sql pg (mig_sql m) (stage (mig_version m)) = Inr (stage (mig_version m)) \<and>
        (dirty (torn pg (mig_sql m) (stage (mig_version m - 1))) (stage (mig_version m - 1)) \<or>
         dirty (torn pg (mig_sql m) (stage (mig_version m - 1))) (stage (mig_version m))) \<and>
        dirty (torn pg (mig_sql m) (stage (mig_version m))) (stage (mig_version m))
      else if trim (mig_sql m) = [] then stage (mig_version m) = stage (mig_version m - 1)
      else run_sql pg (mig_sql m) (stage (mig_version m - 1)) = Inr (stage (mig_version m)))"

text \<open>A database at version \<open>k\<close>, possibly left by a process that died in the middle of the next one.\<close>

definition at_version ::
  "('c \<Rightarrow> 'c \<Rightarrow> bool) \<Rightarrow> (int \<Rightarrow> 'c) \<Rightarrow> int \<Rightarrow> 'c server \<Rightarrow> bool" where
  "at_version dirty stage k s \<longleftrightarrow>
     (case versions s of None \<Rightarrow> k = 0 | Some rows \<Rightarrow> rows = (if k = 0 then [] else [k])) \<and>
     (\<not> has_schema s \<longrightarrow> versions s = None) \<and>
     (if k + 1 \<in> set ONLINE_VERSIONS
      then dirty (catalog s) (stage k) \<or> dirty (catalog s) (stage (k + 1))
      else catalog s = stage k)"

lemma prepare_at:
  assumes "at_version dirty stage k s" and "prepare s = (r, s')"
  shows "at_version dirty stage k s' \<and>
    (r = Inl Died \<and> lives s \<noteq> None \<or> r = Inr k \<and> versions s' \<noteq> None \<and> (lives s = None \<longrightarrow> lives s' = None))"
  using assms
  by (auto simp: prepare_def commit_def transaction_def at_version_def tick_def Let_def read_version_def
      read_version_opt_def unwrap_or_def split: if_splits option.splits)

lemma repairsD:
  "repairs pg schema dirty \<Longrightarrow> dirty c' c \<Longrightarrow> invalid_indexes pg c' = n # ns \<Longrightarrow>
   dirty (torn pg (drop_invalid schema n) c') c \<and>
   (\<exists>c''. run_sql pg (drop_invalid schema n) c' = Inr c'' \<and> dirty c'' c \<and> invalid_indexes pg c'' = ns)"
  unfolding repairs_def by (drule spec [of _ c'], drule spec [of _ c]) simp

lemma drop_all_repairs:
  assumes "repairs pg schema dirty"
  shows "dirty (catalog s) c \<Longrightarrow> invalid_indexes pg (catalog s) = ns \<Longrightarrow>
    drop_all pg schema ns s = (r, s') \<Longrightarrow>
    versions s' = versions s \<and> has_schema s' = has_schema s \<and> (lives s = None \<longrightarrow> lives s' = None) \<and>
    (r = Inl Died \<and> lives s \<noteq> None \<and> dirty (catalog s') c \<or> r = Inr () \<and> catalog s' = c)"
proof (induction ns arbitrary: s)
  case Nil
  with assms show ?case by (force simp: repairs_def ret_def)
next
  case (Cons n ns)
  let ?d = "drop_invalid schema n"
  obtain c'' where torn: "dirty (torn pg ?d (catalog s)) c"
    and run: "run_sql pg ?d (catalog s) = Inr c''" "dirty c'' c" "invalid_indexes pg c'' = ns"
    using repairsD [OF assms Cons.prems(1,2)] by auto
  show ?case
  proof (cases "lives s = Some 0")
    case True
    with Cons.prems(3) torn show ?thesis by (auto simp: autocommit_def andthen_apply)
  next
    case False
    let ?s = "(tick s)\<lparr>catalog := c''\<rparr>"
    have "drop_all pg schema ns ?s = (r, s')"
      using Cons.prems(3) False run(1) by (simp add: autocommit_def andthen_apply execute_def tick_def)
    from Cons.IH [OF _ _ this] run show ?thesis by (simp add: tick_def)
  qed
qed

lemma cleanup_repairs:
  assumes "repairs pg schema dirty" and "dirty (catalog s) c"
    and "cleanup_invalid_indexes pg schema s = (r, s')"
  shows "versions s' = versions s \<and> has_schema s' = has_schema s \<and> (lives s = None \<longrightarrow> lives s' = None) \<and>
    (r = Inl Died \<and> lives s \<noteq> None \<and> dirty (catalog s') c \<or> r = Inr () \<and> catalog s' = c)"
  by (rule drop_all_repairs [OF assms(1,2) refl]) (use assms(3) in \<open>simp add: cleanup_invalid_indexes_def\<close>)

lemma write_version_at:
  assumes "versions s = Some (if k = 0 then [] else [k])"
  shows "write_version v k s = (Inr (), s\<lparr>versions := Some [v]\<rparr>)"
  using assms by (auto simp: write_version_def Let_def)


text \<open>One migration of either mode: it is done, or the process died at a state to resume from.\<close>

definition resumes :: "('c \<Rightarrow> 'c \<Rightarrow> bool) \<Rightarrow> (int \<Rightarrow> 'c) \<Rightarrow> int \<Rightarrow> int \<Rightarrow> 'c server \<Rightarrow> (stop + unit) \<times> 'c server \<Rightarrow> bool" where
  "resumes dirty stage k n s res \<longleftrightarrow>
     (\<exists>j. k \<le> j \<and> j \<le> n \<and> at_version dirty stage j (snd res) \<and> (fst res = Inr () \<longrightarrow> j = n)) \<and>
     (fst res = Inr () \<or> fst res = Inl Died \<and> lives s \<noteq> None)"

lemma resumes_died:
  "at_version dirty stage k s' \<Longrightarrow> k \<le> n \<Longrightarrow> lives s \<noteq> None \<Longrightarrow> resumes dirty stage k n s (Inl Died, s')"
  by (auto simp: resumes_def)

lemma resumes_later:
  "resumes dirty stage j n s1 res \<Longrightarrow> k \<le> j \<Longrightarrow> (lives s = None \<longrightarrow> lives s1 = None) \<Longrightarrow>
   resumes dirty stage k n s res"
  unfolding resumes_def by (elim conjE exE, intro conjI exI) auto

lemma lives_tick [simp]: "lives (tick s) = map_option (\<lambda>n. n - 1) (lives s)"
  and tick_keeps [simp]: "versions (tick s) = versions s" "has_schema (tick s) = has_schema s"
    "catalog (tick s) = catalog s"
  by (simp_all add: tick_def)

definition reached :: "('c \<Rightarrow> 'c \<Rightarrow> bool) \<Rightarrow> (int \<Rightarrow> 'c) \<Rightarrow> int \<Rightarrow> 'c server \<Rightarrow> (stop + unit) \<times> 'c server \<Rightarrow> bool" where
  "reached dirty stage k s res \<longleftrightarrow>
     fst res = Inl Died \<and> lives s \<noteq> None \<and> at_version dirty stage k (snd res) \<or>
     fst res = Inr () \<and> at_version dirty stage (k + 1) (snd res) \<and> versions (snd res) \<noteq> None \<and>
       catalog (snd res) = stage (k + 1) \<and> (lives s = None \<longrightarrow> lives (snd res) = None)"

lemma reached_later:
  "reached dirty stage k s1 res \<Longrightarrow> (lives s = None \<Longrightarrow> lives s1 = None) \<Longrightarrow> reached dirty stage k s res"
  unfolding reached_def by (elim disjE) auto

lemma at_version_moved:
  "at_version dirty stage k s \<Longrightarrow> versions s' = versions s \<Longrightarrow> has_schema s' = has_schema s \<Longrightarrow>
   k + 1 \<in> set ONLINE_VERSIONS \<Longrightarrow> dirty (catalog s') (stage k) \<or> dirty (catalog s') (stage (k + 1)) \<Longrightarrow>
   at_version dirty stage k s'"
  by (simp add: at_version_def)

lemma commit_version_reached:
  fixes stage :: "int \<Rightarrow> 'c"
  assumes start: "\<And>v. dirty (stage v) (stage v)" and "0 \<le> k"
    and at: "at_version dirty stage k s" and "versions s \<noteq> None"
    and online: "k + 1 \<in> set ONLINE_VERSIONS" and cat: "catalog s = stage (k + 1)"
  shows "reached dirty stage k s (commit (write_version (k + 1) k) s)"
proof -
  have vs: "versions s = Some (if k = 0 then [] else [k])" and "has_schema s"
    using at \<open>versions s \<noteq> None\<close> by (auto simp: at_version_def split: option.splits)
  then have "at_version dirty stage (k + 1) ((tick s)\<lparr>versions := Some [k + 1]\<rparr>)"
    using start cat \<open>0 \<le> k\<close> by (simp add: at_version_def)
  then show ?thesis
    using at cat vs by (auto simp: reached_def commit_def transaction_def write_version_at)
qed

lemma online_reached:
  fixes stage :: "int \<Rightarrow> 'c"
  assumes rep: "repairs pg schema dirty" and start: "\<And>v. dirty (stage v) (stage v)" and k: "0 \<le> k"
    and at: "at_version dirty stage k s" and vs: "versions s \<noteq> None"
    and online: "mig_online m" "k + 1 \<in> set ONLINE_VERSIONS" "mig_version m = k + 1"
    and sc: "scripted pg dirty stage m" and cl: "cleaned \<Longrightarrow> catalog s = stage k"
  shows "reached dirty stage k s
    (andthen (if cleaned then ret () else cleanup_invalid_indexes pg schema) (\<lambda>_.
     andthen (autocommit pg (mig_sql m)) (\<lambda>_. commit (write_version (k + 1) k))) s)"
proof -
  obtain c where c: "c = stage k \<or> c = stage (k + 1)" and d: "dirty (catalog s) c"
    and cl': "cleaned \<Longrightarrow> catalog s = c"
    using at online(2) start cl by (cases cleaned) (auto simp: at_version_def)
  obtain r1 s1 where one: "(if cleaned then ret () else cleanup_invalid_indexes pg schema) s = (r1, s1)"
    by fastforce
  have s1: "versions s1 = versions s" "has_schema s1 = has_schema s" "lives s = None \<Longrightarrow> lives s1 = None"
    and r1: "r1 = Inl Died \<and> lives s \<noteq> None \<and> dirty (catalog s1) c \<or> r1 = Inr () \<and> catalog s1 = c"
    using one cleanup_repairs [OF rep d, of r1 s1] cl' by (auto simp: ret_def split: if_splits)
  have at1: "at_version dirty stage k s1" if "dirty (catalog s1) c"
    by (rule at_version_moved [OF at]) (use s1 c online(2) that in auto)
  have sql: "run_sql pg (mig_sql m) c = Inr (stage (k + 1))"
    and torn: "dirty (torn pg (mig_sql m) c) (stage k) \<or> dirty (torn pg (mig_sql m) c) (stage (k + 1))"
    using sc c online by (auto simp: scripted_def)
  show ?thesis
  proof (cases "r1 = Inr ()")
    case False
    then show ?thesis using r1 at1 one by (auto simp: reached_def andthen_apply)
  next
    case True
    then have cat: "catalog s1 = c" using r1 by auto
    have at1': "at_version dirty stage k s1" using at1 c start cat by auto
    show ?thesis
    proof (cases "lives s1 = Some 0")
      case dead: True
      have "at_version dirty stage k (s1\<lparr>catalog := torn pg (mig_sql m) (catalog s1)\<rparr>)"
        by (rule at_version_moved [OF at1']) (use online(2) torn cat in auto)
      then show ?thesis using True one dead s1 by (auto simp: reached_def andthen_apply autocommit_def)
    next
      case False
      let ?s = "(tick s1)\<lparr>catalog := stage (k + 1)\<rparr>"
      have "at_version dirty stage k ?s"
        by (rule at_version_moved [OF at1']) (use online(2) start in auto)
      then have "reached dirty stage k ?s (commit (write_version (k + 1) k) ?s)"
        by (intro commit_version_reached start) (use k vs s1 online(2) in auto)
      then have "reached dirty stage k s (commit (write_version (k + 1) k) ?s)"
        by (rule reached_later) (use s1 in simp)
      then show ?thesis
        using True one False cat sql
        by (simp add: andthen_apply autocommit_def execute_def)
    qed
  qed
qed

lemma catalog_reached:
  fixes stage :: "int \<Rightarrow> 'c"
  assumes start: "\<And>v. dirty (stage v) (stage v)" and k: "0 \<le> k"
    and at: "at_version dirty stage k s" and vs: "versions s \<noteq> None"
    and offline: "\<not> mig_online m" "k + 1 \<notin> set ONLINE_VERSIONS" "mig_version m = k + 1"
    and sc: "scripted pg dirty stage m"
  shows "reached dirty stage k s
    (commit (andthen (if trim (mig_sql m) = [] then ret () else execute pg (mig_sql m))
       (\<lambda>_. write_version (k + 1) k)) s)"
proof (cases "lives s = Some 0")
  case True
  then show ?thesis using at by (auto simp: reached_def commit_def)
next
  case False
  have rows: "versions s = Some (if k = 0 then [] else [k])" and hs: "has_schema s" and cat: "catalog s = stage k"
    using at vs offline(2) by (auto simp: at_version_def split: option.splits)
  have body: "(if trim (mig_sql m) = [] then ret () else execute pg (mig_sql m)) (tick s) =
      (Inr (), (tick s)\<lparr>catalog := stage (k + 1)\<rparr>)"
    using sc offline cat by (auto simp: scripted_def ret_def execute_def tick_def split: if_splits)
  let ?s = "(tick s)\<lparr>catalog := stage (k + 1), versions := Some [k + 1]\<rparr>"
  have "write_version (k + 1) k ((tick s)\<lparr>catalog := stage (k + 1)\<rparr>) = (Inr (), ?s)"
    by (subst write_version_at) (use rows in auto)
  then have "commit (andthen (if trim (mig_sql m) = [] then ret () else execute pg (mig_sql m))
       (\<lambda>_. write_version (k + 1) k)) s = (Inr (), ?s)"
    using False body by (simp add: commit_def transaction_def andthen_apply)
  moreover have "at_version dirty stage (k + 1) ?s"
    using hs k start by (simp add: at_version_def)
  ultimately show ?thesis by (simp add: reached_def)
qed

lemma reached_resumes:
  assumes "reached dirty stage k s (m s)" and "k + 1 \<le> n"
    and rest: "\<And>s'. at_version dirty stage (k + 1) s' \<Longrightarrow> versions s' \<noteq> None \<Longrightarrow> catalog s' = stage (k + 1) \<Longrightarrow>
      resumes dirty stage (k + 1) n s' (f s')"
  shows "resumes dirty stage k n s (andthen m (\<lambda>_. f) s)"
proof (cases "m s")
  case (Pair r s')
  from assms(1) consider "r = Inl Died" "lives s \<noteq> None" "at_version dirty stage k s'"
    | "r = Inr ()" "at_version dirty stage (k + 1) s'" "versions s' \<noteq> None" "catalog s' = stage (k + 1)"
      "lives s = None \<longrightarrow> lives s' = None"
    by (auto simp: reached_def Pair)
  then show ?thesis
  proof cases
    case 1
    then show ?thesis using resumes_died assms(2) by (fastforce simp: andthen_apply Pair)
  next
    case 2
    then show ?thesis using resumes_later [OF rest] by (simp add: andthen_apply Pair)
  qed
qed

lemma andthen_assoc: "andthen (andthen m f) g = andthen m (\<lambda>a. andthen (f a) g)"
  by (rule ext) (auto simp: andthen_apply split: prod.splits sum.splits)

lemma apply_migrations_resumes:
  fixes stage :: "int \<Rightarrow> 'c"
  assumes rep: "repairs pg schema dirty" and start: "\<And>v. dirty (stage v) (stage v)"
  shows "map mig_version ms = [j + 1..n] \<Longrightarrow> (\<And>m. m \<in> set ms \<Longrightarrow> k < mig_version m \<Longrightarrow> scripted pg dirty stage m) \<Longrightarrow>
    (\<And>m. m \<in> set ms \<Longrightarrow> mig_online m = (mig_version m \<in> set ONLINE_VERSIONS)) \<Longrightarrow>
    n + 1 \<notin> set ONLINE_VERSIONS \<Longrightarrow> 0 \<le> j \<Longrightarrow>
    j \<le> k \<Longrightarrow> k \<le> n \<Longrightarrow> at_version dirty stage k s \<Longrightarrow> versions s \<noteq> None \<Longrightarrow>
    (cleaned \<Longrightarrow> catalog s = stage k) \<Longrightarrow>
    resumes dirty stage k n s (apply_migrations pg schema ms k cleaned s)"
proof (induction ms arbitrary: j k s cleaned)
  case Nil
  then have "k = n" by (cases "j < n") (auto simp: upto.simps)
  with Nil show ?case by (auto simp: resumes_def ret_def)
next
  case (Cons m ms)
  have jn: "j + 1 \<le> n" and v: "mig_version m = j + 1" and vs: "map mig_version ms = [(j + 1) + 1..n]"
    using Cons.prems(1) by (cases "j + 1 \<le> n"; simp add: upto.simps [of "j + 1"])+
  note IH = Cons.IH [OF vs]
  show ?case
  proof (cases "j + 1 \<le> k")
    case True
    have "resumes dirty stage k n s (apply_migrations pg schema ms k cleaned s)"
      by (rule IH) (use Cons.prems True in auto)
    then show ?thesis using v True by simp
  next
    case False
    then have k: "k = j" using Cons.prems by simp
    have sc: "scripted pg dirty stage m" using Cons.prems v k by simp
    have on: "mig_online m = (j + 1 \<in> set ONLINE_VERSIONS)" using Cons.prems v by simp
    show ?thesis
    proof (cases "mig_online m")
      case True
      have "reached dirty stage k s
        (andthen (if cleaned then ret () else cleanup_invalid_indexes pg schema) (\<lambda>_.
         andthen (autocommit pg (mig_sql m)) (\<lambda>_. commit (write_version (k + 1) k))) s)"
        by (rule online_reached [where dirty = dirty and stage = stage])
          (use Cons.prems True on k v sc rep start in auto)
      then have "resumes dirty stage k n s (andthen (andthen
          (if cleaned then ret () else cleanup_invalid_indexes pg schema) (\<lambda>_.
         andthen (autocommit pg (mig_sql m)) (\<lambda>_. commit (write_version (k + 1) k))))
         (\<lambda>_. apply_migrations pg schema ms (k + 1) True) s)"
        by (rule reached_resumes) (use IH Cons.prems jn k in auto)
      then show ?thesis using True k v by (simp add: andthen_assoc)
    next
      case False
      have "reached dirty stage k s
        (commit (andthen (if trim (mig_sql m) = [] then ret () else execute pg (mig_sql m))
           (\<lambda>_. write_version (k + 1) k)) s)"
        by (rule catalog_reached [where dirty = dirty and stage = stage])
          (use Cons.prems False on k v sc start in auto)
      then have "resumes dirty stage k n s (andthen
          (commit (andthen (if trim (mig_sql m) = [] then ret () else execute pg (mig_sql m))
            (\<lambda>_. write_version (k + 1) k)))
          (\<lambda>_. apply_migrations pg schema ms (k + 1) cleaned) s)"
        by (rule reached_resumes) (use IH Cons.prems jn k in auto)
      then show ?thesis using False k v by simp
    qed
  qed
qed


definition fresh_server :: "'c \<Rightarrow> 'c server" where
  "fresh_server c = \<lparr>has_schema = False, versions = None, catalog = c, lives = None\<rparr>"

lemma at_version_lives [simp]: "at_version dirty stage k (s\<lparr>lives := l\<rparr>) = at_version dirty stage k s"
  by (simp add: at_version_def)

text \<open>A launch whose process is killed after \<open>n\<close> commits.\<close>

definition killed_launch :: "'c postgres \<Rightarrow> files \<Rightarrow> string \<Rightarrow> nat \<Rightarrow> 'c server \<Rightarrow> 'c server" where
  "killed_launch pg files schema n s = snd (run_migrations pg files schema (s\<lparr>lives := Some n\<rparr>))"

lemma build_migrations_online:
  assumes "m \<in> set (build_migrations files schema)"
  shows "mig_online m = (mig_version m \<in> set ONLINE_VERSIONS)" and "mig_version m \<in> {1..40}"
proof -
  have "(mig_version m, mig_online m) \<in> set (map (\<lambda>m. (mig_version m, mig_online m)) (build_migrations files schema))"
    using assms by simp
  then show "mig_online m = (mig_version m \<in> set ONLINE_VERSIONS)" "mig_version m \<in> {1..40}"
    unfolding build_migrations_versions by auto
qed

lemma build_migrations_upto: "map mig_version (build_migrations files schema) = [0 + 1..40]"
proof -
  have "map mig_version (build_migrations files schema) =
      map fst (map (\<lambda>m. (mig_version m, mig_online m)) (build_migrations files schema))" by simp
  then show ?thesis unfolding build_migrations_versions by (simp add: comp_def)
qed

lemma run_migrations_resumes:
  fixes stage :: "int \<Rightarrow> 'c"
  assumes rep: "repairs pg schema dirty" and start: "\<And>v. dirty (stage v) (stage v)"
    and sc: "\<And>m. m \<in> set (build_migrations files schema) \<Longrightarrow> k < mig_version m \<Longrightarrow>
        scripted pg dirty stage m"
    and at: "at_version dirty stage k s" and k: "0 \<le> k" "k \<le> 40"
  shows "resumes dirty stage k 40 s (run_migrations pg files schema s)"
proof (cases "prepare s")
  case (Pair r s')
  have at': "at_version dirty stage k s'"
    and r: "r = Inl Died \<and> lives s \<noteq> None \<or> r = Inr k \<and> versions s' \<noteq> None \<and> (lives s = None \<longrightarrow> lives s' = None)"
    using prepare_at [OF at Pair] by simp_all
  have "resumes dirty stage k 40 s' (apply_migrations pg schema (build_migrations files schema) k False s')"
    if "versions s' \<noteq> None"
    by (rule apply_migrations_resumes [OF rep start build_migrations_upto])
      (use that at' k sc build_migrations_online in \<open>auto simp: ONLINE_VERSIONS_def\<close>)
  note rest = this
  from r show ?thesis
  proof (elim disjE conjE)
    assume "r = Inl Died" "lives s \<noteq> None"
    then show ?thesis
      using resumes_died [OF at' k(2)] by (simp add: run_migrations_def andthen_apply Pair)
  next
    assume "r = Inr k" "versions s' \<noteq> None" "lives s = None \<longrightarrow> lives s' = None"
    then show ?thesis
      using resumes_later [OF rest] by (simp add: run_migrations_def andthen_apply Pair)
  qed
qed

lemma killed_launches_at:
  fixes stage :: "int \<Rightarrow> 'c"
  assumes rep: "repairs pg schema dirty" and start: "\<And>v. dirty (stage v) (stage v)"
    and sc: "\<And>m. m \<in> set (build_migrations files schema) \<Longrightarrow> scripted pg dirty stage m"
  shows "\<exists>k. 0 \<le> k \<and> k \<le> 40 \<and> at_version dirty stage k s \<Longrightarrow>
    \<exists>k. 0 \<le> k \<and> k \<le> 40 \<and> at_version dirty stage k (fold (killed_launch pg files schema) kills s)"
proof (induction kills arbitrary: s)
  case (Cons n ns)
  then obtain k where k: "0 \<le> k" "k \<le> 40" and "at_version dirty stage k (s\<lparr>lives := Some n\<rparr>)"
    by auto
  then have "resumes dirty stage k 40 (s\<lparr>lives := Some n\<rparr>) (run_migrations pg files schema (s\<lparr>lives := Some n\<rparr>))"
    by (intro run_migrations_resumes rep start sc)
  then have "\<exists>k. 0 \<le> k \<and> k \<le> 40 \<and> at_version dirty stage k (killed_launch pg files schema n s)"
    using k(1) unfolding resumes_def killed_launch_def by (meson order_trans)
  from Cons.IH [OF this] show ?case by simp
qed simp

lemma apply_migrations_skip:
  "\<forall>m \<in> set ms. mig_version m \<le> k \<Longrightarrow> apply_migrations pg schema ms k cleaned s = (Inr (), s)"
  by (induction ms) (simp_all add: ret_def)

lemma run_migrations_done:
  assumes "has_schema s" and "versions s = Some [v]" and "40 \<le> v" and "lives s = None"
  shows "run_migrations pg files schema s = (Inr (), s)"
proof -
  have "tick s = s" using assms by (simp add: tick_def)
  then have "prepare s = (Inr v, s)"
    using assms by (simp add: prepare_def commit_def transaction_def Let_def read_version_def
        read_version_opt_def unwrap_or_def)
  moreover have "apply_migrations pg schema (build_migrations files schema) v False s = (Inr (), s)"
    by (rule apply_migrations_skip) (use build_migrations_online(2) assms in fastforce)
  ultimately show ?thesis by (simp add: run_migrations_def andthen_apply)
qed

text \<open>
  C15. Migration is crash safe: however often the launching process was killed before, between two
  commits or in the middle of an index statement, an undisturbed launch ends without error at the
  catalog of version 40 with the single version row 40, the same as a launch that was never
  disturbed; no migration is needed then and a further launch changes nothing.
\<close>
theorem migrations_survive_crashes:
  fixes stage :: "int \<Rightarrow> 'c"
  assumes "repairs pg schema dirty" and "\<And>v. dirty (stage v) (stage v)"
    and "\<And>m. m \<in> set (build_migrations files schema) \<Longrightarrow> scripted pg dirty stage m"
    and "run_migrations pg files schema
           ((fold (killed_launch pg files schema) kills (fresh_server (stage 0)))\<lparr>lives := None\<rparr>) = (r, s)"
  shows "r = Inr () \<and> versions s = Some [SCHEMA_VERSION] \<and> catalog s = stage SCHEMA_VERSION \<and>
    \<not> should_migrate s \<and>
    run_migrations pg files schema (s\<lparr>lives := None\<rparr>) = (Inr (), s\<lparr>lives := None\<rparr>)"
proof -
  let ?s = "(fold (killed_launch pg files schema) kills (fresh_server (stage 0)))\<lparr>lives := None\<rparr>"
  have "at_version dirty stage 0 (fresh_server (stage 0))"
    by (simp add: at_version_def fresh_server_def ONLINE_VERSIONS_def)
  then have "\<exists>k. 0 \<le> k \<and> k \<le> 40 \<and> at_version dirty stage k (fresh_server (stage 0))"
    by (intro exI [of _ 0]) simp
  then obtain k where k: "0 \<le> k" "k \<le> 40" and at: "at_version dirty stage k ?s"
    using killed_launches_at [OF assms(1-3), where s = "fresh_server (stage 0)" and kills = kills and files = files] by auto
  have "resumes dirty stage k 40 ?s (r, s)"
    using run_migrations_resumes [where files = files, OF assms(1-3) at k] assms(4) by simp
  then have r: "r = Inr ()" and at40: "at_version dirty stage 40 s" by (auto simp: resumes_def)
  have vs: "has_schema s" "versions s = Some [40]"
    using at40 by (auto simp: at_version_def split: option.splits)
  show ?thesis
  proof (intro conjI)
    show "versions s = Some [SCHEMA_VERSION]" using vs by (simp add: SCHEMA_VERSION_def)
    show "catalog s = stage SCHEMA_VERSION"
      using at40 by (simp add: at_version_def ONLINE_VERSIONS_def SCHEMA_VERSION_def)
    show "\<not> should_migrate s"
      using vs by (simp add: should_migrate_def SCHEMA_VERSION_def read_version_def read_version_opt_def unwrap_or_def)
    show "run_migrations pg files schema (s\<lparr>lives := None\<rparr>) = (Inr (), s\<lparr>lives := None\<rparr>)"
      by (rule run_migrations_done [of _ 40]) (use vs in auto)
  qed (rule r)
qed

text \<open>
  A server for the examples: the catalog is the set of executed statements and the number of invalid
  indexes; an interrupted index statement leaves one more of them.
\<close>

definition drop_idx :: string where
  "drop_idx = drop_invalid ''dbos'' ''idx''"

definition log_postgres :: "(string set \<times> nat) postgres" where
  "log_postgres =
     \<lparr>run_sql = (\<lambda>sql (done, n).
        if sql = drop_idx then Inr (done, n - 1)
        else if trim sql = [] then Inr (done, n) else Inr (insert sql done, n)),
      invalid_indexes = (\<lambda>(done, n). replicate n ''idx''),
      torn = (\<lambda>sql (done, n). if sql = drop_idx then (done, n) else (done, Suc n))\<rparr>"

definition same_log :: "string set \<times> nat \<Rightarrow> string set \<times> nat \<Rightarrow> bool" where
  "same_log c' c \<longleftrightarrow> fst c' = fst c \<and> snd c = 0"

definition log_stage :: "Migration list \<Rightarrow> int \<Rightarrow> string set \<times> nat" where
  "log_stage ms v = ({mig_sql m |m. m \<in> set ms \<and> mig_version m \<le> v \<and> trim (mig_sql m) \<noteq> []}, 0)"

lemma log_repairs: "repairs log_postgres ''dbos'' same_log"
  unfolding repairs_def
proof (intro allI impI)
  fix c' c assume d: "same_log c' c"
  obtain l n where "c' = (l, n)" by fastforce
  then show "case invalid_indexes log_postgres c' of [] \<Rightarrow> c' = c
    | nm # ns \<Rightarrow> same_log (torn log_postgres (drop_invalid ''dbos'' nm) c') c \<and>
        (\<exists>c''. run_sql log_postgres (drop_invalid ''dbos'' nm) c' = Inr c'' \<and> same_log c'' c \<and>
               invalid_indexes log_postgres c'' = ns)"
    using d by (cases n; cases c) (auto simp: log_postgres_def same_log_def drop_idx_def)
qed

lemma build_migrations_not_drop:
  "m \<in> set (build_migrations (\<lambda>f. f) schema) \<Longrightarrow> mig_sql m \<noteq> drop_idx"
  by (auto simp: build_migrations_def SIMPLE_defs Let_def render_uniform_def render_first_rest_def
      drop_idx_def drop_invalid_def M10_def M10_before_def)

lemma build_migrations_unique:
  "m \<in> set (build_migrations files schema) \<Longrightarrow> m' \<in> set (build_migrations files schema) \<Longrightarrow>
   mig_version m = mig_version m' \<Longrightarrow> m = m'"
proof -
  have "distinct (map mig_version (build_migrations files schema))"
    by (simp add: build_migrations_upto)
  then show "m \<in> set (build_migrations files schema) \<Longrightarrow> m' \<in> set (build_migrations files schema) \<Longrightarrow>
      mig_version m = mig_version m' \<Longrightarrow> m = m'"
    by (auto simp: distinct_map inj_on_def)
qed

lemma log_stage_step:
  assumes m: "m \<in> set (build_migrations files schema)"
  shows "fst (log_stage (build_migrations files schema) (mig_version m)) =
    (if trim (mig_sql m) = [] then id else insert (mig_sql m))
      (fst (log_stage (build_migrations files schema) (mig_version m - 1)))"
proof -
  have "m' = m \<or> mig_version m' \<le> mig_version m - 1"
    if "m' \<in> set (build_migrations files schema)" "mig_version m' \<le> mig_version m" for m'
    using build_migrations_unique [OF that(1) m] that(2) by linarith
  then show ?thesis using m by (auto simp: log_stage_def)
qed

lemma log_scripted:
  fixes schema :: string
  assumes m: "m \<in> set (build_migrations (\<lambda>f. f) schema)"
  shows "scripted log_postgres same_log (log_stage (build_migrations (\<lambda>f. f) schema)) m"
proof -
  let ?st = "log_stage (build_migrations (\<lambda>f. f) schema)"
  have "snd (?st v) = 0" for v by (simp add: log_stage_def)
  then have st: "?st v = (fst (?st v), 0)" for v by (metis prod.collapse)
  have nd: "mig_sql m \<noteq> drop_idx" by (rule build_migrations_not_drop [OF m])
  have step: "fst (?st (mig_version m)) = (if trim (mig_sql m) = [] then id else insert (mig_sql m))
      (fst (?st (mig_version m - 1)))" by (rule log_stage_step [OF m])
  show ?thesis
    using nd step st [of "mig_version m"] st [of "mig_version m - 1"]
    by (auto simp: scripted_def log_postgres_def same_log_def split: prod.splits if_splits)
qed

lemma log_fresh_migrates:
  "\<exists>s. run_migrations log_postgres (\<lambda>f. f) ''dbos''
     (fresh_server (log_stage (build_migrations (\<lambda>f. f) ''dbos'') 0)) = (Inr (), s)"
proof -
  let ?st = "log_stage (build_migrations (\<lambda>f. f) ''dbos'')"
  let ?s = "fresh_server (?st 0)"
  have at: "at_version same_log ?st 0 ?s"
    by (simp add: at_version_def fresh_server_def ONLINE_VERSIONS_def)
  have eq: "same_log (?st v) (?st v)" for v by (simp add: same_log_def log_stage_def)
  have "resumes same_log ?st 0 40 ?s (run_migrations log_postgres (\<lambda>f. f) ''dbos'' ?s)"
    by (rule run_migrations_resumes [OF log_repairs eq log_scripted at]) simp_all
  moreover have "lives ?s = None" by (simp add: fresh_server_def)
  ultimately show ?thesis by (cases "run_migrations log_postgres (\<lambda>f. f) ''dbos'' ?s") (auto simp: resumes_def)
qed

text \<open>Killed before the first commit, after 20 and after 23 of them (inside migration 22).\<close>

theorem migrations_survive_crashes_witness:
  "\<exists>s. run_migrations log_postgres (\<lambda>f. f) ''dbos''
     ((fold (killed_launch log_postgres (\<lambda>f. f) ''dbos'') [0, 20, 23]
        (fresh_server (log_stage (build_migrations (\<lambda>f. f) ''dbos'') 0)))\<lparr>lives := None\<rparr>) = (Inr (), s) \<and>
     versions s = Some [40]"
proof -
  let ?st = "log_stage (build_migrations (\<lambda>f. f) ''dbos'')"
  obtain r s where run: "run_migrations log_postgres (\<lambda>f. f) ''dbos''
     ((fold (killed_launch log_postgres (\<lambda>f. f) ''dbos'') [0, 20, 23]
        (fresh_server (?st 0)))\<lparr>lives := None\<rparr>) = (r, s)" by fastforce
  have "same_log (?st v) (?st v)" for v by (simp add: same_log_def log_stage_def)
  note ok = migrations_survive_crashes [OF log_repairs this log_scripted run]
  show ?thesis using run ok by (auto simp: SCHEMA_VERSION_def)
qed

subsection \<open>The recorded version\<close>

definition version_rows :: "int \<Rightarrow> int list option" where
  "version_rows k = Some (if k = 0 then [] else [k])"

lemma autocommit_versions: "autocommit pg sql s = (r, s') \<Longrightarrow> versions s' = versions s \<and> has_schema s' = has_schema s"
  by (auto simp: autocommit_def execute_def split: if_splits sum.splits)

lemma drop_all_versions:
  "drop_all pg schema ns s = (r, s') \<Longrightarrow> versions s' = versions s \<and> has_schema s' = has_schema s"
proof (induction ns arbitrary: s)
  case (Cons n ns)
  obtain r1 s1 where one: "autocommit pg (drop_invalid schema n) s = (r1, s1)" by fastforce
  show ?case using Cons autocommit_versions [OF one] one by (cases r1) (auto simp: andthen_apply)
qed (simp add: ret_def)

lemma andthen_ret: "andthen (ret a) k = k a"
  by (rule ext) (simp add: andthen_apply ret_def)

lemma commit_versions:
  assumes "commit (andthen (if blank then ret () else execute pg sql) (\<lambda>_. write_version v k)) s = (r, s')"
    and "versions s = version_rows k"
  shows "has_schema s' = has_schema s \<and> (r = Inr () \<and> versions s' = Some [v] \<or> r \<noteq> Inr () \<and> versions s' = versions s)"
proof -
  have w: "write_version v k t = (Inr (), t\<lparr>versions := Some [v]\<rparr>)" if "versions t = versions s" for t
    using that assms(2) by (intro write_version_at) (simp add: version_rows_def)
  show ?thesis using assms(1)
    by (auto simp: commit_def transaction_def andthen_apply ret_def execute_def w split: if_splits sum.splits)
qed

lemma apply_migrations_versions:
  "apply_migrations pg schema ms k cleaned s = (r, s') \<Longrightarrow> map mig_version ms = [j + 1..n] \<Longrightarrow> 0 \<le> j \<Longrightarrow> 0 \<le> k \<Longrightarrow>
   versions s = version_rows k \<Longrightarrow>
   has_schema s' = has_schema s \<and>
   (\<exists>k'. k \<le> k' \<and> versions s' = version_rows k' \<and> (r = Inr () \<longrightarrow> j < n \<longrightarrow> k' = max k n))"
proof (induction ms arbitrary: j k cleaned s)
  case Nil
  then have "\<not> j < n" by (cases "j < n") (auto simp: upto.simps)
  with Nil show ?case by (auto simp: ret_def)
next
  case (Cons m ms)
  have jn: "j < n" and v: "mig_version m = j + 1" and vs: "map mig_version ms = [(j + 1) + 1..n]"
    using Cons.prems(2) by (cases "j + 1 \<le> n"; simp add: upto.simps [of "j + 1"])+
  have last: "ms = []" if "\<not> j + 1 < n" using that jn vs by (cases "j + 1 < n") auto
  show ?case
  proof (cases "j + 1 \<le> k")
    case True
    have run: "apply_migrations pg schema ms k cleaned s = (r, s')" using Cons.prems(1) v True by simp
    show ?thesis
    proof (cases "j + 1 < n")
      case True
      then show ?thesis using Cons.IH [OF run vs] Cons.prems by auto
    next
      case False
      then show ?thesis using run last jn \<open>j + 1 \<le> k\<close> Cons.prems by (auto simp: ret_def)
    qed
  next
    case False
    have rest: "has_schema s' = has_schema s1 \<and>
        (\<exists>k'. k \<le> k' \<and> versions s' = version_rows k' \<and> (r = Inr () \<longrightarrow> j < n \<longrightarrow> k' = max k n))"
      if "apply_migrations pg schema ms (j + 1) c s1 = (r, s')" "versions s1 = Some [j + 1]" for c s1
    proof (cases "j + 1 < n")
      case True
      have "has_schema s' = has_schema s1 \<and> (\<exists>k'. j + 1 \<le> k' \<and> versions s' = version_rows k' \<and>
          (r = Inr () \<longrightarrow> j + 1 < n \<longrightarrow> k' = max (j + 1) n))"
        by (rule Cons.IH [OF that(1) vs]) (use Cons.prems(3) that(2) in \<open>simp_all add: version_rows_def\<close>)
      then obtain k' where k': "has_schema s' = has_schema s1" "j + 1 \<le> k'" "versions s' = version_rows k'"
        "r = Inr () \<longrightarrow> k' = max (j + 1) n" using True by blast
      then show ?thesis using False True by (intro conjI exI [of _ k']) auto
    next
      case last': False
      then show ?thesis
        using that last False jn Cons.prems(3) by (auto simp: ret_def version_rows_def intro!: exI [of _ "j + 1"])
    qed
    have stay: ?thesis if "has_schema s' = has_schema s" "versions s' = versions s" "r \<noteq> Inr ()"
      using that Cons.prems(5) by auto
    show ?thesis
    proof (cases "mig_online m")
      case True
      obtain r1 s1 where one: "(if cleaned then ret () else cleanup_invalid_indexes pg schema) s = (r1, s1)" by fastforce
      obtain r2 s2 where two: "autocommit pg (mig_sql m) s1 = (r2, s2)" by fastforce
      obtain r3 s3 where three: "commit (write_version (j + 1) k) s2 = (r3, s3)" by fastforce
      have s1: "versions s1 = versions s" "has_schema s1 = has_schema s"
        using one by (auto simp: ret_def cleanup_invalid_indexes_def split: if_splits dest: drop_all_versions)
      have s2: "versions s2 = versions s" "has_schema s2 = has_schema s"
        using autocommit_versions [OF two] s1 by simp_all
      have s3: "has_schema s3 = has_schema s \<and> (r3 = Inr () \<and> versions s3 = Some [j + 1] \<or> r3 \<noteq> Inr () \<and> versions s3 = versions s)"
        using commit_versions [of True pg "[]" "j + 1" k s2 r3 s3] three s2 Cons.prems(5)
        by (simp add: andthen_ret)
      show ?thesis
      proof (cases "r1 = Inr () \<and> r2 = Inr () \<and> r3 = Inr ()")
        case True
        then have "apply_migrations pg schema ms (j + 1) True s3 = (r, s')"
          using Cons.prems(1) \<open>mig_online m\<close> \<open>\<not> j + 1 \<le> k\<close> v one two three by (simp add: andthen_apply)
        from rest [OF this] s3 True show ?thesis by simp
      next
        case err: False
        then show ?thesis
          using Cons.prems(1) \<open>mig_online m\<close> \<open>\<not> j + 1 \<le> k\<close> v one two three s1 s2 s3
          by (intro stay) (auto simp: andthen_apply split: sum.splits)
      qed
    next
      case off: False
      obtain r1 s1 where one: "commit (andthen (if trim (mig_sql m) = [] then ret () else execute pg (mig_sql m))
          (\<lambda>_. write_version (j + 1) k)) s = (r1, s1)" by fastforce
      note s1 = commit_versions [OF one Cons.prems(5)]
      show ?thesis
      proof (cases "r1 = Inr ()")
        case True
        then have "apply_migrations pg schema ms (j + 1) cleaned s1 = (r, s')"
          using Cons.prems(1) off False v one by (simp add: andthen_apply)
        from rest [OF this] s1 True show ?thesis by simp
      next
        case err: False
        then show ?thesis using Cons.prems(1) off False v one s1
          by (intro stay) (auto simp: andthen_apply split: sum.splits)
      qed
    qed
  qed
qed

text \<open>
  Whatever the SQL of the migrations does, and wherever a launch fails or dies, the table has at
  most one version row, the recorded version never goes back, and a migration run that reports
  success has recorded the newest version, unless a newer one was there.
\<close>

lemma run_migrations_recorded:
  assumes "has_schema s \<or> k = 0" and "versions s = version_rows k \<or> versions s = None \<and> k = 0" and "0 \<le> k"
    and "run_migrations pg files schema s = (r, s')"
  shows "(\<exists>k' \<ge> k. versions s' = version_rows k' \<or> versions s' = None \<and> k' = 0) \<and>
    (r = Inr () \<longrightarrow> has_schema s' \<and> versions s' = version_rows (max k SCHEMA_VERSION) \<and> \<not> should_migrate s')"
proof -
  obtain r1 s1 where prep: "prepare s = (r1, s1)" by fastforce
  have s1: "r1 = Inl Died \<and> s1 = s \<or> r1 = Inr k \<and> has_schema s1 \<and> versions s1 = version_rows k"
    using prep assms(1-3)
    by (auto simp: prepare_def commit_def transaction_def Let_def tick_def version_rows_def read_version_def
        read_version_opt_def split: if_splits)
  show ?thesis
  proof (cases "r1 = Inl Died")
    case True
    then have "r = Inl Died" "s' = s" using assms(4) prep s1 by (auto simp: run_migrations_def andthen_apply)
    then show ?thesis using assms(2) by auto
  next
    case False
    then have "apply_migrations pg schema (build_migrations files schema) k False s1 = (r, s')"
      using assms(4) prep s1 by (auto simp: run_migrations_def andthen_apply)
    from apply_migrations_versions [OF this build_migrations_upto] s1 False assms(3)
    obtain k' where k': "has_schema s'" "k \<le> k'" "versions s' = version_rows k'" "r = Inr () \<longrightarrow> k' = max k 40"
      by auto
    then show ?thesis
      by (auto simp: SCHEMA_VERSION_def should_migrate_def version_rows_def read_version_def read_version_opt_def)
  qed
qed

text \<open>A server on which every statement fails keeps version 7.\<close>

lemma version_kept_on_a_dead_server:
  "\<exists>r s'. run_migrations \<lparr>run_sql = (\<lambda>_ _. Inl (OtherSqlx ''down'')), invalid_indexes = (\<lambda>_. []), torn = (\<lambda>_. id)\<rparr>
       (\<lambda>f. f) ''dbos'' \<lparr>has_schema = True, versions = Some [7], catalog = (), lives = None\<rparr> = (r, s') \<and>
     (\<exists>k' \<ge> 7. versions s' = version_rows k' \<or> versions s' = None \<and> k' = 0)"
proof -
  let ?pg = "\<lparr>run_sql = (\<lambda>_ _. Inl (OtherSqlx ''down'')), invalid_indexes = (\<lambda>_. []), torn = (\<lambda>_. id)\<rparr>"
  let ?s = "\<lparr>has_schema = True, versions = Some [7], catalog = (), lives = None\<rparr>"
  obtain r s' where run: "run_migrations ?pg (\<lambda>f. f) ''dbos'' ?s = (r, s')" by fastforce
  show ?thesis using run_migrations_recorded [OF _ _ _ run, of 7] run by (auto simp: version_rows_def)
qed

end
