(* ===== verification/Dbos_Client.thy ===== *)
theory Dbos_Client
  imports Dbos_Workflow Dbos_Management
begin

text \<open>
  The external client (\<open>crates/dbos/src/client.rs\<close>): enqueueing by name, sending, and managing workflows over
  the same system database, without a registry and without background tasks. The operator calls
  that the client shares with the runtime handle are an interface, \<open>workflow_operator\<close>. Connecting
  and closing the pool is left out; fresh ids and the clock are in a \<open>start_env\<close>.
\<close>

subsection \<open>One row\<close>

lemma find_workflow_cancel_one:
  "find_workflow (snd (cancel_workflows now [w] db)) v =
     map_option (\<lambda>r. if v = w \<and> ws_status r \<notin> {as_str Success, as_str Error, as_str Cancelled}
                     then cancel_row now r else r) (find_workflow db v)"
  by (cases "find_workflow db v") (auto simp: find_workflow_cancel dest: find_workflow_SomeD)

lemma find_workflow_resume_one:
  "find_workflow (snd (resume_workflows now [w] q db)) v =
     map_option (\<lambda>r. if v = w \<and> ws_status r \<notin> {as_str Success, as_str Error}
                     then resume_row now q r else r) (find_workflow db v)"
  by (cases "find_workflow db v") (auto simp: find_workflow_resume dest: find_workflow_SomeD)

lemma existing_one: "existing_ids [w] db = [] \<longleftrightarrow> find_workflow db w = None"
proof -
  have "existing_ids [w] db = [] \<longleftrightarrow> w \<notin> uuids db"
    by (metis disjoint_insert(1) inf.commute inf_bot_right list.set(1) list.simps(15) set_empty set_existing_ids)
  then show ?thesis using workflow_exists_iff [of db w] by (cases "find_workflow db w") (auto simp: workflow_exists_def)
qed

lemma update_missing:
  assumes "find_workflow db w = None"
  shows "sql_update (\<lambda>r. ws_workflow_uuid r \<in> set [w] \<and> P r) f (workflow_status db) = workflow_status db"
proof -
  have "\<forall>r \<in> set (workflow_status db). ws_workflow_uuid r \<noteq> w"
    using assms by (auto simp: find_workflow_def find_key_None)
  then show ?thesis by (auto simp: sql_update_def intro!: map_idI)
qed

lemma update_absent:
  assumes "find_workflow db w = None"
  shows "sql_update (\<lambda>r. ws_workflow_uuid r = w) f (workflow_status db) = workflow_status db"
  using update_missing [OF assms, of "\<lambda>_. True" f] by simp

subsection \<open>Interface: cancel and resume by id\<close>

locale workflow_operator =
  fixes cancel :: "int \<Rightarrow> string \<Rightarrow> unit db_op"
    and resume :: "int \<Rightarrow> string \<Rightarrow> WorkflowHandle db_op"
  assumes cancel_missing:
      "find_workflow db w = None \<Longrightarrow> cancel now w db = (Inl (non_existent_workflow w), db)"
    and cancel_found:
      "find_workflow db w = Some r \<Longrightarrow> cancel now w db = (Inr (), snd (cancel_workflows now [w] db))"
    and resume_missing:
      "find_workflow db w = None \<Longrightarrow> resume now w db = (Inl (non_existent_workflow w), db)"
    and resume_found:
      "find_workflow db w = Some r \<Longrightarrow>
       resume now w db = (Inr \<lparr>wh_id = w, wh_kind = Polling\<rparr>,
                          snd (resume_workflows now [w] INTERNAL_QUEUE_NAME db))"
begin

lemma cancel_error: "cancel now w db = (Inl e, db') \<Longrightarrow> db' = db \<and> e = non_existent_workflow w \<and> find_workflow db w = None"
  using cancel_missing cancel_found by (cases "find_workflow db w") auto

lemma resume_error: "resume now w db = (Inl e, db') \<Longrightarrow> db' = db \<and> e = non_existent_workflow w \<and> find_workflow db w = None"
  using resume_missing resume_found by (cases "find_workflow db w") auto

lemma cancel_outcome:
  assumes "cancel now w db = (Inr (), db')"
  shows "find_workflow db' v =
    map_option (\<lambda>r. if v = w \<and> ws_status r \<notin> {as_str Success, as_str Error, as_str Cancelled}
                    then cancel_row now r else r) (find_workflow db v)"
  using assms cancel_missing [of db w now] cancel_found [of db w _ now]
  by (cases "find_workflow db w") (auto simp: find_workflow_cancel_one)

lemma cancel_twice:
  assumes "cancel now w db = (Inr (), db1)" and "cancel now' w db1 = (Inr (), db2)"
  shows "find_workflow db2 v = find_workflow db1 v"
  unfolding cancel_outcome [OF assms(2)] cancel_outcome [OF assms(1)]
  by (cases "find_workflow db v") (auto simp: cancel_row_def)

lemma resume_outcome:
  assumes "resume now w db = (Inr h, db')"
  shows "h = \<lparr>wh_id = w, wh_kind = Polling\<rparr> \<and> find_workflow db' v =
    map_option (\<lambda>r. if v = w \<and> ws_status r \<notin> {as_str Success, as_str Error}
                    then resume_row now INTERNAL_QUEUE_NAME r else r) (find_workflow db v)"
  using assms resume_missing [of db w now] resume_found [of db w _ now]
  by (cases "find_workflow db w") (auto simp: find_workflow_resume_one)

lemma cancel_resume:
  assumes "cancel now w db = (Inr (), db1)" and "resume now' w db1 = (Inr h, db2)"
    and "find_workflow db w = Some r"
  shows "find_workflow db2 w = Some (if ws_status r \<in> {as_str Success, as_str Error} then r
    else if ws_status r = as_str Cancelled then resume_row now' INTERNAL_QUEUE_NAME r
    else resume_row now' INTERNAL_QUEUE_NAME (cancel_row now r))"
  using conjunct2 [OF resume_outcome [OF assms(2)], of w] cancel_outcome [OF assms(1), of w] assms(3)
  by (auto simp: cancel_row_def)

end

subsection \<open>Operations of the client\<close>

definition client_handle :: "string \<Rightarrow> WorkflowHandle" where
  [simp]: "client_handle w = polling w"

definition client_retrieve_workflow :: "string \<Rightarrow> WorkflowHandle" where
  "client_retrieve_workflow w = client_handle w"

definition client_row ::
  "start_env \<Rightarrow> string \<Rightarrow> string \<Rightarrow> string \<Rightarrow> EnqueueOptions \<Rightarrow> InsertWorkflowInput" where
  "client_row se queue_name workflow_name encoded opts =
     default_insert_input\<lparr>
       in_workflow_id := unwrap_or (eo_workflow_id opts) (se_uuid se),
       in_status := as_str (case eo_delay opts of Some d \<Rightarrow> Delayed | None \<Rightarrow> Enqueued),
       in_name := workflow_name,
       in_queue_name := Some queue_name,
       in_application_version := eo_application_version opts,
       in_created_at := se_now se,
       in_updated_at := se_now se,
       in_recovery_attempts := 0,
       in_inputs := Some encoded,
       in_priority := unwrap_or (eo_priority opts) 0,
       in_deduplication_id := eo_deduplication_id opts,
       in_queue_partition_key := eo_queue_partition_key opts,
       in_delay_until_epoch_ms := map_option (\<lambda>d. se_now se + cast_i64 (int d)) (eo_delay opts),
       in_owner_xid := se_owner_xid se,
       in_serialization := Some (format_name Portable),
       in_increment := 0\<rparr>"

definition client_enqueue ::
  "serde \<Rightarrow> (PortableArgs \<Rightarrow> string) \<Rightarrow> ('p \<Rightarrow> string + json) \<Rightarrow> start_env \<Rightarrow> string \<Rightarrow> string \<Rightarrow> 'p \<Rightarrow>
   EnqueueOptions \<Rightarrow> WorkflowHandle db_op" where
  "client_enqueue sd args_to to_value se queue_name workflow_name input opts db =
     (case encode_input sd args_to to_value input Portable of
        Inl e \<Rightarrow> (Inl e, db)
      | Inr encoded \<Rightarrow>
          (let row = client_row se queue_name workflow_name encoded opts; w = in_workflow_id row
           in case transaction (insert_workflow_status row 100) db of
                (Inr _, db1) \<Rightarrow> (Inr (client_handle w), db1)
              | (Inl e, db1) \<Rightarrow>
                  if is_db_unique_violation e
                  then (Inl (queue_deduplicated w queue_name
                          (unwrap_or (eo_deduplication_id opts) [])), db1)
                  else (Inl e, db1)))"

definition client_send ::
  "serde \<Rightarrow> ('m \<Rightarrow> string + json) \<Rightarrow> string \<Rightarrow> int \<Rightarrow> string \<Rightarrow> 'm \<Rightarrow> string option \<Rightarrow> unit db_op" where
  "client_send sd to_value uuid now destination_id message topic db =
     (case encode_value sd to_value message Portable of
        Inl e \<Rightarrow> (Inl e, db)
      | Inr encoded \<Rightarrow>
          insert_notification uuid now destination_id (topic_or_default topic) encoded
            (format_name Portable) db)"

definition client_cancel_workflow :: "int \<Rightarrow> string \<Rightarrow> unit db_op" where
  "client_cancel_workflow now w db =
     (case cancel_workflows now [w] db of (found, db1) \<Rightarrow>
        if found = [] then (Inl (non_existent_workflow w), db1) else (Inr (), db1))"

definition client_resume_workflow :: "int \<Rightarrow> string \<Rightarrow> WorkflowHandle db_op" where
  "client_resume_workflow now w db =
     (case resume_workflows now [w] INTERNAL_QUEUE_NAME db of (found, db1) \<Rightarrow>
        if found = [] then (Inl (non_existent_workflow w), db1)
        else (Inr (client_handle w), db1))"

definition client_fork_workflow :: "string \<Rightarrow> int \<Rightarrow> ForkWorkflowInput \<Rightarrow> WorkflowHandle db_op" where
  "client_fork_workflow uuid now i =
     andthen (fork_workflow uuid now i) (\<lambda>new_id. ret (client_handle new_id))"

definition client_cancel_workflows :: "int \<Rightarrow> string list \<Rightarrow> string list db_op" where
  "client_cancel_workflows now ids db = (case cancel_workflows now ids db of (found, db1) \<Rightarrow> (Inr found, db1))"

definition client_garbage_collect :: "int option \<Rightarrow> int option \<Rightarrow> unit db_op" where
  "client_garbage_collect cutoff threshold db = (Inr (), garbage_collect cutoff threshold db)"

definition client_list_workflows ::
  "'j decoder \<Rightarrow> 'j decoder \<Rightarrow> ListWorkflowsFilter \<Rightarrow> sysdb \<Rightarrow> DbosError + 'j WorkflowStatus list" where
  "client_list_workflows di dv flt db = list_workflows di dv flt db"

text \<open>A client has no listener: its stream reader polls.\<close>

definition client_read_stream ::
  "(string \<Rightarrow> string option \<Rightarrow> DbosError + 'v) \<Rightarrow> string \<Rightarrow> string \<Rightarrow> (sysdb \<times> sysdb) list \<Rightarrow>
   (DbosError + 'v list \<times> bool) option" where
  "client_read_stream decode w key = read_stream_blocking decode w key False 0 []"

subsection \<open>The operator calls\<close>

interpretation client: workflow_operator client_cancel_workflow client_resume_workflow
proof unfold_locales
  fix db now w r
  show "find_workflow db w = None \<Longrightarrow> client_cancel_workflow now w db = (Inl (non_existent_workflow w), db)"
    using existing_one [of w db] update_missing [of db w]
    by (simp add: client_cancel_workflow_def cancel_workflows_def)
  show "find_workflow db w = Some r \<Longrightarrow>
      client_cancel_workflow now w db = (Inr (), snd (cancel_workflows now [w] db))"
    using existing_one [of w db] by (simp add: client_cancel_workflow_def cancel_workflows_def)
  show "find_workflow db w = None \<Longrightarrow> client_resume_workflow now w db = (Inl (non_existent_workflow w), db)"
    using existing_one [of w db] update_missing [of db w]
    by (simp add: client_resume_workflow_def resume_workflows_def)
  show "find_workflow db w = Some r \<Longrightarrow>
      client_resume_workflow now w db = (Inr \<lparr>wh_id = w, wh_kind = Polling\<rparr>,
        snd (resume_workflows now [w] INTERNAL_QUEUE_NAME db))"
    using existing_one [of w db] by (simp add: client_resume_workflow_def resume_workflows_def)
qed

text \<open>
  Cancelling and resuming by id, from a client: an unknown id is the error
  NonExistentWorkflow and changes nothing; a second cancellation changes nothing more; and
  resuming after a cancellation puts the workflow on the internal queue as ENQUEUED with no
  recovery attempts, unless it had already finished, and then its row is as it was.
\<close>
theorem cancel_and_resume:
  "(client_cancel_workflow now w db = (Inl e, db') \<longrightarrow>
      db' = db \<and> e = non_existent_workflow w \<and> find_workflow db w = None) \<and>
   (client_cancel_workflow now w db = (Inr (), db1) \<longrightarrow>
      (client_cancel_workflow now' w db1 = (Inr (), db2) \<longrightarrow> find_workflow db2 v = find_workflow db1 v) \<and>
      (client_resume_workflow now' w db1 = (Inr h, db2) \<and> find_workflow db w = Some r \<longrightarrow>
       (\<exists>r'. find_workflow db2 w = Some r' \<and>
        (if ws_status r = ''SUCCESS'' \<or> ws_status r = ''ERROR'' then r' = r
         else ws_status r' = ''ENQUEUED'' \<and> ws_queue_name r' = Some INTERNAL_QUEUE_NAME \<and>
              ws_recovery_attempts r' = 0 \<and> ws_deduplication_id r' = None))))"
proof (intro conjI impI)
  assume "client_cancel_workflow now w db = (Inl e, db')"
  from client.cancel_error [OF this]
  show "db' = db" "e = non_existent_workflow w" "find_workflow db w = None" by simp_all
next
  assume c: "client_cancel_workflow now w db = (Inr (), db1)"
  show "find_workflow db2 v = find_workflow db1 v"
    if "client_cancel_workflow now' w db1 = (Inr (), db2)"
    by (rule client.cancel_twice [OF c that])
  assume r: "client_resume_workflow now' w db1 = (Inr h, db2) \<and> find_workflow db w = Some r"
  from client.cancel_resume [OF c conjunct1 [OF r] conjunct2 [OF r]]
  show "\<exists>r'. find_workflow db2 w = Some r' \<and>
        (if ws_status r = ''SUCCESS'' \<or> ws_status r = ''ERROR'' then r' = r
         else ws_status r' = ''ENQUEUED'' \<and> ws_queue_name r' = Some INTERNAL_QUEUE_NAME \<and>
              ws_recovery_attempts r' = 0 \<and> ws_deduplication_id r' = None)"
    by (simp add: as_str.simps resume_row_def)
qed

theorem cancel_and_resume_witness:
  "\<exists>h db1 db2 r'. client_cancel_workflow 5 ''wf'' sample_db = (Inr (), db1) \<and>
     client_resume_workflow 6 ''wf'' db1 = (Inr h, db2) \<and>
     find_workflow db2 ''wf'' = Some r' \<and> ws_status r' = ''ENQUEUED''"
proof -
  let ?db1 = "snd (cancel_workflows 5 [''wf''] sample_db)"
  have c: "client_cancel_workflow 5 ''wf'' sample_db = (Inr (), ?db1)"
    by (rule client.cancel_found) (rule sample_find)
  obtain r1 where "find_workflow ?db1 ''wf'' = Some r1"
    by (simp add: find_workflow_cancel_one sample_find)
  from client.resume_found [OF this, of 6]
  have d: "client_resume_workflow 6 ''wf'' ?db1 = (Inr \<lparr>wh_id = ''wf'', wh_kind = Polling\<rparr>,
      snd (resume_workflows 6 [''wf''] INTERNAL_QUEUE_NAME ?db1))" .
  have p: "ws_status (fresh_row sample_input) = ''PENDING''"
    by (simp add: fresh_row_def as_str.simps)
  show ?thesis
    using cancel_and_resume [of 5 "''wf''" sample_db _ _ ?db1 6, THEN conjunct2, rule_format, OF c,
        THEN conjunct2, rule_format, OF conjI [OF d sample_find]] c d p
    by auto
qed

subsection \<open>Enqueueing from outside\<close>

text \<open>
  What a client cannot know of the runtime: it stores an empty executor id, no application id, no
  class or configuration name, and an application version only when it is asked for one.
\<close>

definition client_columns :: "string option \<Rightarrow> workflow_row \<Rightarrow> workflow_row" where
  "client_columns version r = r\<lparr>ws_executor_id := Some [], ws_application_version := version,
     ws_application_id := None, ws_class_name := None, ws_config_name := None\<rparr>"

lemma client_row_of_enqueue:
  "client_row se queue name encoded opts =
     (enqueue_input inner se entry queue name (Some encoded) opts)
       \<lparr>in_executor_id := [], in_application_version := eo_application_version opts,
        in_application_id := None, in_class_name := None, in_config_name := None\<rparr>"
  by (simp add: client_row_def enqueue_input_def default_insert_input_def split: option.split)

lemma insert_client_columns:
  fixes i :: InsertWorkflowInput and version :: "string option"
  defines "j \<equiv> i\<lparr>in_executor_id := [], in_application_version := version, in_application_id := None,
    in_class_name := None, in_config_name := None\<rparr>"
  assumes "in_status i \<in> {as_str Enqueued, as_str Delayed}" and "in_recovery_attempts i = 0"
    and "\<And>r. find_workflow db (in_workflow_id i) = Some r \<Longrightarrow>
      \<not> dead_letter (ws_status r) (ws_recovery_attempts r) 100 \<and>
      \<not> dead_letter (ws_status r) (ws_recovery_attempts r) m"
  shows "fst (insert_workflow_status j 100 db) = fst (insert_workflow_status i m db)"
    and "snd (insert_workflow_status j 100 db) =
      (if find_workflow db (in_workflow_id i) = None
       then (snd (insert_workflow_status i m db))\<lparr>workflow_status :=
         sql_update (\<lambda>r. ws_workflow_uuid r = in_workflow_id i) (client_columns version)
           (workflow_status (snd (insert_workflow_status i m db)))\<rparr>
       else snd (insert_workflow_status i m db))"
proof -
  have id: "in_workflow_id j = in_workflow_id i" "in_name j = in_name i" "in_queue_name j = in_queue_name i"
    by (simp_all add: j_def)
  have alive: "\<not> dead_letter status 0 n" for status n by (auto simp: dead_letter_def)
  have "fst (insert_workflow_status j 100 db) = fst (insert_workflow_status i m db) \<and>
    snd (insert_workflow_status j 100 db) =
      (if find_workflow db (in_workflow_id i) = None
       then (snd (insert_workflow_status i m db))\<lparr>workflow_status :=
         sql_update (\<lambda>r. ws_workflow_uuid r = in_workflow_id i) (client_columns version)
           (workflow_status (snd (insert_workflow_status i m db)))\<rparr>
       else snd (insert_workflow_status i m db))"
  proof (cases "find_workflow db (in_workflow_id i)")
    case (Some r)
    have same: "on_conflict_row j = on_conflict_row i"
      using assms(2) by (auto simp: fun_eq_iff on_conflict_row_def j_def)
    have "ws_status (on_conflict_row i r) = ws_status r"
      "ws_recovery_attempts (on_conflict_row i r) = ws_recovery_attempts r"
      using assms(2) by (auto simp: on_conflict_row_def)
    with Some assms(4) [OF Some] same id show ?thesis
      by (simp add: insert_workflow_status_def upsert_workflow_def finish_insert_def split: option.split)
  next
    case None
    have row: "fresh_row j = client_columns version (fresh_row i)"
      by (simp add: fresh_row_def j_def client_columns_def)
    have entry: "dedup_entry (fresh_row j) = dedup_entry (fresh_row i)"
      by (simp add: row client_columns_def dedup_entry_def)
    have cols: "ws_name (fresh_row j) = ws_name (fresh_row i)" "ws_queue_name (fresh_row j) = ws_queue_name (fresh_row i)"
      "ws_status (fresh_row j) = ws_status (fresh_row i)" "ws_owner_xid (fresh_row j) = ws_owner_xid (fresh_row i)"
      "ws_recovery_attempts (fresh_row i) = 0" "ws_recovery_attempts (fresh_row j) = 0"
      "ws_name (fresh_row i) = in_name i" "ws_queue_name (fresh_row i) = in_queue_name i"
      "ws_workflow_uuid (fresh_row i) = in_workflow_id i"
      using assms(3) by (simp_all add: fresh_row_def j_def)
    have old: "sql_update (\<lambda>r. ws_workflow_uuid r = in_workflow_id i) (client_columns version) (workflow_status db) =
        workflow_status db"
      by (rule update_absent [OF None])
    then have new: "sql_update (\<lambda>r. ws_workflow_uuid r = in_workflow_id i) (client_columns version)
        (workflow_status db @ [fresh_row i]) = workflow_status db @ [fresh_row j]"
      using cols(9) row by (simp add: sql_update_def)
    show ?thesis
      using None id entry cols old new alive
      by (simp add: insert_workflow_status_def upsert_workflow_def Let_def finish_insert_def
          split: option.split)
  qed
  then show "fst (insert_workflow_status j 100 db) = fst (insert_workflow_status i m db)"
    "snd (insert_workflow_status j 100 db) =
      (if find_workflow db (in_workflow_id i) = None
       then (snd (insert_workflow_status i m db))\<lparr>workflow_status :=
         sql_update (\<lambda>r. ws_workflow_uuid r = in_workflow_id i) (client_columns version)
           (workflow_status (snd (insert_workflow_status i m db)))\<rparr>
       else snd (insert_workflow_status i m db))" by simp_all
qed

text \<open>
  C40. A client's enqueue is the runtime's, but for the columns a client cannot know. Take any runtime
  that has the workflow registered, under any executor id, application and retry limit. The client's
  enqueue returns what the runtime's does: the handle, or the same error, a held deduplication id or a
  conflicting name or queue included. For a new id it leaves the database the runtime would leave,
  with the five columns of \<open>client_columns\<close> of the new row replaced; for an id that is there it leaves
  exactly the same, unless that row is past one of the two retry limits.
\<close>
theorem client_enqueue_is_enqueue:
  assumes "encode_input sd args_to to_value input Portable = Inr encoded"
    and "di_registry inner name = Some entry"
    and "w = unwrap_or (eo_workflow_id opts) (se_uuid se)"
    and "\<And>r. find_workflow db w = Some r \<Longrightarrow>
      \<not> dead_letter (ws_status r) (ws_recovery_attempts r) 100 \<and>
      \<not> dead_letter (ws_status r) (ws_recovery_attempts r) (re_max_retries entry)"
  shows "fst (client_enqueue sd args_to to_value se queue name input opts db) =
      fst (enqueue_workflow inner se queue name (Some encoded) opts db) \<and>
    snd (client_enqueue sd args_to to_value se queue name input opts db) =
      (let db1 = snd (enqueue_workflow inner se queue name (Some encoded) opts db)
       in if find_workflow db w = None
          then db1\<lparr>workflow_status := sql_update (\<lambda>r. ws_workflow_uuid r = w)
            (client_columns (eo_application_version opts)) (workflow_status db1)\<rparr>
          else db1)"
proof -
  define i where "i = enqueue_input inner se entry queue name (Some encoded) opts"
  define j where "j = client_row se queue name encoded opts"
  have j: "j = i\<lparr>in_executor_id := [], in_application_version := eo_application_version opts,
        in_application_id := None, in_class_name := None, in_config_name := None\<rparr>"
    unfolding i_def j_def by (rule client_row_of_enqueue)
  have i: "in_workflow_id i = w" "in_recovery_attempts i = 0" "in_status i \<in> {as_str Enqueued, as_str Delayed}"
    using assms(3) by (simp_all add: i_def enqueue_input_def split: option.split)
  have wj: "in_workflow_id j = w" using i(1) j by simp
  note ins = insert_client_columns [where i = i and db = db and m = "re_max_retries entry"
      and version = "eo_application_version opts", folded j, OF i(3,2)]
  have res: "fst (insert_workflow_status j 100 db) = fst (insert_workflow_status i (re_max_retries entry) db)"
    and db1: "snd (insert_workflow_status j 100 db) =
      (if find_workflow db w = None
       then (snd (insert_workflow_status i (re_max_retries entry) db))\<lparr>workflow_status :=
         sql_update (\<lambda>r. ws_workflow_uuid r = w) (client_columns (eo_application_version opts))
           (workflow_status (snd (insert_workflow_status i (re_max_retries entry) db)))\<rparr>
       else snd (insert_workflow_status i (re_max_retries entry) db))"
    using ins assms(4) i(1) by auto
  obtain x dbj where xj: "insert_workflow_status j 100 db = (x, dbj)" by fastforce
  obtain y dbi where yi: "insert_workflow_status i (re_max_retries entry) db = (y, dbi)" by fastforce
  have xy: "y = x" using res xj yi by simp
  show ?thesis
    using assms(1,2) db1 xj yi xy update_absent [of db w] i(1) wj
    by (cases x) (simp_all add: client_enqueue_def enqueue_workflow_def Let_def transaction_def
        i_def [symmetric] j_def [symmetric])
qed

theorem client_enqueue_is_enqueue_witness:
  "\<exists>r. fst (client_enqueue mini_serde (\<lambda>_. ''args'') (\<lambda>_. Inr Null) (sample_start ''x'') ''jobs'' ''checkout'' ()
       sample_enqueue sample_db) = Inr (polling ''second'') \<and>
     find_workflow (snd (enqueue_workflow (sample_inner ''local'') (sample_start ''x'') ''jobs'' ''checkout''
       (Some ''args'') sample_enqueue sample_db)) ''second'' = Some r \<and> ws_executor_id r = Some ''local'' \<and>
     find_workflow (snd (client_enqueue mini_serde (\<lambda>_. ''args'') (\<lambda>_. Inr Null) (sample_start ''x'') ''jobs''
       ''checkout'' () sample_enqueue sample_db)) ''second'' = Some (client_columns None r)"
proof -
  let ?c = "client_enqueue mini_serde (\<lambda>_. ''args'') (\<lambda>_. Inr Null) (sample_start ''x'') ''jobs'' ''checkout'' ()
       sample_enqueue sample_db"
  let ?e = "enqueue_workflow (sample_inner ''local'') (sample_start ''x'') ''jobs'' ''checkout'' (Some ''args'')
       sample_enqueue sample_db"
  define i where "i = enqueue_input (sample_inner ''local'') (sample_start ''x'') sample_entry ''jobs'' ''checkout''
       (Some ''args'') sample_enqueue"
  have i: "in_workflow_id i = ''second''" "in_name i = ''checkout''" "in_queue_name i = Some ''jobs''"
    "in_recovery_attempts i = 0" "in_executor_id i = ''local''"
    by (simp_all add: i_def enqueue_input_def sample_enqueue_def sample_inner_def)
  have enc: "encode_input mini_serde (\<lambda>_. ''args'') (\<lambda>_. Inr Null) () Portable = Inr ''args''"
    by (simp add: encode_input_def)
  have reg: "di_registry (sample_inner ''local'') ''checkout'' = Some sample_entry" by (simp add: sample_inner_def)
  have w: "''second'' = unwrap_or (eo_workflow_id sample_enqueue) (se_uuid (sample_start ''x''))"
    by (simp add: sample_enqueue_def)
  have new: "find_workflow sample_db ''second'' = None"
    by (simp add: sample_db_def find_workflow_def)
  let ?db1 = "sample_db\<lparr>workflow_status := workflow_status sample_db @ [fresh_row i]\<rparr>"
  have cols: "ws_name (fresh_row i) = ''checkout''" "ws_queue_name (fresh_row i) = Some ''jobs''"
    "ws_recovery_attempts (fresh_row i) = 0" "ws_workflow_uuid (fresh_row i) = ''second''"
    "ws_executor_id (fresh_row i) = Some ''local''"
    using i by (simp_all add: fresh_row_def)
  have "dedup_index (workflow_status sample_db) = []"
    by (simp add: dedup_index_def dedup_entry_def sample_defs fresh_row_def)
  then have "upsert_workflow i sample_db = Inr (fresh_row i, ?db1)"
    using new i(1) by (simp add: upsert_workflow_def Let_def split: option.split)
  then have "\<exists>x. insert_workflow_status i (re_max_retries sample_entry) sample_db = (Inr x, ?db1)"
    using cols i by (auto simp: insert_workflow_status_def finish_insert_def dead_letter_def Let_def)
  then have e: "?e = (Inr (polling ''second''), ?db1)"
    using reg i by (auto simp: enqueue_workflow_def Let_def transaction_def i_def [symmetric])
  then have row: "find_workflow (snd ?e) ''second'' = Some (fresh_row i)"
    using new cols(4) by (simp add: find_workflow_def find_key_append)
  from client_enqueue_is_enqueue [where queue = "''jobs''" and name = "''checkout''", OF enc reg w, of sample_db] new
  have res: "fst ?c = fst ?e" and db1: "snd ?c = (snd ?e)\<lparr>workflow_status := sql_update
      (\<lambda>r. ws_workflow_uuid r = ''second'') (client_columns (eo_application_version sample_enqueue))
      (workflow_status (snd ?e))\<rparr>"
    by (simp_all add: Let_def)
  have "find_workflow (snd ?c) ''second'' = Some (client_columns None (fresh_row i))"
    unfolding db1 using row cols(4)
    by (subst find_workflow_update) (simp_all add: client_columns_def sample_enqueue_def)
  with res e row cols(5) show ?thesis by (intro exI [of _ "fresh_row i"]) simp
qed

end
