(* ===== verification/Dbos_Conductor.thy ===== *)
theory Dbos_Conductor
  imports Dbos_System Dbos_Recovery
begin

text \<open>
  The conductor client (\<open>crates/dbos/src/runtime/conductor.rs\<close>): its configuration and URL, the dispatch of a
  request message to the management operations, the wire form of workflows and steps, and the
  connection loop with its back-off. A message is a JSON value, parsed and printed by the
  \<open>serde\<close> record; the clock, fresh ids, the host name and the RFC 3339 parser are in the request
  environment. The websocket is a list of events; a message that fails to parse is ignored, as
  \<open>handle_message\<close> returning \<open>None\<close> is.
\<close>

subsection \<open>Configuration and URL\<close>

definition DEFAULT_DOMAIN :: string where "DEFAULT_DOMAIN = ''cloud.dbos.dev''"
definition INITIAL_RECONNECT_WAIT :: nat where "INITIAL_RECONNECT_WAIT = 1000"
definition MAX_RECONNECT_WAIT :: nat where "MAX_RECONNECT_WAIT = 30000"

record ConductorConfig =
  cc_url :: string
  cc_api_key :: string
  cc_app_name :: string
  cc_executor_metadata :: "(string \<times> json) list option"

definition config_from ::
  "string option \<Rightarrow> string option \<Rightarrow> string option \<Rightarrow> string \<Rightarrow> (string \<times> json) list option \<Rightarrow>
   ConductorConfig option" where
  "config_from domain_var api_key url app_name metadata =
     (case opt_filter (\<lambda>k. k \<noteq> []) api_key of
        None \<Rightarrow> None
      | Some key \<Rightarrow> Some
          \<lparr>cc_url =
             (case opt_filter (\<lambda>u. u \<noteq> []) url of
                Some u \<Rightarrow> u
              | None \<Rightarrow>
                  ''wss://'' @ unwrap_or (opt_filter (\<lambda>d. d \<noteq> []) domain_var) DEFAULT_DOMAIN @
                  ''/conductor/v1alpha1''),
           cc_api_key = key, cc_app_name = app_name, cc_executor_metadata = metadata\<rparr>)"

definition unreserved :: "char \<Rightarrow> bool" where
  "unreserved c \<longleftrightarrow> is_ascii_alphanumeric c \<or> c \<in> {CHR ''-'', CHR ''.'', CHR ''_'', CHR ''~''}"

definition hex_upper :: "nat \<Rightarrow> char" where
  "hex_upper d = (if d < 10 then char_of (48 + d) else char_of (55 + d))"

text \<open>Percent encoding of the bytes of a path segment.\<close>

definition encode_byte :: "char \<Rightarrow> string" where
  "encode_byte b =
     (if unreserved b then [b]
      else [CHR 0x25, hex_upper (of_char b div 16), hex_upper (of_char b mod 16)])"

definition encode_segment :: "string \<Rightarrow> string" where
  "encode_segment s = concat (map encode_byte s)"

definition trim_end_slashes :: "string \<Rightarrow> string" where
  "trim_end_slashes s = rev (dropWhile (\<lambda>c. c = CHR ''/'') (rev s))"

definition websocket_url :: "ConductorConfig \<Rightarrow> string" where
  "websocket_url config =
     trim_end_slashes (cc_url config) @ ''/websocket/'' @ encode_segment (cc_app_name config) @
     ''/'' @ encode_segment (cc_api_key config)"

subsection \<open>Request fields\<close>

definition json_get :: "string \<Rightarrow> json \<Rightarrow> json option" where
  "json_get k v = (case v of Object m \<Rightarrow> map_get k m | _ \<Rightarrow> None)"

definition as_i64 :: "json \<Rightarrow> int option" where
  "as_i64 j = (case j of
     Number (IntNum n) \<Rightarrow> (if - (2 ^ 63) \<le> n \<and> n < 2 ^ 63 then Some n else None)
   | _ \<Rightarrow> None)"

definition as_bool :: "json \<Rightarrow> bool option" where
  "as_bool j = (case j of Bool b \<Rightarrow> Some b | _ \<Rightarrow> None)"

definition get_str :: "string \<Rightarrow> json \<Rightarrow> string option" where
  "get_str k v = Option.bind (json_get k v) as_json_string"

definition get_i64 :: "string \<Rightarrow> json \<Rightarrow> int option" where
  "get_i64 k v = Option.bind (json_get k v) as_i64"

definition get_bool :: "string \<Rightarrow> json \<Rightarrow> bool option" where
  "get_bool k v = Option.bind (json_get k v) as_bool"

text \<open>A field that is a string or an array of strings.\<close>

definition string_list :: "json option \<Rightarrow> string list" where
  "string_list v = (case v of
     Some (String s) \<Rightarrow> [s]
   | Some (Array a) \<Rightarrow> List.map_filter as_json_string a
   | _ \<Rightarrow> [])"

definition array_or_none :: "json option \<Rightarrow> string list option" where
  "array_or_none v = (if string_list v = [] then None else Some (string_list v))"

definition first_string :: "json option \<Rightarrow> string option" where
  "first_string v = (case string_list v of [] \<Rightarrow> None | s # _ \<Rightarrow> Some s)"

definition status_list :: "json option \<Rightarrow> WorkflowStatusType list option" where
  "status_list v =
     (if string_list v = [] then None else Some (List.map_filter from_str (string_list v)))"

definition coalesce_ids :: "json \<Rightarrow> string list" where
  "coalesce_ids msg =
     (case array_or_none (json_get ''workflow_ids'' msg) of
        Some v \<Rightarrow> v
      | None \<Rightarrow> (case get_str ''workflow_id'' msg of Some s \<Rightarrow> [s] | None \<Rightarrow> []))"

definition iso_to_ms :: "(string \<Rightarrow> int option) \<Rightarrow> json option \<Rightarrow> int option" where
  "iso_to_ms rfc3339 v = Option.bind (Option.bind v as_json_string) rfc3339"

definition parse_list_filter :: "(string \<Rightarrow> int option) \<Rightarrow> json option \<Rightarrow> bool \<Rightarrow> ListWorkflowsFilter" where
  "parse_list_filter rfc3339 body queues_only =
     (let b = unwrap_or body Null in
      \<lparr>lf_workflow_ids = array_or_none (json_get ''workflow_uuids'' b),
       lf_status = status_list (json_get ''status'' b),
       lf_workflow_name = first_string (json_get ''workflow_name'' b),
       lf_queue_name = first_string (json_get ''queue_name'' b),
       lf_queues_only = (queues_only \<or> unwrap_or (get_bool ''queues_only'' b) False),
       lf_application_version = first_string (json_get ''application_version'' b),
       lf_executor_ids = array_or_none (json_get ''executor_id'' b),
       lf_start_time = iso_to_ms rfc3339 (json_get ''start_time'' b),
       lf_end_time = iso_to_ms rfc3339 (json_get ''end_time'' b),
       lf_limit = get_i64 ''limit'' b,
       lf_offset = get_i64 ''offset'' b,
       lf_sort_desc = unwrap_or (get_bool ''sort_desc'' b) False\<rparr>)"

subsection \<open>Wire forms\<close>

text \<open>\<open>Map::insert\<close> in sequence, with optional entries.\<close>

fun insert_all :: "(string \<times> json option) list \<Rightarrow> (string \<times> json) list \<Rightarrow> (string \<times> json) list" where
  "insert_all [] m = m"
| "insert_all ((k, None) # kvs) m = insert_all kvs m"
| "insert_all ((k, Some v) # kvs) m = insert_all kvs (map_insert k v m)"

definition json_int :: "int \<Rightarrow> json" where
  "json_int n = Number (IntNum n)"

definition workflow_to_wire :: "serde \<Rightarrow> json WorkflowStatus \<Rightarrow> json" where
  "workflow_to_wire sd w = Object (insert_all
     [(''WorkflowUUID'', Some (String (wf_id w))),
      (''Status'', Some (String (as_str (wf_status w)))),
      (''WorkflowName'', Some (String (wf_name w))),
      (''CreatedAt'', Some (String (show_int (wf_created_at w)))),
      (''UpdatedAt'', Some (String (show_int (wf_updated_at w)))),
      (''Priority'', Some (String (show_int (wf_priority w)))),
      (''WasForkedFrom'', Some (Bool (wf_was_forked_from w))),
      (''QueueName'', map_option String (wf_queue_name w)),
      (''ExecutorID'', map_option String (wf_executor_id w)),
      (''ApplicationVersion'', map_option String (wf_application_version w)),
      (''ParentWorkflowID'', map_option String (wf_parent_workflow_id w)),
      (''ForkedFrom'', map_option String (wf_forked_from w)),
      (''DeduplicationID'', map_option String (wf_deduplication_id w)),
      (''WorkflowConfigName'', map_option String (wf_config_name w)),
      (''Error'', map_option String (wf_error w)),
      (''CompletedAt'', map_option (\<lambda>c. String (show_int c)) (wf_completed_at w)),
      (''Input'', map_option (\<lambda>i. String (sd_to_string sd i)) (wf_input w)),
      (''Output'', map_option (\<lambda>out. String (sd_to_string sd out)) (wf_output w)),
      (''DequeuedAt'',
        if wf_status w = Pending then map_option (\<lambda>s. String (show_int s)) (wf_started_at w) else None)] [])"

definition step_to_wire :: "serde \<Rightarrow> json StepInfo \<Rightarrow> json" where
  "step_to_wire sd s = Object (insert_all
     [(''function_id'', Some (json_int (si_step_id s))),
      (''function_name'', Some (String (si_step_name s))),
      (''output'', map_option (\<lambda>out. String (sd_to_string sd out)) (si_output s)),
      (''error'', map_option String (si_error s)),
      (''child_workflow_id'', map_option String (si_child_workflow_id s)),
      (''started_at_epoch_ms'', map_option (\<lambda>t. String (show_int t)) (si_started_at s)),
      (''completed_at_epoch_ms'', map_option (\<lambda>t. String (show_int t)) (si_completed_at s))] [])"

subsection \<open>Requests\<close>

record request_env =
  rq_serde :: serde
  rq_decode_input :: "json decoder"
  rq_decode_value :: "json decoder"
  rq_inner :: DbosInner
  rq_start :: "string \<Rightarrow> start_env"
  rq_now :: int
  rq_uuid :: string
  rq_hostname :: "string option"
  rq_version :: string
  rq_rfc3339 :: "string \<Rightarrow> int option"

definition set_field :: "string \<Rightarrow> json \<Rightarrow> json \<Rightarrow> json" where
  "set_field k v resp = (case resp of Object m \<Rightarrow> Object (map_insert k v m) | _ \<Rightarrow> resp)"

definition set_output :: "DbosError + json \<Rightarrow> json \<Rightarrow> json" where
  "set_output r resp = (case r of
     Inr v \<Rightarrow> set_field ''output'' v resp
   | Inl e \<Rightarrow> set_field ''error_message'' (String (display e)) resp)"

definition set_success :: "DbosError + unit \<Rightarrow> json \<Rightarrow> json" where
  "set_success r resp = (case r of
     Inr _ \<Rightarrow> set_field ''success'' (Bool True) resp
   | Inl e \<Rightarrow> set_field ''error_message'' (String (display e)) (set_field ''success'' (Bool False) resp))"

definition list_to_wire :: "request_env \<Rightarrow> ListWorkflowsFilter \<Rightarrow> sysdb \<Rightarrow> DbosError + json" where
  "list_to_wire rq f db =
     (case list_workflows (rq_decode_input rq) (rq_decode_value rq) f db of
        Inl e \<Rightarrow> Inl e
      | Inr wfs \<Rightarrow> Inr (Array (map (workflow_to_wire (rq_serde rq)) wfs)))"

definition executor_info :: "request_env \<Rightarrow> (string \<times> json) list option \<Rightarrow> json \<Rightarrow> json" where
  "executor_info rq metadata resp =
     (let r1 = set_field ''executor_id'' (String (di_executor_id (rq_inner rq))) resp;
          r2 = set_field ''application_version'' (String (di_application_version (rq_inner rq))) r1;
          r3 = set_field ''language'' (String ''rust'') r2;
          r4 = set_field ''dbos_version'' (String (rq_version rq)) r3;
          r5 = (case rq_hostname rq of Some h \<Rightarrow> set_field ''hostname'' (String h) r4 | None \<Rightarrow> r4)
      in case metadata of Some m \<Rightarrow> set_field ''executor_metadata'' (Object m) r5 | None \<Rightarrow> r5)"

definition get_workflow_answer :: "request_env \<Rightarrow> json \<Rightarrow> sysdb \<Rightarrow> json \<Rightarrow> json" where
  "get_workflow_answer rq msg db resp =
     (case list_workflows (rq_decode_input rq) (rq_decode_value rq)
             (default_filter\<lparr>lf_workflow_ids := Some [unwrap_or (get_str ''workflow_id'' msg) []]\<rparr>) db of
        Inr wfs \<Rightarrow> set_field ''output''
          (case wfs of [] \<Rightarrow> Null | w # _ \<Rightarrow> workflow_to_wire (rq_serde rq) w) resp
      | Inl e \<Rightarrow> set_field ''error_message'' (String (display e)) resp)"

definition exist_pending_answer :: "request_env \<Rightarrow> json \<Rightarrow> sysdb \<Rightarrow> json \<Rightarrow> json" where
  "exist_pending_answer rq msg db resp =
     (case list_workflows (rq_decode_input rq) (rq_decode_value rq)
             (default_filter\<lparr>lf_status := Some [Pending],
                lf_executor_ids := Some [unwrap_or (get_str ''executor_id'' msg) []],
                lf_application_version := Some (unwrap_or (get_str ''application_version'' msg) []),
                lf_limit := Some 1\<rparr>) db of
        Inr wfs \<Rightarrow> set_field ''exist'' (Bool (wfs \<noteq> [])) resp
      | Inl e \<Rightarrow> set_field ''error_message'' (String (display e)) resp)"

definition fork_input :: "json \<Rightarrow> ForkWorkflowInput" where
  "fork_input body =
     \<lparr>fk_original_workflow_id = unwrap_or (get_str ''workflow_id'' body) [],
      fk_forked_workflow_id = get_str ''new_workflow_id'' body,
      fk_start_step = cast_i32 (unwrap_or (get_i64 ''start_step'' body) 0),
      fk_application_version = get_str ''application_version'' body,
      fk_queue_name = get_str ''queue_name'' body,
      fk_queue_partition_key = get_str ''queue_partition_key'' body\<rparr>"

text \<open>Collection first, then the time-out of old workflows if the collection went well.\<close>

definition retention :: "request_env \<Rightarrow> json \<Rightarrow> sysdb \<Rightarrow> (DbosError + unit) \<times> sysdb" where
  "retention rq body db =
     (let cutoff = get_i64 ''gc_cutoff_epoch_ms'' body;
          rows = get_i64 ''gc_rows_threshold'' body;
          db1 = (if cutoff \<noteq> None \<or> rows \<noteq> None then garbage_collect cutoff rows db else db)
      in case get_i64 ''timeout_cutoff_epoch_ms'' body of
           Some tc \<Rightarrow> cancel_all_before (rq_decode_input rq) (rq_decode_value rq) (rq_now rq) tc db1
         | None \<Rightarrow> (Inr (), db1))"

definition dispatch ::
  "request_env \<Rightarrow> (string \<times> json) list option \<Rightarrow> string \<Rightarrow> json \<Rightarrow> json \<Rightarrow> sysdb \<Rightarrow>
   (json \<times> task list) \<times> sysdb" where
  "dispatch rq metadata msg_type msg resp db =
     (let body = unwrap_or (json_get ''body'' msg) Null; pure = (\<lambda>r. ((r, []), db)) in
      if msg_type = ''executor_info'' then pure (executor_info rq metadata resp)
      else if msg_type = ''recovery'' then
        (case recover_pending_workflows (rq_serde rq) (rq_inner rq) (rq_start rq)
                (string_list (json_get ''executor_ids'' msg)) db of
           ((ids, ts), db1) \<Rightarrow> ((set_success (Inr ()) resp, ts), db1))
      else if msg_type = ''cancel'' then
        ((set_success (Inr ()) resp, []), snd (cancel_workflows (rq_now rq) (coalesce_ids msg) db))
      else if msg_type = ''resume'' then
        ((set_success (Inr ()) resp, []),
         snd (resume_workflows (rq_now rq) (coalesce_ids msg)
               (unwrap_or (get_str ''queue_name'' msg) INTERNAL_QUEUE_NAME) db))
      else if msg_type = ''list_workflows'' then
        pure (set_output (list_to_wire rq (parse_list_filter (rq_rfc3339 rq) (json_get ''body'' msg) False) db) resp)
      else if msg_type = ''list_queued_workflows'' then
        pure (set_output (list_to_wire rq (parse_list_filter (rq_rfc3339 rq) (json_get ''body'' msg) True) db) resp)
      else if msg_type = ''get_workflow'' then pure (get_workflow_answer rq msg db resp)
      else if msg_type = ''list_steps'' then
        pure (set_field ''output''
          (Array (map (step_to_wire (rq_serde rq))
            (get_workflow_steps (rq_decode_value rq) (unwrap_or (get_str ''workflow_id'' msg) []) db))) resp)
      else if msg_type = ''fork_workflow'' then
        (case fork_workflow (rq_uuid rq) (rq_now rq) (fork_input body) db of
           (Inr new_id, db1) \<Rightarrow> ((set_field ''new_workflow_id'' (String new_id) resp, []), db1)
         | (Inl e, db1) \<Rightarrow> ((set_field ''error_message'' (String (display e)) resp, []), db1))
      else if msg_type = ''exist_pending_workflows'' then pure (exist_pending_answer rq msg db resp)
      else if msg_type = ''retention'' then
        (case retention rq body db of (r, db1) \<Rightarrow> ((set_success r resp, []), db1))
      else if msg_type = ''delete'' then
        ((set_success (Inr ()) resp, []), delete_workflows (coalesce_ids msg) db)
      else pure (set_field ''error_message'' (String ''Unknown message type'') resp))"

text \<open>The reply of a parsed message, and the whole of \<open>handle_message\<close> on text.\<close>

definition answer ::
  "request_env \<Rightarrow> (string \<times> json) list option \<Rightarrow> json \<Rightarrow> sysdb \<Rightarrow> (json \<times> task list) \<times> sysdb" where
  "answer rq metadata msg db =
     (let msg_type = unwrap_or (get_str ''type'' msg) [];
          request_id = unwrap_or (get_str ''request_id'' msg) []
      in dispatch rq metadata msg_type msg
           (Object (insert_all [(''type'', Some (String msg_type)), (''request_id'', Some (String request_id))] []))
           db)"

definition handle_message ::
  "request_env \<Rightarrow> (string \<times> json) list option \<Rightarrow> string \<Rightarrow> sysdb \<Rightarrow>
   (string option \<times> task list) \<times> sysdb" where
  "handle_message rq metadata text db =
     (case sd_from_str (rq_serde rq) text of
        Inl _ \<Rightarrow> ((None, []), db)
      | Inr msg \<Rightarrow>
          (case answer rq metadata msg db of
             ((resp, ts), db1) \<Rightarrow> ((Some (sd_to_string (rq_serde rq) resp), ts), db1)))"

subsection \<open>The connection\<close>

datatype ws_event =
    Shutdown
  | PingTick bool
  | Text request_env string bool
  | PeerPing
  | PeerClose
  | OtherFrame
  | ReadTimeout
  | StreamEnded
  | ReadError string

text \<open>
  \<open>connect_and_serve\<close> after the handshake. A flag says whether the write of the ping or the reply
  succeeded. The result is \<open>None\<close> while the connection goes on; the replies sent are returned.
\<close>

fun serve ::
  "(string \<times> json) list option \<Rightarrow> ws_event list \<Rightarrow> sysdb \<Rightarrow>
   (string + unit) option \<times> string list \<times> task list \<times> sysdb" where
  "serve metadata [] db = (None, [], [], db)"
| "serve metadata (ev # evs) db =
     (case ev of
        Shutdown \<Rightarrow> (Some (Inr ()), [], [], db)
      | PingTick ok \<Rightarrow> (if ok then serve metadata evs db else (Some (Inl ''ping write failed''), [], [], db))
      | Text rq text ok \<Rightarrow>
          (case handle_message rq metadata text db of
             ((None, ts), db1) \<Rightarrow>
               (case serve metadata evs db1 of (r, replies, ts', db2) \<Rightarrow> (r, replies, ts @ ts', db2))
           | ((Some reply, ts), db1) \<Rightarrow>
               if ok
               then (case serve metadata evs db1 of
                       (r, replies, ts', db2) \<Rightarrow> (r, reply # replies, ts @ ts', db2))
               else (Some (Inl ''response write failed''), [], ts, db1))
      | PeerPing \<Rightarrow> serve metadata evs db
      | PeerClose \<Rightarrow> (Some (Inl ''server closed''), [], [], db)
      | OtherFrame \<Rightarrow> serve metadata evs db
      | ReadTimeout \<Rightarrow> (Some (Inl ''read timeout''), [], [], db)
      | StreamEnded \<Rightarrow> (Some (Inl ''stream ended''), [], [], db)
      | ReadError e \<Rightarrow> (Some (Inl (''read error: '' @ e)), [], [], db))"

record attempt =
  at_handshake :: "string option"
  at_events :: "ws_event list"
  at_cancelled_before :: bool
  at_cancelled_after :: bool
  at_cancelled_asleep :: bool

definition connect_and_serve ::
  "(string \<times> json) list option \<Rightarrow> attempt \<Rightarrow> sysdb \<Rightarrow>
   (string + unit) option \<times> string list \<times> task list \<times> sysdb" where
  "connect_and_serve metadata a db =
     (case at_handshake a of
        Some e \<Rightarrow> (Some (Inl e), [], [], db)
      | None \<Rightarrow> serve metadata (at_events a) db)"

definition next_wait :: "nat \<Rightarrow> nat" where
  "next_wait wait = min (wait * 2) MAX_RECONNECT_WAIT"

text \<open>
  The reconnect loop over the attempts it makes: whether it returned, the waits it went through
  (before the random factor between 0.5 and 1.5), the replies, the spawned tasks and the database.
\<close>

fun run_conductor ::
  "(string \<times> json) list option \<Rightarrow> attempt list \<Rightarrow> nat \<Rightarrow> sysdb \<Rightarrow>
   bool \<times> nat list \<times> string list \<times> task list \<times> sysdb" where
  "run_conductor metadata [] wait db = (False, [], [], [], db)"
| "run_conductor metadata (a # as) wait db =
     (if at_cancelled_before a then (True, [], [], [], db)
      else (case connect_and_serve metadata a db of
              (None, replies, ts, db1) \<Rightarrow> (False, [], replies, ts, db1)
            | (Some (Inr _), replies, ts, db1) \<Rightarrow> (True, [], replies, ts, db1)
            | (Some (Inl e), replies, ts, db1) \<Rightarrow>
                if at_cancelled_after a then (True, [], replies, ts, db1)
                else if at_cancelled_asleep a then (True, [wait], replies, ts, db1)
                else (case run_conductor metadata as (next_wait wait) db1 of
                        (stopped, waits, replies', ts', db2) \<Rightarrow>
                          (stopped, wait # waits, replies @ replies', ts @ ts', db2))))"

subsection \<open>Path segments\<close>

definition hex_value :: "char \<Rightarrow> nat option" where
  "hex_value c = (let n = of_char c in
     if 48 \<le> n \<and> n \<le> 57 then Some (n - 48) else if 65 \<le> n \<and> n \<le> 70 then Some (n - 55) else None)"

fun decode_segment :: "string \<Rightarrow> string option" where
  "decode_segment [] = Some []"
| "decode_segment (c # cs) =
     (if c \<noteq> CHR 0x25 then map_option (Cons c) (decode_segment cs)
      else (case cs of
              h # l # r \<Rightarrow>
                (case (hex_value h, hex_value l) of
                   (Some a, Some b) \<Rightarrow> map_option (Cons (char_of (16 * a + b))) (decode_segment r)
                 | _ \<Rightarrow> None)
            | _ \<Rightarrow> None))"

lemma hex_value_upper: "d < 16 \<Longrightarrow> hex_value (hex_upper d) = Some d"
  by (auto simp: hex_value_def hex_upper_def Let_def)

lemma decode_encode_byte: "decode_segment (encode_byte b @ s) = map_option (Cons b) (decode_segment s)"
proof (cases "unreserved b")
  case True
  moreover have "\<not> unreserved CHR 0x25"
    by (simp add: unreserved_def is_ascii_alphanumeric_def is_ascii_alphabetic_def Let_def)
  ultimately show ?thesis by (auto simp: encode_byte_def)
next
  case False
  have "of_char b div 16 < (16 :: nat)" by (rule less_mult_imp_div_less) simp
  moreover have "16 * (of_char b div 16) + of_char b mod 16 = (of_char b :: nat)" by simp
  ultimately show ?thesis using False by (simp add: encode_byte_def hex_value_upper)
qed

lemma decode_encode_segment: "decode_segment (encode_segment s) = Some s"
  by (induction s) (simp_all add: encode_segment_def decode_encode_byte)

interpretation segment_codec: codec encode_segment decode_segment
  by unfold_locales (rule decode_encode_segment)

lemma encode_segment_plain: "c \<in> set (encode_segment s) \<Longrightarrow> unreserved c \<or> c = CHR 0x25"
proof -
  have "unreserved (hex_upper d)" if "d < 16" for d
    using that by (auto simp: unreserved_def hex_upper_def is_ascii_alphanumeric_def is_ascii_alphabetic_def Let_def)
  moreover have "of_char b div 16 < (16 :: nat)" for b :: char
    by (rule less_mult_imp_div_less) simp
  ultimately show "c \<in> set (encode_segment s) \<Longrightarrow> unreserved c \<or> c = CHR 0x25"
    by (auto simp: encode_segment_def encode_byte_def split: if_splits)
qed

text \<open>
  The conductor URL ends in two path segments from which the application name and the API key
  can be read back, whatever bytes they hold: neither segment contains a slash, a question mark or
  a number sign, and each decodes to what was encoded.
\<close>
theorem conductor_url_segments:
  "\<exists>a k. websocket_url config = trim_end_slashes (cc_url config) @ ''/websocket/'' @ a @ ''/'' @ k \<and>
     decode_segment a = Some (cc_app_name config) \<and> decode_segment k = Some (cc_api_key config) \<and>
     set (a @ k) \<inter> {CHR ''/'', CHR ''?'', CHR ''#''} = {}"
proof -
  have bad: "\<not> unreserved c" "c \<noteq> CHR 0x25" if "c \<in> {CHR ''/'', CHR ''?'', CHR ''#''}" for c
    using that by (auto simp: unreserved_def is_ascii_alphanumeric_def is_ascii_alphabetic_def Let_def)
  have clean: "set (encode_segment s) \<inter> {CHR ''/'', CHR ''?'', CHR ''#''} = {}" for s
  proof (rule equals0I)
    fix c assume c: "c \<in> set (encode_segment s) \<inter> {CHR ''/'', CHR ''?'', CHR ''#''}"
    from encode_segment_plain [OF IntD1 [OF c]] bad [OF IntD2 [OF c]] show False by simp
  qed
  show ?thesis
  proof (intro exI conjI)
    show "websocket_url config = trim_end_slashes (cc_url config) @ ''/websocket/'' @
        encode_segment (cc_app_name config) @ ''/'' @ encode_segment (cc_api_key config)"
      by (rule websocket_url_def)
    show "set (encode_segment (cc_app_name config) @ encode_segment (cc_api_key config)) \<inter>
        {CHR ''/'', CHR ''?'', CHR ''#''} = {}"
      unfolding set_append Int_Un_distrib2 clean by simp
  qed (rule segment_codec.dec_enc)+
qed

subsection \<open>Back-off\<close>

lemma run_conductor_waits:
  "run_conductor metadata as wait db = (stopped, waits, replies, ts, db') \<Longrightarrow> wait \<le> MAX_RECONNECT_WAIT \<Longrightarrow>
   i < length waits \<Longrightarrow> waits ! i = min (wait * 2 ^ i) MAX_RECONNECT_WAIT"
proof (induction "as" arbitrary: wait db stopped waits replies ts db' i)
  case (Cons a as')
  show ?case
  proof (cases i)
    case 0
    with Cons.prems show ?thesis by (auto split: if_splits option.splits sum.splits prod.splits)
  next
    case (Suc j)
    have "next_wait wait \<le> MAX_RECONNECT_WAIT" by (simp add: next_wait_def)
    moreover obtain db1 replies' ts' waits' where
      "run_conductor metadata as' (next_wait wait) db1 = (stopped, waits', replies', ts', db')"
      "waits = wait # waits'"
      using Cons.prems(1,3) Suc by (auto split: if_splits option.splits sum.splits prod.splits)
    ultimately have "waits ! i = min (next_wait wait * 2 ^ j) MAX_RECONNECT_WAIT"
      using Cons.IH Cons.prems(3) Suc by simp
    also have "\<dots> = min (wait * 2 ^ i) MAX_RECONNECT_WAIT"
    proof (cases "wait * 2 \<le> MAX_RECONNECT_WAIT")
      case True
      then show ?thesis by (simp add: next_wait_def Suc mult.assoc min_absorb1)
    next
      case False
      have "MAX_RECONNECT_WAIT \<le> MAX_RECONNECT_WAIT * 2 ^ j" "MAX_RECONNECT_WAIT \<le> wait * 2 ^ i"
        using False by (auto simp: Suc intro: order_trans [of _ "wait * 2"])
      then show ?thesis using False by (simp add: next_wait_def min_absorb2)
    qed
    finally show ?thesis .
  qed
qed simp

subsection \<open>Replies\<close>

lemma get_str_set_field: "k \<noteq> k' \<Longrightarrow> get_str k (set_field k' v resp) = get_str k resp"
  by (cases resp) (simp_all add: get_str_def json_get_def set_field_def map_get_insert)

lemma get_str_set_success:
  "k \<noteq> ''success'' \<Longrightarrow> k \<noteq> ''error_message'' \<Longrightarrow> get_str k (set_success r resp) = get_str k resp"
  by (simp add: set_success_def get_str_set_field split: sum.splits)

lemma get_str_set_output:
  "k \<noteq> ''output'' \<Longrightarrow> k \<noteq> ''error_message'' \<Longrightarrow> get_str k (set_output r resp) = get_str k resp"
  by (simp add: set_output_def get_str_set_field split: sum.splits)

lemma dispatch_keeps:
  assumes "k = ''type'' \<or> k = ''request_id''" and "dispatch rq metadata t msg resp db = ((resp', ts), db')"
  shows "get_str k resp' = get_str k resp"
  using assms
  by (auto simp: dispatch_def Let_def executor_info_def get_workflow_answer_def exist_pending_answer_def
      get_str_set_field get_str_set_success get_str_set_output
      split: if_splits prod.splits sum.splits option.splits list.splits)

text \<open>
  Every reply carries the type and the request id of its request, whatever the request was,
  so the conductor can match it; a request without one of them is answered with an empty text there.
\<close>
theorem reply_echoes_request:
  "get_str ''type'' (fst (fst (answer rq metadata msg db))) = Some (unwrap_or (get_str ''type'' msg) []) \<and>
   get_str ''request_id'' (fst (fst (answer rq metadata msg db))) =
     Some (unwrap_or (get_str ''request_id'' msg) [])"
proof -
  let ?base = "Object (insert_all [(''type'', Some (String (unwrap_or (get_str ''type'' msg) []))),
    (''request_id'', Some (String (unwrap_or (get_str ''request_id'' msg) [])))] [])"
  obtain resp ts db' where d: "dispatch rq metadata (unwrap_or (get_str ''type'' msg) []) msg ?base db = ((resp, ts), db')"
    by (metis prod.collapse)
  have "get_str ''type'' ?base = Some (unwrap_or (get_str ''type'' msg) [])"
    "get_str ''request_id'' ?base = Some (unwrap_or (get_str ''request_id'' msg) [])"
    by (simp_all add: get_str_def json_get_def as_json_string_def)
  with dispatch_keeps [OF _ d] d show ?thesis by (simp add: answer_def Let_def)
qed

subsection \<open>Requests as operations of the system database\<close>

definition request_calls :: "json db_call list \<Rightarrow> bool" where
  "request_calls calls \<longleftrightarrow>
     (\<forall>c \<in> set calls. mover_of c \<in> {Canceller, Resumer, Launcher, Recoverer, Bystander})"

definition plain_calls :: "json db_call list \<Rightarrow> bool" where
  "plain_calls calls \<longleftrightarrow> request_calls calls \<and> (\<forall>c \<in> set calls. \<not> deletes c)"

lemma recover_one_calls:
  "\<exists>calls. snd (recover_one sd inner se rw db) = fold exec_call calls db \<and> plain_calls calls"
proof -
  consider (queue) "rw_queue_name rw \<noteq> None" | (skip) "rw_queue_name rw = None" "di_registry inner (rw_name rw) = None"
    | (start) "rw_queue_name rw = None" "di_registry inner (rw_name rw) \<noteq> None" by blast
  then show ?thesis
  proof cases
    case queue
    then show ?thesis
      by (intro exI [of _ "[ClearCall (rw_id rw)]"])
        (auto simp: recover_one_def plain_calls_def request_calls_def split: prod.splits bool.splits)
  next
    case skip
    then show ?thesis
      by (intro exI [of _ "[]"]) (simp add: recover_one_def plain_calls_def request_calls_def)
  next
    case start
    then show ?thesis
      by (intro exI [of _ "[StartCall sd inner (se (rw_id rw)) (rw_name rw) (rw_inputs rw)
            (recovery_options sd rw) None (from_name (rw_serialization rw)) True]"])
        (auto simp: recover_one_def plain_calls_def request_calls_def split: prod.splits sum.splits)
  qed
qed

lemma plain_calls_append: "plain_calls a \<Longrightarrow> plain_calls b \<Longrightarrow> plain_calls (a @ b)"
  by (auto simp: plain_calls_def request_calls_def)

lemma recover_list_calls:
  "\<exists>calls. snd (recover_list sd inner se rws db) = fold exec_call calls db \<and> plain_calls calls"
proof (induction rws arbitrary: db)
  case Nil
  then show ?case by (intro exI [of _ "[]"]) (simp add: plain_calls_def request_calls_def)
next
  case (Cons rw rws)
  obtain a where a: "snd (recover_one sd inner se rw db) = fold exec_call a db" "plain_calls a"
    using recover_one_calls by blast
  obtain b where b: "snd (recover_list sd inner se rws (fold exec_call a db)) =
      fold exec_call b (fold exec_call a db)" "plain_calls b"
    using Cons by blast
  have "snd (recover_list sd inner se (rw # rws) db) = fold exec_call (a @ b) db"
    using a(1) b(1) by (auto split: prod.splits)
  with plain_calls_append [OF a(2) b(2)] show ?case by blast
qed

lemma recover_calls:
  "\<exists>calls. snd (recover_pending_workflows sd inner se ids db) = fold exec_call calls db \<and> plain_calls calls"
  unfolding recover_pending_workflows_def by (rule recover_list_calls)

definition deleting :: "string \<Rightarrow> bool" where
  "deleting t \<longleftrightarrow> t = ''delete'' \<or> t = ''retention''"

definition as_calls :: "string \<Rightarrow> sysdb \<Rightarrow> sysdb \<Rightarrow> bool" where
  "as_calls t db db' \<longleftrightarrow>
     (\<exists>calls :: json db_call list. db' = fold exec_call calls db \<and> request_calls calls \<and>
        (deleting t \<or> plain_calls calls))"

lemma as_calls_none: "as_calls t db db"
  unfolding as_calls_def by (intro exI [of _ "[]"]) (simp add: plain_calls_def request_calls_def)

lemma as_calls_one:
  "db' = exec_call c db \<Longrightarrow> mover_of c \<in> {Canceller, Resumer, Launcher, Recoverer, Bystander} \<Longrightarrow>
   deleting t \<or> \<not> deletes c \<Longrightarrow>
   as_calls t db db'" for c :: "json db_call"
  unfolding as_calls_def by (intro exI [of _ "[c]"]) (auto simp: plain_calls_def request_calls_def)

lemma as_calls_trans:
  assumes "as_calls t db db1" and "as_calls t db1 db2"
  shows "as_calls t db db2"
proof -
  obtain a b where "db1 = fold exec_call a db" "request_calls a" "deleting t \<or> plain_calls a"
    "db2 = fold exec_call b db1" "request_calls b" "deleting t \<or> plain_calls b"
    using assms unfolding as_calls_def by blast
  then show ?thesis
    unfolding as_calls_def
    by (intro exI [of _ "a @ b"]) (auto simp: plain_calls_append request_calls_def)
qed

lemma as_calls_recover: "as_calls t db (snd (recover_pending_workflows sd inner se ids db))"
  using recover_calls [of sd inner se ids db] unfolding as_calls_def plain_calls_def by blast

lemma as_calls_operator:
  "as_calls t db (snd (cancel_workflows now ids db))" "as_calls t db (snd (resume_workflows now ids q db))"
  "as_calls t db (snd (fork_workflow u now i db))"
  "as_calls t db (snd (cancel_all_before di dv now cutoff db))" for di dv :: "json decoder"
  by (rule as_calls_one [of _ "CancelCall now ids"], simp_all)
    (rule as_calls_one [of _ "ResumeCall now ids q"], simp_all,
     rule as_calls_one [of _ "ForkCall u now i"], simp_all,
     rule as_calls_one [of _ "CancelBeforeCall di dv now cutoff"], simp_all)

lemma as_calls_delete: "as_calls ''delete'' db (delete_workflows ids db)"
  by (rule as_calls_one [of _ "DeleteCall ids"]) (simp_all add: deleting_def)

lemma as_calls_retention: "as_calls ''retention'' db (snd (retention rq body db))"
proof -
  have gc: "as_calls ''retention'' db (garbage_collect c r db)" for c r
    by (rule as_calls_one [of _ "CollectCall c r"]) (simp_all add: deleting_def)
  show ?thesis
    unfolding retention_def Let_def
    by (auto split: option.splits intro: as_calls_trans [OF gc] as_calls_operator(4) gc as_calls_none)
qed

lemma snd_case_pair: "snd (case p of (a, b) \<Rightarrow> (f a, b)) = snd p"
  by (cases p) simp

lemma snd_case_result:
  "snd (case p of (Inl e, b) \<Rightarrow> (f e, b) | (Inr a, b) \<Rightarrow> (g a, b)) = snd p"
  by (cases p) (simp split: sum.splits)

lemma snd_case_nested: "snd (case p of ((a, c), b) \<Rightarrow> (f a c, b)) = snd p"
  by (cases p) (simp split: prod.splits)

lemma dispatch_calls: "as_calls t db (snd (dispatch rq metadata t msg resp db))"
proof (cases "t = ''retention''")
  case True
  then show ?thesis by (simp add: dispatch_def Let_def snd_case_pair as_calls_retention)
next
  case nr: False
  show ?thesis
  proof (cases "t = ''delete''")
    case True
    then show ?thesis by (simp add: dispatch_def Let_def as_calls_delete)
  next
    case False
    with nr show ?thesis
      by (simp add: dispatch_def Let_def as_calls_none as_calls_operator as_calls_recover
          snd_case_result snd_case_nested)
  qed
qed

lemma handle_message_calls:
  "as_calls (case sd_from_str (rq_serde rq) text of Inr msg \<Rightarrow> unwrap_or (get_str ''type'' msg) [] | Inl _ \<Rightarrow> t)
     db (snd (handle_message rq metadata text db))"
  by (simp add: handle_message_def answer_def Let_def as_calls_none dispatch_calls snd_case_nested split: sum.split)

text \<open>The type of a request text, if it parses.\<close>

definition request_type :: "request_env \<Rightarrow> string \<Rightarrow> string" where
  "request_type rq text =
     (case sd_from_str (rq_serde rq) text of Inr msg \<Rightarrow> unwrap_or (get_str ''type'' msg) [] | Inl _ \<Rightarrow> [])"

lemma fold_plain_finished:
  assumes "ws_status r = as_str Success \<or> ws_status r = as_str Error"
  shows "plain_calls calls \<Longrightarrow> finished_as w r db \<Longrightarrow> finished_as w r (fold exec_call calls db)"
proof (induction calls arbitrary: db)
  case (Cons c calls)
  have "spares w c" using Cons.prems(1) by (auto simp: spares_def plain_calls_def request_calls_def)
  then have "finished_as w r (exec_call c db)" by (rule exec_call_finished [OF assms _ Cons.prems(2)])
  moreover have "plain_calls calls" using Cons.prems(1) by (simp add: plain_calls_def request_calls_def)
  ultimately show ?case using Cons.IH by simp
qed simp

lemma as_calls_system_ok: "as_calls t db db' \<Longrightarrow> system_ok db \<Longrightarrow> system_ok db'"
  unfolding as_calls_def by (auto intro: system.run_inv)

lemma as_calls_finished:
  assumes "as_calls t db db'" and "\<not> deleting t" and "system_ok db"
    and f: "find_workflow db w = Some r" and fin: "ws_status r = ''SUCCESS'' \<or> ws_status r = ''ERROR''"
  shows "\<exists>r'. find_workflow db' w = Some r' \<and>
    ws_status r' = ws_status r \<and> ws_output r' = ws_output r \<and> ws_error r' = ws_error r"
proof -
  obtain calls where db': "db' = fold exec_call calls db" and pl: "plain_calls calls"
    using assms(1,2) unfolding as_calls_def by blast
  have "finished_as w r db" using assms(3) f by (simp add: finished_as_def system_ok_def)
  then have "finished_as w r (fold exec_call calls db)"
    by (intro fold_plain_finished pl) (use fin in \<open>simp_all add: as_str.simps\<close>)
  then show ?thesis unfolding db' by (simp add: finished_as_def)
qed

lemma handle_message_as_calls:
  "as_calls (request_type rq text) db (snd (handle_message rq metadata text db))"
  using handle_message_calls [of "[]" rq "text" db metadata]
  by (simp add: request_type_def split: sum.splits)

text \<open>
  C24. The control plane can do no more than an operator: a request keeps every invariant of the
  system database, and unless it is a deletion or a retention request no workflow that finished
  with SUCCESS or ERROR changes its status, output or error.
\<close>
theorem control_plane_is_safe:
  assumes "system_ok db"
  shows "system_ok (snd (handle_message rq metadata text db)) \<and>
    (request_type rq text \<notin> {''delete'', ''retention''} \<and> find_workflow db w = Some r \<and>
       (ws_status r = ''SUCCESS'' \<or> ws_status r = ''ERROR'') \<longrightarrow>
     (\<exists>r'. find_workflow (snd (handle_message rq metadata text db)) w = Some r' \<and>
        ws_status r' = ws_status r \<and> ws_output r' = ws_output r \<and> ws_error r' = ws_error r))"
  using as_calls_system_ok [OF handle_message_as_calls assms]
    as_calls_finished [OF handle_message_as_calls _ assms, of rq "text" w r metadata]
  by (simp add: deleting_def)

definition sample_message :: json where
  "sample_message = Object [(''type'', String ''cancel''), (''workflow_id'', String ''u'')]"

definition sample_request :: request_env where
  "sample_request =
     \<lparr>rq_serde = \<lparr>sd_to_string = (\<lambda>_. []), sd_from_str = (\<lambda>_. Inr sample_message),
        sd_b64_encode = id, sd_b64_decode = Inr\<rparr>,
      rq_decode_input = (\<lambda>_ _. Inr Null), rq_decode_value = (\<lambda>_ _. Inr Null),
      rq_inner = sample_inner ''A'', rq_start = (\<lambda>_. sample_start ''x''), rq_now = 9, rq_uuid = ''z'',
      rq_hostname = None, rq_version = ''0.1.0'', rq_rfc3339 = (\<lambda>_. None)\<rparr>"

definition sample_finished_db :: sysdb where
  "sample_finished_db = fold exec_call
     [StartCall mini_serde (sample_inner ''A'') (sample_start ''x'') ''checkout'' None default_options
        None Portable False,
      OutcomeCall mini_error_serde 6 ''u'' Portable (Inr ''42'') :: unit db_call] empty_db"

lemma sample_finished:
  "\<exists>r. find_workflow sample_finished_db ''u'' = Some r \<and> ws_status r = ''SUCCESS'' \<and> ws_output r = Some ''42''"
proof -
  have reg: "di_registry (sample_inner ''A'') ''checkout'' = Some sample_entry" by (simp add: sample_inner_def)
  have id: "choose_id default_options None (se_uuid (sample_start ''x'')) = ''u''"
    by (simp add: choose_id_def default_options_def sample_start_def)
  have none: "find_workflow empty_db ''u'' = None" by (simp add: find_workflow_def empty_db_def)
  obtain r0 where r0: "find_workflow (exec_call (StartCall mini_serde (sample_inner ''A'') (sample_start ''x'')
      ''checkout'' None default_options None Portable False :: unit db_call) empty_db) ''u'' = Some r0"
    "ws_status r0 = as_str Pending"
    using start_fresh [OF none id reg, of mini_serde None Portable False] by auto
  then show ?thesis
    using r0 find_workflow_SomeD [OF r0(1)]
    by (auto simp: sample_finished_db_def record_outcome_def find_workflow_outcome as_str.simps)
qed

theorem control_plane_is_safe_witness:
  "\<exists>r. find_workflow (snd (handle_message sample_request None ''cancel u'' sample_finished_db)) ''u'' = Some r \<and>
     ws_status r = ''SUCCESS'' \<and> ws_output r = Some ''42''"
proof -
  obtain r where r: "find_workflow sample_finished_db ''u'' = Some r" "ws_status r = ''SUCCESS''"
    "ws_output r = Some ''42''" using sample_finished by blast
  have ok: "system_ok sample_finished_db" unfolding sample_finished_db_def by (rule reachable_ok)
  have t: "request_type sample_request ''cancel u'' = ''cancel''"
    by (simp add: request_type_def sample_request_def sample_message_def get_str_def json_get_def as_json_string_def)
  show ?thesis
    using control_plane_is_safe [OF ok, of sample_request None "''cancel u''" "''u''" r] t r
    by auto
qed

subsection \<open>Filters\<close>

text \<open>
  A status filter that names no known status is no filter: its list becomes empty, and
  \<open>list_workflows\<close> reads an empty list as no condition.
\<close>

lemma unknown_statuses_filter_nothing:
  assumes "string_list (json_get ''status'' body) \<noteq> []"
    and "\<forall>s \<in> set (string_list (json_get ''status'' body)). from_str s = None"
  shows "list_condition (parse_list_filter rfc3339 (Some body) False) r =
    list_condition ((parse_list_filter rfc3339 (Some body) False)\<lparr>lf_status := None\<rparr>) r
    \<or> lf_queues_only (parse_list_filter rfc3339 (Some body) False)"
proof -
  have "List.map_filter from_str xs = []" if "\<forall>s \<in> set xs. from_str s = None" for xs
    using that by (induction xs) (auto simp: List.map_filter_simps)
  then have "lf_status (parse_list_filter rfc3339 (Some body) False) = Some []"
    using assms by (simp add: parse_list_filter_def Let_def status_list_def)
  then show ?thesis by (auto simp: list_condition_def effective_status_def when_set_def)
qed

end
