(* ===== verification/Dbos_Admin.thy ===== *)
theory Dbos_Admin
  imports Dbos_Conductor Dbos_QueueRunner
begin

text \<open>
  The admin HTTP server (\<open>crates/dbos/src/runtime/admin.rs\<close>): its routes and one definition per handler. A
  request is a method, the segments of its path and a body; a response is a status code and a body.
  The deserializers that serde derives for the request structs are parameters (\<open>None\<close> for an
  error), as are the printing of a floating-point period and of a quoted error text. Two latches
  belong to the state beside the database: the \<open>deactivated\<close> flag and the token of the schedulers.
\<close>

subsection \<open>Requests and responses\<close>

datatype http_method = GET | POST

datatype body = JsonBody json | TextBody string | NoBody

record response =
  rp_status :: nat
  rp_body :: body

definition OK :: nat where "OK = 200"
definition NO_CONTENT :: nat where "NO_CONTENT = 204"
definition BAD_REQUEST :: nat where "BAD_REQUEST = 400"
definition NOT_FOUND :: nat where "NOT_FOUND = 404"
definition METHOD_NOT_ALLOWED :: nat where "METHOD_NOT_ALLOWED = 405"
definition INTERNAL_SERVER_ERROR :: nat where "INTERNAL_SERVER_ERROR = 500"

lemmas status_codes = OK_def NO_CONTENT_def BAD_REQUEST_def NOT_FOUND_def METHOD_NOT_ALLOWED_def
  INTERNAL_SERVER_ERROR_def

definition json_response :: "json \<Rightarrow> response" where
  "json_response j = \<lparr>rp_status = OK, rp_body = JsonBody j\<rparr>"

definition text_response :: "nat \<Rightarrow> string \<Rightarrow> response" where
  "text_response st t = \<lparr>rp_status = st, rp_body = TextBody t\<rparr>"

definition status_response :: "nat \<Rightarrow> response" where
  "status_response st = \<lparr>rp_status = st, rp_body = NoBody\<rparr>"

record RetentionReq =
  rt_cutoff_epoch_timestamp_ms :: "int option"
  rt_rows_threshold :: "int option"

record ForkReq =
  fr_start_step :: "int option"
  fr_new_workflow_id :: "string option"
  fr_application_version :: "string option"

record 'd admin_env =
  ad_request :: request_env
  ad_queues :: "'d WorkflowQueue list"
  ad_period :: "nat \<Rightarrow> json"
  ad_ids_from :: "string \<Rightarrow> string list option"
  ad_retention_from :: "string \<Rightarrow> RetentionReq option"
  ad_timeout_from :: "string \<Rightarrow> int option"
  ad_fork_from :: "string \<Rightarrow> ForkReq option"

record admin_state =
  as_db :: sysdb
  as_deactivated :: bool
  as_schedulers_cancelled :: bool

text \<open>An empty body is the default of the type.\<close>

definition parse_or_default :: "(string \<Rightarrow> 'a option) \<Rightarrow> 'a \<Rightarrow> string \<Rightarrow> 'a option" where
  "parse_or_default parse dflt body_text = (if trim body_text = [] then Some dflt else parse body_text)"

subsection \<open>Wire forms\<close>

definition admin_queue_to_wire :: "(nat \<Rightarrow> json) \<Rightarrow> 'd WorkflowQueue \<Rightarrow> json" where
  "admin_queue_to_wire period q = Object (insert_all
     [(''name'', Some (String (wq_name q))),
      (''concurrency'', map_option (\<lambda>n. json_int (int n)) (wq_global_concurrency q)),
      (''workerConcurrency'', map_option (\<lambda>n. json_int (int n)) (wq_worker_concurrency q)),
      (''priorityEnabled'', if wq_priority_enabled q then Some (Bool True) else None),
      (''rateLimit'', map_option (\<lambda>r. Object (insert_all
          [(''Limit'', Some (json_int (int (rl_limit r)))), (''Period'', Some (period (rl_period r)))] []))
          (wq_rate_limit q)),
      (''maxTasksPerIteration'', Some (json_int (int (wq_max_tasks_per_iteration q)))),
      (''partitionQueue'', if wq_partition_queue q then Some (Bool True) else None)] [])"

definition admin_workflow_to_wire :: "serde \<Rightarrow> json WorkflowStatus \<Rightarrow> json" where
  "admin_workflow_to_wire sd w = Object (insert_all
     [(''WorkflowUUID'', Some (String (wf_id w))),
      (''Status'', Some (String (as_str (wf_status w)))),
      (''WorkflowName'', Some (String (wf_name w))),
      (''Attempts'', Some (json_int (wf_recovery_attempts w))),
      (''Priority'', Some (json_int (wf_priority w))),
      (''CreatedAt'', Some (String (show_int (wf_created_at w)))),
      (''UpdatedAt'', Some (String (show_int (wf_updated_at w)))),
      (''QueueName'', map_option String (wf_queue_name w)),
      (''ExecutorID'', map_option String (wf_executor_id w)),
      (''ApplicationVersion'', map_option String (wf_application_version w)),
      (''DeduplicationID'', map_option String (wf_deduplication_id w)),
      (''ParentWorkflowID'', map_option String (wf_parent_workflow_id w)),
      (''Input'', Some (String (unwrap_or (map_option (sd_to_string sd) (wf_input w)) []))),
      (''Output'', Some (String (unwrap_or (map_option (sd_to_string sd) (wf_output w)) []))),
      (''Error'', Some (String (unwrap_or (map_option (\<lambda>e. sd_to_string sd (String e)) (wf_error w)) []))),
      (''CompletedAt'', map_option (\<lambda>c. String (show_int c)) (wf_completed_at w)),
      (''StartedAt'',
        if wf_status w = Pending then map_option (\<lambda>s. String (show_int s)) (wf_started_at w) else None)] [])"

definition admin_step_to_wire :: "serde \<Rightarrow> json StepInfo \<Rightarrow> json" where
  "admin_step_to_wire sd s = Object (insert_all
     [(''function_id'', Some (json_int (si_step_id s))),
      (''function_name'', Some (String (si_step_name s))),
      (''output'', Some (String (unwrap_or (map_option (sd_to_string sd) (si_output s)) []))),
      (''child_workflow_id'', map_option String (si_child_workflow_id s)),
      (''started_at_epoch_ms'', map_option json_int (si_started_at s)),
      (''completed_at_epoch_ms'', map_option json_int (si_completed_at s)),
      (''error'', map_option (\<lambda>e. String (sd_to_string sd (String e))) (si_error s))] [])"

text \<open>The filter of the listing: text that is not JSON is refused, an empty body is \<open>{}\<close>.\<close>

definition parse_filter :: "request_env \<Rightarrow> string \<Rightarrow> bool \<Rightarrow> ListWorkflowsFilter option" where
  "parse_filter rq body_text queues_only =
     (case (if trim body_text = [] then Inr (Object []) else sd_from_str (rq_serde rq) body_text) of
        Inl _ \<Rightarrow> None
      | Inr v \<Rightarrow>
          (let iso = (\<lambda>k. Option.bind (get_str k v) (rq_rfc3339 rq));
               status = map_option (\<lambda>s. [s]) (Option.bind (get_str ''status'' v) from_str)
           in Some
             \<lparr>lf_workflow_ids =
                (case json_get ''workflow_uuids'' v of
                   Some (Array a) \<Rightarrow> Some (List.map_filter as_json_string a)
                 | _ \<Rightarrow> None),
              lf_status =
                (if queues_only \<and> status = None then Some [Enqueued, Pending, Delayed] else status),
              lf_workflow_name = get_str ''workflow_name'' v,
              lf_queue_name = get_str ''queue_name'' v,
              lf_queues_only = queues_only,
              lf_application_version = get_str ''application_version'' v,
              lf_executor_ids = None,
              lf_start_time = iso ''start_time'',
              lf_end_time = iso ''end_time'',
              lf_limit = get_i64 ''limit'' v,
              lf_offset = get_i64 ''offset'' v,
              lf_sort_desc = unwrap_or (get_bool ''sort_desc'' v) False\<rparr>))"

subsection \<open>Handlers\<close>

definition healthz :: response where
  "healthz = json_response (Object [(''status'', String ''healthy'')])"

definition conductor_probe :: response where
  "conductor_probe = json_response (Object [(''status'', Bool True)])"

definition deactivate :: "admin_state \<Rightarrow> response \<times> admin_state" where
  "deactivate st =
     (text_response OK ''deactivated'',
      if \<not> as_deactivated st then st\<lparr>as_deactivated := True, as_schedulers_cancelled := True\<rparr> else st)"

definition admin_recovery ::
  "'d admin_env \<Rightarrow> string \<Rightarrow> sysdb \<Rightarrow> (response \<times> task list) \<times> sysdb" where
  "admin_recovery ad body_text db =
     (case ad_ids_from ad body_text of
        None \<Rightarrow> ((text_response BAD_REQUEST ''Invalid JSON body'', []), db)
      | Some executor_ids \<Rightarrow>
          (case recover_pending_workflows (rq_serde (ad_request ad)) (rq_inner (ad_request ad))
                  (rq_start (ad_request ad)) executor_ids db of
             ((ids, ts), db1) \<Rightarrow> ((json_response (Array (map String ids)), ts), db1)))"

definition queues_metadata :: "'d admin_env \<Rightarrow> response" where
  "queues_metadata ad = json_response (Array (map (admin_queue_to_wire (ad_period ad)) (ad_queues ad)))"

definition admin_garbage_collect :: "'d admin_env \<Rightarrow> string \<Rightarrow> sysdb \<Rightarrow> response \<times> sysdb" where
  "admin_garbage_collect ad body_text db =
     (case parse_or_default (ad_retention_from ad)
             \<lparr>rt_cutoff_epoch_timestamp_ms = None, rt_rows_threshold = None\<rparr> body_text of
        None \<Rightarrow> (text_response BAD_REQUEST ''Invalid JSON body'', db)
      | Some r \<Rightarrow> (status_response NO_CONTENT,
                   garbage_collect (rt_cutoff_epoch_timestamp_ms r) (rt_rows_threshold r) db))"

definition global_timeout :: "'d admin_env \<Rightarrow> string \<Rightarrow> sysdb \<Rightarrow> response \<times> sysdb" where
  "global_timeout ad body_text db =
     (case ad_timeout_from ad body_text of
        None \<Rightarrow> (text_response BAD_REQUEST ''Invalid JSON body'', db)
      | Some cutoff \<Rightarrow>
          (case cancel_all_before (rq_decode_input (ad_request ad)) (rq_decode_value (ad_request ad))
                  (rq_now (ad_request ad)) cutoff db of
             (Inr _, db1) \<Rightarrow> (status_response NO_CONTENT, db1)
           | (Inl e, db1) \<Rightarrow>
               (text_response INTERNAL_SERVER_ERROR (''Global timeout failed: '' @ display e), db1)))"

definition admin_list_workflows :: "'d admin_env \<Rightarrow> string \<Rightarrow> sysdb \<Rightarrow> response" where
  "admin_list_workflows ad body_text db =
     (case parse_filter (ad_request ad) body_text False of
        None \<Rightarrow> text_response BAD_REQUEST ''Invalid JSON input''
      | Some f \<Rightarrow>
          (case list_workflows (rq_decode_input (ad_request ad)) (rq_decode_value (ad_request ad)) f db of
             Inr wfs \<Rightarrow>
               json_response (Array (map (admin_workflow_to_wire (rq_serde (ad_request ad))) wfs))
           | Inl e \<Rightarrow> text_response INTERNAL_SERVER_ERROR (display e)))"

definition admin_get_workflow :: "'d admin_env \<Rightarrow> string \<Rightarrow> sysdb \<Rightarrow> response" where
  "admin_get_workflow ad w db =
     (case list_workflows (rq_decode_input (ad_request ad)) (rq_decode_value (ad_request ad))
             (default_filter\<lparr>lf_workflow_ids := Some [w]\<rparr>) db of
        Inr [] \<Rightarrow> text_response NOT_FOUND ''Workflow not found''
      | Inr (x # _) \<Rightarrow> json_response (admin_workflow_to_wire (rq_serde (ad_request ad)) x)
      | Inl e \<Rightarrow> text_response INTERNAL_SERVER_ERROR (display e))"

definition admin_list_steps :: "'d admin_env \<Rightarrow> string \<Rightarrow> sysdb \<Rightarrow> response" where
  "admin_list_steps ad w db =
     json_response (Array (map (admin_step_to_wire (rq_serde (ad_request ad)))
       (get_workflow_steps (rq_decode_value (ad_request ad)) w db)))"

definition admin_cancel :: "'d admin_env \<Rightarrow> string \<Rightarrow> sysdb \<Rightarrow> response \<times> sysdb" where
  "admin_cancel ad w db =
     (status_response NO_CONTENT, snd (cancel_workflows (rq_now (ad_request ad)) [w] db))"

definition admin_resume :: "'d admin_env \<Rightarrow> string \<Rightarrow> sysdb \<Rightarrow> response \<times> sysdb" where
  "admin_resume ad w db =
     (status_response NO_CONTENT,
      snd (resume_workflows (rq_now (ad_request ad)) [w] INTERNAL_QUEUE_NAME db))"

definition admin_fork :: "'d admin_env \<Rightarrow> string \<Rightarrow> string \<Rightarrow> sysdb \<Rightarrow> response \<times> sysdb" where
  "admin_fork ad w body_text db =
     (case parse_or_default (ad_fork_from ad)
             \<lparr>fr_start_step = None, fr_new_workflow_id = None, fr_application_version = None\<rparr> body_text of
        None \<Rightarrow> (text_response BAD_REQUEST ''Invalid JSON input'', db)
      | Some r \<Rightarrow>
          (case fork_workflow (rq_uuid (ad_request ad)) (rq_now (ad_request ad))
                  \<lparr>fk_original_workflow_id = w, fk_forked_workflow_id = fr_new_workflow_id r,
                   fk_start_step = unwrap_or (fr_start_step r) 0,
                   fk_application_version = fr_application_version r, fk_queue_name = None,
                   fk_queue_partition_key = None\<rparr> db of
             (Inr new_id, db1) \<Rightarrow> (json_response (Object [(''workflow_id'', String new_id)]), db1)
           | (Inl e, db1) \<Rightarrow> (text_response INTERNAL_SERVER_ERROR (display e), db1)))"

subsection \<open>The router\<close>

definition on_admin_db ::
  "(sysdb \<Rightarrow> response \<times> sysdb) \<Rightarrow> admin_state \<Rightarrow> (response \<times> task list) \<times> admin_state" where
  "on_admin_db f st = (case f (as_db st) of (r, db1) \<Rightarrow> ((r, []), st\<lparr>as_db := db1\<rparr>))"

definition reading :: "(sysdb \<Rightarrow> response) \<Rightarrow> admin_state \<Rightarrow> (response \<times> task list) \<times> admin_state" where
  "reading f st = ((f (as_db st), []), st)"

text \<open>
  A route: the method it takes, and its handler. A path parameter is a segment that is not empty,
  as axum's router has it.
\<close>

type_synonym 'd route = "http_method \<times> (string \<Rightarrow> admin_state \<Rightarrow> (response \<times> task list) \<times> admin_state)"

definition route_of :: "'d admin_env \<Rightarrow> string list \<Rightarrow> 'd route option" where
  "route_of ad path =
     (if path = [''dbos-healthz''] then Some (GET, \<lambda>_. reading (\<lambda>_. healthz))
      else if path = [''dbos-workflow-recovery''] then
        Some (POST, \<lambda>b st. case admin_recovery ad b (as_db st) of
                (out, db1) \<Rightarrow> (out, st\<lparr>as_db := db1\<rparr>))
      else if path = [''deactivate''] then
        Some (GET, \<lambda>_ st. case deactivate st of (r, st1) \<Rightarrow> ((r, []), st1))
      else if path = [''conductor''] then Some (GET, \<lambda>_. reading (\<lambda>_. conductor_probe))
      else if path = [''dbos-workflow-queues-metadata''] then
        Some (GET, \<lambda>_. reading (\<lambda>_. queues_metadata ad))
      else if path = [''dbos-garbage-collect''] then
        Some (POST, \<lambda>b. on_admin_db (admin_garbage_collect ad b))
      else if path = [''dbos-global-timeout''] then Some (POST, \<lambda>b. on_admin_db (global_timeout ad b))
      else if path = [''workflows''] then Some (POST, \<lambda>b. reading (admin_list_workflows ad b))
      else (case path of
          [ws, w] \<Rightarrow>
            (if ws = ''workflows'' \<and> w \<noteq> [] then Some (GET, \<lambda>_. reading (admin_get_workflow ad w)) else None)
        | [ws, w, action] \<Rightarrow>
            (if ws \<noteq> ''workflows'' \<or> w = [] then None
             else if action = ''steps'' then Some (GET, \<lambda>_. reading (admin_list_steps ad w))
             else if action = ''cancel'' then Some (POST, \<lambda>_. on_admin_db (admin_cancel ad w))
             else if action = ''resume'' then Some (POST, \<lambda>_. on_admin_db (admin_resume ad w))
             else if action = ''fork'' then Some (POST, \<lambda>b. on_admin_db (admin_fork ad w b))
             else None)
        | _ \<Rightarrow> None))"

definition router ::
  "'d admin_env \<Rightarrow> http_method \<Rightarrow> string list \<Rightarrow> string \<Rightarrow> admin_state \<Rightarrow>
   (response \<times> task list) \<times> admin_state" where
  "router ad meth path body_text st =
     (case route_of ad path of
        None \<Rightarrow> ((status_response NOT_FOUND, []), st)
      | Some (m, handler) \<Rightarrow>
          if m = meth then handler body_text st else ((status_response METHOD_NOT_ALLOWED, []), st))"

subsection \<open>What a request can do\<close>

definition request_kind :: "string list \<Rightarrow> string" where
  "request_kind path = (if path = [''dbos-garbage-collect''] then ''retention'' else [])"

lemma as_calls_collect: "as_calls ''retention'' db (garbage_collect c r db)"
  by (rule as_calls_one [of _ "CollectCall c r"]) (simp_all add: deleting_def)

lemma as_calls_handlers:
  "as_calls t db (snd (admin_recovery ad b db))" "as_calls ''retention'' db (snd (admin_garbage_collect ad b db))"
  "as_calls t db (snd (global_timeout ad b db))" "as_calls t db (snd (admin_cancel ad w db))"
  "as_calls t db (snd (admin_resume ad w db))" "as_calls t db (snd (admin_fork ad w b db))"
  by (simp_all add: admin_recovery_def admin_garbage_collect_def global_timeout_def admin_cancel_def
      admin_resume_def admin_fork_def snd_case_nested snd_case_result as_calls_none as_calls_recover
      as_calls_collect as_calls_operator split: option.split)

lemma as_db_on_admin_db:
  "as_db (snd (on_admin_db f st)) = snd (f (as_db st))"
  "as_deactivated (snd (on_admin_db f st)) = as_deactivated st"
  "as_schedulers_cancelled (snd (on_admin_db f st)) = as_schedulers_cancelled st"
  by (simp_all add: on_admin_db_def split: prod.split)

lemma as_db_stored:
  "as_db (snd (case p of (out, db1) \<Rightarrow> (out, st\<lparr>as_db := db1\<rparr>))) = snd p"
  "as_deactivated (snd (case p of (out, db1) \<Rightarrow> (out, st\<lparr>as_db := db1\<rparr>))) = as_deactivated st"
  "as_schedulers_cancelled (snd (case p of (out, db1) \<Rightarrow> (out, st\<lparr>as_db := db1\<rparr>))) =
     as_schedulers_cancelled st"
  by (simp_all split: prod.split)

lemma as_db_reading [simp]: "snd (reading f st) = st"
  by (simp add: reading_def)

lemma route_calls:
  assumes "route_of ad path = Some (m, handler)"
  shows "as_calls (request_kind path) (as_db st) (as_db (snd (handler b st)))"
    and "m = GET \<Longrightarrow> as_db (snd (handler b st)) = as_db st"
    and "path \<noteq> [''deactivate''] \<Longrightarrow> as_deactivated (snd (handler b st)) = as_deactivated st \<and>
      as_schedulers_cancelled (snd (handler b st)) = as_schedulers_cancelled st"
  using assms
  by (auto simp: route_of_def request_kind_def as_db_on_admin_db as_db_stored as_calls_handlers as_calls_none
      deactivate_def split: if_splits list.splits)

lemma get_route_state:
  assumes "route_of ad path = Some (GET, handler)" and "path \<noteq> [''deactivate'']"
  shows "snd (handler b st) = st"
  using route_calls(2) [OF assms(1) refl, of b st] route_calls(3) [OF assms, of b st]
  by (cases st; cases "snd (handler b st)") simp

text \<open>
  C32. The admin server is as safe as an operator: a request keeps every invariant of the system
  database; a GET request never changes the database, and only GET /deactivate changes anything,
  namely the first one sets the flag and cancels the schedulers and nothing else; an unknown path or a wrong
  method changes nothing at all; only a garbage collection touches a workflow that finished with
  SUCCESS or ERROR; and deactivation is a latch no request undoes.
\<close>
theorem admin_server_is_safe:
  assumes "system_ok (as_db st)" and "router ad meth path b st = ((resp, ts), st')"
  shows "system_ok (as_db st') \<and>
    (meth = GET \<longrightarrow> as_db st' = as_db st) \<and>
    (meth = GET \<and> path \<noteq> [''deactivate''] \<longrightarrow> st' = st) \<and>
    (meth = GET \<and> path = [''deactivate''] \<longrightarrow>
       st' = (if as_deactivated st then st else st\<lparr>as_deactivated := True, as_schedulers_cancelled := True\<rparr>)) \<and>
    (route_of ad path = None \<longrightarrow> rp_status resp = NOT_FOUND \<and> st' = st) \<and>
    (as_deactivated st \<longrightarrow> as_deactivated st') \<and>
    (path \<noteq> [''dbos-garbage-collect''] \<and> find_workflow (as_db st) w = Some r \<and>
       (ws_status r = ''SUCCESS'' \<or> ws_status r = ''ERROR'') \<longrightarrow>
     (\<exists>r'. find_workflow (as_db st') w = Some r' \<and>
        ws_status r' = ws_status r \<and> ws_output r' = ws_output r \<and> ws_error r' = ws_error r))"
proof (intro conjI impI)
  have st': "st' = snd (router ad meth path b st)" using assms(2) by simp
  have calls: "as_calls (request_kind path) (as_db st) (as_db st')"
    unfolding st' router_def by (auto split: option.split intro: as_calls_none route_calls(1))
  show "system_ok (as_db st')" by (rule as_calls_system_ok [OF calls assms(1)])
  show "as_db st' = as_db st" if "meth = GET"
    using that unfolding st' router_def by (auto split: option.split intro: route_calls(2))
  show "st' = st" if "meth = GET \<and> path \<noteq> [''deactivate'']"
    using that unfolding st' router_def by (auto split: option.split intro: get_route_state)
  show "st' = (if as_deactivated st then st else st\<lparr>as_deactivated := True, as_schedulers_cancelled := True\<rparr>)"
    if "meth = GET \<and> path = [''deactivate'']"
    using that unfolding st' router_def by (simp add: route_of_def deactivate_def)
  show "rp_status resp = NOT_FOUND" "st' = st" if "route_of ad path = None"
    using that assms(2) by (auto simp: router_def status_response_def)
  show "as_deactivated st'" if on: "as_deactivated st"
  proof (cases "path = [''deactivate'']")
    case True
    then show ?thesis using on unfolding st' router_def by (simp add: route_of_def deactivate_def)
  next
    case False
    then show ?thesis using on unfolding st' router_def by (auto split: option.split simp: route_calls(3))
  qed
  assume "path \<noteq> [''dbos-garbage-collect''] \<and> find_workflow (as_db st) w = Some r \<and>
    (ws_status r = ''SUCCESS'' \<or> ws_status r = ''ERROR'')"
  then show "\<exists>r'. find_workflow (as_db st') w = Some r' \<and>
        ws_status r' = ws_status r \<and> ws_output r' = ws_output r \<and> ws_error r' = ws_error r"
    by (intro as_calls_finished [OF calls _ assms(1)]) (simp_all add: request_kind_def deleting_def)
qed

definition sample_admin :: "nat admin_env" where
  "sample_admin =
     \<lparr>ad_request = sample_request, ad_queues = [jobs_queue], ad_period = (\<lambda>_. Null), ad_ids_from = (\<lambda>_. None),
      ad_retention_from = (\<lambda>_. None), ad_timeout_from = (\<lambda>_. None), ad_fork_from = (\<lambda>_. None)\<rparr>"

theorem admin_server_is_safe_witness:
  "\<exists>resp ts st' r. router sample_admin POST [''workflows'', ''u'', ''cancel''] []
       \<lparr>as_db = sample_finished_db, as_deactivated = True, as_schedulers_cancelled = True\<rparr> = ((resp, ts), st') \<and>
     as_deactivated st' \<and> find_workflow (as_db st') ''u'' = Some r \<and> ws_status r = ''SUCCESS''"
proof -
  let ?st = "\<lparr>as_db = sample_finished_db, as_deactivated = True, as_schedulers_cancelled = True\<rparr>"
  obtain resp ts st' where run: "router sample_admin POST [''workflows'', ''u'', ''cancel''] [] ?st = ((resp, ts), st')"
    by (metis prod.collapse)
  obtain r where r: "find_workflow sample_finished_db ''u'' = Some r" "ws_status r = ''SUCCESS''"
    using sample_finished by blast
  have ok: "system_ok (as_db ?st)"
    unfolding sample_finished_db_def admin_state.simps by (rule reachable_ok)
  show ?thesis
    using admin_server_is_safe [OF ok run, of "''u''" r] r run
    by auto
qed

text \<open>Cancelling an unknown workflow is answered like any other cancellation, and does nothing.\<close>

lemma admin_cancel_unknown:
  assumes "find_workflow db w = None"
  shows "admin_cancel ad w db = (status_response NO_CONTENT, db)"
proof -
  have "\<forall>r \<in> set (workflow_status db). ws_workflow_uuid r \<noteq> w"
    using assms by (auto simp: find_workflow_def find_key_def find_None_iff)
  then have "sql_update (\<lambda>r. ws_workflow_uuid r \<in> set [w] \<and>
      ws_status r \<notin> {as_str Success, as_str Error, as_str Cancelled}) (cancel_row n) (workflow_status db) =
      workflow_status db" for n
    by (auto simp: sql_update_def intro!: map_idI)
  then show ?thesis by (simp add: admin_cancel_def cancel_workflows_def)
qed

end
