(* ===== verification/Dbos_Runtime.thy ===== *)
theory Dbos_Runtime
  imports Dbos_Config Dbos_Migrate Dbos_Client Dbos_Admin Dbos_Scheduler
begin

text \<open>
  The builder and the runtime handle (\<open>crates/dbos/src/runtime/mod.rs\<close>): registration, \<open>launch\<close>, and the calls
  of a launched runtime. The erased handler of a registration is \<open>erased_handler\<close> of the workflow
  theory, so a registration takes a handler. A launch is a function of what the environment
  answers (configuration variables, the connection, the migration server, fresh ids); it returns
  the background tasks it spawns, in order. The queues are an association list, as the order of the
  hash map is not fixed by the code and nothing depends on it. Waiting, and shutting down, have no
  effect on the state and are left out.
\<close>

subsection \<open>Registration\<close>

definition DEFAULT_MAX_RECOVERY_ATTEMPTS :: int where
  "DEFAULT_MAX_RECOVERY_ATTEMPTS = 100"

record RegistrationOptions =
  ro_max_retries :: int

definition default_registration :: RegistrationOptions where
  "default_registration = \<lparr>ro_max_retries = DEFAULT_MAX_RECOVERY_ATTEMPTS\<rparr>"

record ('p, 'd) DbosBuilder =
  bd_config :: "('p, (string \<times> json) list) Config"
  bd_registry :: "string \<Rightarrow> RegistryEntry option"
  bd_queues :: "(string \<times> 'd WorkflowQueue) list"
  bd_schedules :: "(string \<times> string) list"
  bd_registration_error :: "DbosError option"

definition new_builder :: "('p, (string \<times> json) list) Config \<Rightarrow> ('p, 'd) DbosBuilder" where
  "new_builder config =
     \<lparr>bd_config = config, bd_registry = (\<lambda>_. None), bd_queues = [], bd_schedules = [],
      bd_registration_error = None\<rparr>"

text \<open>Only the first conflict is kept.\<close>

definition note_conflict :: "string \<Rightarrow> ('p, 'd) DbosBuilder \<Rightarrow> ('p, 'd) DbosBuilder" where
  "note_conflict name b =
     (if bd_registration_error b = None
      then b\<lparr>bd_registration_error := Some (conflicting_registration name)\<rparr> else b)"

definition register_queue :: "'d WorkflowQueue \<Rightarrow> ('p, 'd) DbosBuilder \<Rightarrow> ('p, 'd) DbosBuilder" where
  "register_queue q b =
     (if wq_name q \<in> fst ` set (bd_queues b) then note_conflict (wq_name q) b
      else b\<lparr>bd_queues := bd_queues b @ [(wq_name q, q)]\<rparr>)"

definition register_workflow_with_options ::
  "string \<Rightarrow> RegistrationOptions \<Rightarrow> handler \<Rightarrow> ('p, 'd) DbosBuilder \<Rightarrow> ('p, 'd) DbosBuilder" where
  "register_workflow_with_options name opts h b =
     (if bd_registry b name \<noteq> None then note_conflict name b
      else b\<lparr>bd_registry := (bd_registry b)(name \<mapsto>
             \<lparr>re_handler = h, re_max_retries = ro_max_retries opts, re_name = name,
              re_class_name = None, re_config_name = None\<rparr>)\<rparr>)"

definition register_workflow :: "string \<Rightarrow> handler \<Rightarrow> ('p, 'd) DbosBuilder \<Rightarrow> ('p, 'd) DbosBuilder" where
  "register_workflow name h = register_workflow_with_options name default_registration h"

definition register_scheduled ::
  "string \<Rightarrow> string \<Rightarrow> handler \<Rightarrow> ('p, 'd) DbosBuilder \<Rightarrow> ('p, 'd) DbosBuilder" where
  "register_scheduled name cron h b =
     register_workflow name h (b\<lparr>bd_schedules := bd_schedules b @ [(name, cron)]\<rparr>)"

subsection \<open>Launch\<close>

datatype 'd background =
    ListenerTask
  | QueueTask "'d WorkflowQueue"
  | SchedulerTask string string
  | ConductorTask ConductorConfig
  | AdminTask nat

record 'd Dbos =
  dh_inner :: DbosInner
  dh_schema :: string
  dh_queues :: "(string \<times> 'd WorkflowQueue) list"
  dh_background :: "'d background list"
  dh_recovered :: "string list"
  dh_tasks :: "task list"

record ('c, 'd) launch_env =
  le_serde :: serde
  le_hash :: "string + string"
  le_vars :: env
  le_connect :: "string \<Rightarrow> sqlx_error option"
  le_postgres :: "'c postgres"
  le_files :: files
  le_start :: "string \<Rightarrow> start_env"
  le_one_second :: 'd
  le_two_minutes :: 'd

text \<open>The database server: what the migrations see of it, and the rows of the system tables.\<close>

record 'c world =
  wd_server :: "'c server"
  wd_db :: sysdb

definition with_internal_queue ::
  "'d \<Rightarrow> 'd \<Rightarrow> (string \<times> 'd WorkflowQueue) list \<Rightarrow> (string \<times> 'd WorkflowQueue) list" where
  "with_internal_queue one_second two_minutes queues =
     (if INTERNAL_QUEUE_NAME \<in> fst ` set queues then queues
      else queues @ [(INTERNAL_QUEUE_NAME, new_queue one_second two_minutes INTERNAL_QUEUE_NAME)])"

definition launched_inner ::
  "('p, 'm) ProcessedConfig \<Rightarrow> (string \<Rightarrow> RegistryEntry option) \<Rightarrow> DbosInner" where
  "launched_inner pc registry =
     \<lparr>di_executor_id = pc_executor_id pc, di_application_version = pc_application_version pc,
      di_application_id = (if pc_application_id pc = [] then None else Some (pc_application_id pc)),
      di_registry = registry\<rparr>"

definition spawned_background ::
  "('p, 'm) ProcessedConfig \<Rightarrow> ConductorConfig option \<Rightarrow> (string \<times> 'd WorkflowQueue) list \<Rightarrow>
   (string \<times> string) list \<Rightarrow> 'd background list" where
  "spawned_background pc conductor_cfg queues schedules =
     ListenerTask # map (QueueTask \<circ> snd) queues @
     map (\<lambda>(name, cron). SchedulerTask name cron) schedules @
     (case conductor_cfg of Some cc \<Rightarrow> [ConductorTask cc] | None \<Rightarrow> []) @
     (if pc_admin_server pc then [AdminTask (pc_admin_server_port pc)] else [])"

definition launch ::
  "('c, 'd) launch_env \<Rightarrow> ('p, 'd) DbosBuilder \<Rightarrow> ('c world, stop, 'd Dbos) eff" where
  "launch le b w =
     (case bd_registration_error b of
        Some e \<Rightarrow> (Inl (Failed e), w)
      | None \<Rightarrow>
          (case process_config_with_env (le_hash le) (bd_config b) (le_vars le) of
             Inl e \<Rightarrow> (Inl (Failed e), w)
           | Inr pc \<Rightarrow>
               (let conductor_cfg = config_from (le_vars le ''DBOS_DOMAIN'') (pc_conductor_api_key pc)
                      (pc_conductor_url pc) (pc_app_name pc) (pc_conductor_executor_metadata pc)
                in case (if pc_system_db_pool pc \<noteq> None then None
                         else le_connect le (unwrap_or (pc_database_url pc) [])) of
                     Some e \<Rightarrow> (Inl (Failed (from_sqlx e)), w)
                   | None \<Rightarrow>
                       (case run_migrations (le_postgres le) (le_files le) (pc_database_schema pc) (wd_server w) of
                          (Inl e, sv) \<Rightarrow> (Inl e, w\<lparr>wd_server := sv\<rparr>)
                        | (Inr _, sv) \<Rightarrow>
                            (let queues = with_internal_queue (le_one_second le) (le_two_minutes le) (bd_queues b);
                                 inner = launched_inner pc (bd_registry b)
                             in case recover_pending_workflows (le_serde le) inner (le_start le)
                                       [di_executor_id inner] (wd_db w) of
                                  ((ids, ts), db1) \<Rightarrow>
                                    (Inr \<lparr>dh_inner = inner, dh_schema = pc_database_schema pc,
                                          dh_queues = queues,
                                          dh_background =
                                            spawned_background pc conductor_cfg queues (bd_schedules b),
                                          dh_recovered = ids, dh_tasks = ts\<rparr>,
                                     w\<lparr>wd_server := sv, wd_db := db1\<rparr>))))))"

subsection \<open>Calls of the handle\<close>

definition run_workflow ::
  "serde \<Rightarrow> (PortableArgs \<Rightarrow> string) \<Rightarrow> ('p \<Rightarrow> string + json) \<Rightarrow> 'd Dbos \<Rightarrow> start_env \<Rightarrow> string \<Rightarrow> 'p \<Rightarrow>
   WorkflowOptions \<Rightarrow> (WorkflowHandle \<times> task option) db_op" where
  "run_workflow sd args_to to_value d se name input opts db =
     (case encode_input sd args_to to_value input Portable of
        Inl e \<Rightarrow> (Inl e, db)
      | Inr encoded \<Rightarrow>
          start_workflow sd (dh_inner d) se name (Some encoded) opts None Portable False db)"

definition enqueue ::
  "serde \<Rightarrow> (PortableArgs \<Rightarrow> string) \<Rightarrow> ('p \<Rightarrow> string + json) \<Rightarrow> 'd Dbos \<Rightarrow> start_env \<Rightarrow> string \<Rightarrow> string \<Rightarrow>
   'p \<Rightarrow> EnqueueOptions \<Rightarrow> WorkflowHandle db_op" where
  "enqueue sd args_to to_value d se queue_name workflow_name input opts db =
     (case encode_input sd args_to to_value input Portable of
        Inl e \<Rightarrow> (Inl e, db)
      | Inr encoded \<Rightarrow>
          enqueue_workflow (dh_inner d) se queue_name workflow_name (Some encoded) opts db)"

definition retrieve_workflow :: "string \<Rightarrow> WorkflowHandle" where
  "retrieve_workflow w = polling w"

definition recover_own_workflows ::
  "serde \<Rightarrow> 'd Dbos \<Rightarrow> (string \<Rightarrow> start_env) \<Rightarrow> sysdb \<Rightarrow> (string list \<times> task list) \<times> sysdb" where
  "recover_own_workflows sd d se =
     recover_pending_workflows sd (dh_inner d) se [di_executor_id (dh_inner d)]"

definition recover_workflows ::
  "serde \<Rightarrow> 'd Dbos \<Rightarrow> (string \<Rightarrow> start_env) \<Rightarrow> string list \<Rightarrow> sysdb \<Rightarrow>
   (string list \<times> task list) \<times> sysdb" where
  "recover_workflows sd d se executor_ids = recover_pending_workflows sd (dh_inner d) se executor_ids"

definition cancel_workflow :: "int \<Rightarrow> string \<Rightarrow> unit db_op" where
  "cancel_workflow now w db =
     (case cancel_workflows now [w] db of (found, db1) \<Rightarrow>
        if found = [] then (Inl (non_existent_workflow w), db1) else (Inr (), db1))"

definition resume_workflow :: "int \<Rightarrow> string \<Rightarrow> WorkflowHandle db_op" where
  "resume_workflow now w db =
     (case resume_workflows now [w] INTERNAL_QUEUE_NAME db of (found, db1) \<Rightarrow>
        if found = [] then (Inl (non_existent_workflow w), db1) else (Inr (retrieve_workflow w), db1))"

definition fork_handle :: "string \<Rightarrow> int \<Rightarrow> ForkWorkflowInput \<Rightarrow> WorkflowHandle db_op" where
  "fork_handle uuid now i = andthen (fork_workflow uuid now i) (\<lambda>new_id. ret (retrieve_workflow new_id))"

definition read_stream_from ::
  "(string \<Rightarrow> string option \<Rightarrow> DbosError + 'v) \<Rightarrow> string \<Rightarrow> string \<Rightarrow> int \<Rightarrow> bool \<Rightarrow>
   (sysdb \<times> sysdb) list \<Rightarrow> (DbosError + 'v list \<times> bool) option" where
  "read_stream_from decode w key from_offset snapshot =
     read_stream_blocking decode w key snapshot from_offset []"

definition read_stream ::
  "(string \<Rightarrow> string option \<Rightarrow> DbosError + 'v) \<Rightarrow> string \<Rightarrow> string \<Rightarrow> (sysdb \<times> sysdb) list \<Rightarrow>
   (DbosError + 'v list \<times> bool) option" where
  "read_stream decode w key = read_stream_from decode w key 0 False"

definition read_stream_snapshot ::
  "(string \<Rightarrow> string option \<Rightarrow> DbosError + 'v) \<Rightarrow> string \<Rightarrow> string \<Rightarrow> int \<Rightarrow> (sysdb \<times> sysdb) list \<Rightarrow>
   (DbosError + 'v list \<times> bool) option" where
  "read_stream_snapshot decode w key from_offset = read_stream_from decode w key from_offset True"

definition cancel_each :: "int \<Rightarrow> string list \<Rightarrow> string list db_op" where
  "cancel_each now ids db = (case cancel_workflows now ids db of (found, db1) \<Rightarrow> (Inr found, db1))"

definition collect_garbage :: "int option \<Rightarrow> int option \<Rightarrow> unit db_op" where
  "collect_garbage cutoff threshold db = (Inr (), garbage_collect cutoff threshold db)"

text \<open>
  The live reader: the items sent to the channel, and whether the task has ended. \<open>room\<close> is how many
  items the receiver takes before it is dropped (\<open>None\<close>: it is never dropped). One argument pair per
  round, as in the blocking reader.
\<close>

fun send_entries ::
  "(string \<Rightarrow> string option \<Rightarrow> DbosError + 'v) \<Rightarrow> nat option \<Rightarrow> int \<Rightarrow> StreamEntry list \<Rightarrow>
   (DbosError + 'v) list \<times> int \<times> nat option \<times> bool" where
  "send_entries decode room cur [] = ([], cur, room, False)"
| "send_entries decode room cur (e # es) =
     (case decode (se_value e) (se_serialization e) of
        Inl x \<Rightarrow> (if room = Some 0 then [] else [Inl x], cur, room, True)
      | Inr v \<Rightarrow>
          if room = Some 0 then ([], se_offset e + 1, room, True)
          else (case send_entries decode (map_option (\<lambda>n. n - 1) room) (se_offset e + 1) es of
                  (sent, cur', room', ended) \<Rightarrow> (Inr v # sent, cur', room', ended)))"

fun read_stream_async ::
  "(string \<Rightarrow> string option \<Rightarrow> DbosError + 'v) \<Rightarrow> string \<Rightarrow> string \<Rightarrow> nat option \<Rightarrow> int \<Rightarrow>
   (sysdb \<times> sysdb) list \<Rightarrow> (DbosError + 'v) list \<times> bool" where
  "read_stream_async decode w k room cur [] = ([], False)"
| "read_stream_async decode w k room cur ((db, db_after) # rest) =
     (case read_stream_entries w k cur db of (es, closed) \<Rightarrow>
        (case send_entries decode room cur es of (sent, cur', room', ended) \<Rightarrow>
           if ended \<or> closed then (sent, True)
           else (case get_status db_after w of
                   None \<Rightarrow> (sent @ (if room' = Some 0 then [] else [Inl (non_existent_workflow w)]), True)
                 | Some s \<Rightarrow>
                     if s \<noteq> ''PENDING'' \<and> s \<noteq> ''ENQUEUED'' then (sent, True)
                     else (case read_stream_async decode w k room' cur' rest of
                             (later, fin) \<Rightarrow> (sent @ later, fin)))))"

interpretation runtime: workflow_operator cancel_workflow resume_workflow
proof -
  have "cancel_workflow = client_cancel_workflow"
    by (intro ext) (simp add: cancel_workflow_def client_cancel_workflow_def)
  moreover have "resume_workflow = client_resume_workflow"
    unfolding resume_workflow_def client_resume_workflow_def retrieve_workflow_def client_handle_def by (rule refl)
  ultimately show "workflow_operator cancel_workflow resume_workflow"
    using client.workflow_operator_axioms by simp
qed

subsection \<open>The live reader\<close>

lemma send_entries_unbounded:
  "send_entries decode None cur es =
     (case decode_entries decode es of
        Inr vs \<Rightarrow> (map Inr vs, next_current cur es, None, False)
      | Inl x \<Rightarrow> send_entries decode None cur es)"
  by (induction es arbitrary: cur) (auto split: sum.splits prod.splits)

lemma send_entries_error:
  "decode_entries decode es = Inl x \<Longrightarrow>
   \<exists>vs cur'. send_entries decode None cur es = (map Inr vs @ [Inl x], cur', None, True)"
proof (induction es arbitrary: cur)
  case (Cons e es)
  show ?case
  proof (cases "decode (se_value e) (se_serialization e)")
    case (Inr v)
    with Cons.prems have "decode_entries decode es = Inl x" by (auto split: sum.splits)
    from Cons.IH [OF this, of "se_offset e + 1"] obtain vs cur' where
      "send_entries decode None (se_offset e + 1) es = (map Inr vs @ [Inl x], cur', None, True)" by blast
    then show ?thesis using Inr by (auto intro!: exI [of _ "v # vs"])
  qed (use Cons.prems in \<open>auto intro!: exI [of _ "[]"]\<close>)
qed simp

lemma send_entries_values:
  "decode_entries decode es = Inr vs \<Longrightarrow>
   send_entries decode None cur es = (map Inr vs, next_current cur es, None, False)"
  using send_entries_unbounded [of decode cur es] by simp

text \<open>The values read so far only prefix the result of the blocking reader.\<close>

definition prepend :: "'v list \<Rightarrow> (DbosError + 'v list \<times> bool) option \<Rightarrow> (DbosError + 'v list \<times> bool) option" where
  "prepend vs r = (case r of Some (Inr (ws, c)) \<Rightarrow> Some (Inr (vs @ ws, c)) | _ \<Rightarrow> r)"

lemma prepend_simps [simp]:
  "prepend vs None = None" "prepend vs (Some (Inl e)) = Some (Inl e)"
  "prepend vs (Some (Inr (ws, c))) = Some (Inr (vs @ ws, c))"
  by (simp_all add: prepend_def)

lemma prepend_append: "prepend (vs @ ws) r = prepend vs (prepend ws r)"
  by (simp add: prepend_def split: option.splits sum.splits prod.splits)

lemma read_stream_blocking_prepend:
  "read_stream_blocking decode w k snap cur vs rounds =
   prepend vs (read_stream_blocking decode w k snap cur [] rounds)"
proof (induction rounds arbitrary: cur vs)
  case (Cons r rounds)
  obtain db db_after where r: "r = (db, db_after)" by fastforce
  have step: "read_stream_blocking decode w k snap c (vs @ ws) rounds =
      prepend vs (read_stream_blocking decode w k snap c ws rounds)" for c ws
    by (metis Cons prepend_append)
  then show ?case by (cases snap) (auto simp: r split: prod.splits sum.splits option.splits)
qed simp

text \<open>
  C27. The live reader agrees with the blocking one. On the same observed states, if the blocking
  reader returns values, the live one sends exactly these, in order, and ends; if it fails, the
  live one sends some values, then that error, and ends; and while it is still waiting, the live
  one has ended neither.
\<close>
theorem live_reader_agrees:
  "case read_stream_blocking decode w k False cur [] rounds of
     Some (Inr (vs, closed)) \<Rightarrow> read_stream_async decode w k None cur rounds = (map Inr vs, True)
   | Some (Inl e) \<Rightarrow> \<exists>vs. read_stream_async decode w k None cur rounds = (map Inr vs @ [Inl e], True)
   | None \<Rightarrow> \<exists>vs. read_stream_async decode w k None cur rounds = (map Inr vs, False)"
proof (induction rounds arbitrary: cur)
  case (Cons r rounds)
  obtain db db_after es closed where r: "r = (db, db_after)" and es: "read_stream_entries w k cur db = (es, closed)"
    by (metis surj_pair)
  show ?case
  proof (cases "decode_entries decode es")
    case (Inl x)
    obtain vs cur' where "send_entries decode None cur es = (map Inr vs @ [Inl x], cur', None, True)"
      using send_entries_error [OF Inl] by blast
    then show ?thesis using Inl by (simp add: r es)
  next
    case (Inr vs)
    note sent = send_entries_values [OF Inr, of cur]
    let ?rest = "read_stream_blocking decode w k False (next_current cur es) [] rounds"
    have pre: "read_stream_blocking decode w k False (next_current cur es) vs rounds = prepend vs ?rest"
      by (rule read_stream_blocking_prepend)
    show ?thesis
    proof (cases "closed \<or> get_status db_after w \<notin> {Some ''PENDING'', Some ''ENQUEUED''}")
      case True
      then show ?thesis using Inr sent by (auto simp: r es split: option.splits)
    next
      case False
      then have st: "closed = False" "get_status db_after w = Some ''PENDING'' \<or> get_status db_after w = Some ''ENQUEUED''"
        by auto
      have b: "read_stream_blocking decode w k False cur [] (r # rounds) = prepend vs ?rest"
        using st Inr by (auto simp: r es pre)
      have a: "read_stream_async decode w k None cur (r # rounds) =
          (map Inr vs @ fst (read_stream_async decode w k None (next_current cur es) rounds),
           snd (read_stream_async decode w k None (next_current cur es) rounds))"
        using st sent by (auto simp: r es split: prod.splits)
      show ?thesis
        unfolding a b using Cons [of "next_current cur es"]
        by (cases ?rest) (auto split: sum.splits prod.splits simp flip: map_append append_assoc)
    qed
  qed
qed simp

subsection \<open>Building and launching\<close>

text \<open>The registrations of a builder, in the order of the calls.\<close>

datatype 'd registration =
    RegWorkflow string RegistrationOptions handler
  | RegScheduled string string handler
  | RegQueue "'d WorkflowQueue"

fun apply_registration :: "'d registration \<Rightarrow> ('p, 'd) DbosBuilder \<Rightarrow> ('p, 'd) DbosBuilder" where
  "apply_registration (RegWorkflow name opts h) b = register_workflow_with_options name opts h b"
| "apply_registration (RegScheduled name cron h) b = register_scheduled name cron h b"
| "apply_registration (RegQueue q) b = register_queue q b"

definition build :: "('p, (string \<times> json) list) Config \<Rightarrow> 'd registration list \<Rightarrow> ('p, 'd) DbosBuilder" where
  "build cfg regs = fold apply_registration regs (new_builder cfg)"

fun entry_of :: "'d registration \<Rightarrow> (string \<times> RegistryEntry) list" where
  "entry_of (RegWorkflow name opts h) =
     [(name, \<lparr>re_handler = h, re_max_retries = ro_max_retries opts, re_name = name,
              re_class_name = None, re_config_name = None\<rparr>)]"
| "entry_of (RegScheduled name cron h) =
     [(name, \<lparr>re_handler = h, re_max_retries = 100, re_name = name,
              re_class_name = None, re_config_name = None\<rparr>)]"
| "entry_of (RegQueue q) = []"

fun queue_of :: "'d registration \<Rightarrow> (string \<times> 'd WorkflowQueue) list" where
  "queue_of (RegQueue q) = [(wq_name q, q)]"
| "queue_of r = []"

fun schedule_of :: "'d registration \<Rightarrow> (string \<times> string) list" where
  "schedule_of (RegScheduled name cron h) = [(name, cron)]"
| "schedule_of r = []"

definition entries :: "'d registration list \<Rightarrow> (string \<times> RegistryEntry) list" where
  "entries regs = concat (map entry_of regs)"

definition queues_in :: "'d registration list \<Rightarrow> (string \<times> 'd WorkflowQueue) list" where
  "queues_in regs = concat (map queue_of regs)"

definition no_conflict :: "'d registration list \<Rightarrow> bool" where
  "no_conflict regs \<longleftrightarrow> distinct (map fst (entries regs)) \<and> distinct (map fst (queues_in regs))"

lemma note_conflict_simps [simp]:
  "bd_registry (note_conflict n b) = bd_registry b" "bd_queues (note_conflict n b) = bd_queues b"
  "bd_schedules (note_conflict n b) = bd_schedules b" "bd_config (note_conflict n b) = bd_config b"
  "bd_registration_error (note_conflict n b) =
     (case bd_registration_error b of None \<Rightarrow> Some (conflicting_registration n) | Some e \<Rightarrow> Some e)"
  by (auto simp: note_conflict_def split: option.splits)

lemma build_snoc: "build cfg (regs @ [r]) = apply_registration r (build cfg regs)"
  by (simp add: build_def)

lemma build_fields:
  "bd_config (build cfg regs) = cfg \<and> bd_schedules (build cfg regs) = concat (map schedule_of regs) \<and>
   bd_registry (build cfg regs) = map_of (entries regs) \<and>
   fst ` set (bd_queues (build cfg regs)) = fst ` set (queues_in regs)"
proof (induction regs rule: rev_induct)
  case Nil
  then show ?case by (simp add: build_def new_builder_def entries_def queues_in_def)
next
  case (snoc r regs)
  have m: "[n \<mapsto> e] ++ M = (if M n = None then M(n \<mapsto> e) else M)" for n e and M :: "string \<Rightarrow> RegistryEntry option"
    by (auto simp: map_add_def fun_eq_iff split: option.splits)
  show ?case
    using snoc
    by (cases r)
      (auto simp: build_snoc register_workflow_with_options_def register_scheduled_def register_workflow_def
        register_queue_def default_registration_def DEFAULT_MAX_RECOVERY_ATTEMPTS_def entries_def queues_in_def
        m)
qed

lemma register_errors:
  "bd_registration_error (register_workflow_with_options n opts h b) =
     (if bd_registration_error b = None \<and> bd_registry b n \<noteq> None
      then Some (conflicting_registration n) else bd_registration_error b)"
  "bd_queues (register_workflow_with_options n opts h b) = bd_queues b"
  "bd_registration_error (register_scheduled n cron h b) =
     (if bd_registration_error b = None \<and> bd_registry b n \<noteq> None
      then Some (conflicting_registration n) else bd_registration_error b)"
  "bd_queues (register_scheduled n cron h b) = bd_queues b"
  "bd_registration_error (register_queue q b) =
     (if bd_registration_error b = None \<and> wq_name q \<in> fst ` set (bd_queues b)
      then Some (conflicting_registration (wq_name q)) else bd_registration_error b)"
  "bd_queues (register_queue q b) =
     (if wq_name q \<in> fst ` set (bd_queues b) then bd_queues b else bd_queues b @ [(wq_name q, q)])"
  by (auto simp: register_workflow_with_options_def register_scheduled_def register_workflow_def
      register_queue_def split: option.split)

lemma snoc_fields:
  "entries (regs @ [r]) = entries regs @ entry_of r" "queues_in (regs @ [r]) = queues_in regs @ queue_of r"
  by (simp_all add: entries_def queues_in_def)

lemma no_conflict_snoc:
  "no_conflict (regs @ [RegWorkflow n opts h]) \<longleftrightarrow> no_conflict regs \<and> n \<notin> fst ` set (entries regs)"
  "no_conflict (regs @ [RegScheduled n cron h]) \<longleftrightarrow> no_conflict regs \<and> n \<notin> fst ` set (entries regs)"
  "no_conflict (regs @ [RegQueue q]) \<longleftrightarrow> no_conflict regs \<and> wq_name q \<notin> fst ` set (queues_in regs)"
  by (simp_all add: no_conflict_def snoc_fields) auto

lemma build_error_none: "bd_registration_error (build cfg regs) = None \<longleftrightarrow> no_conflict regs"
proof (induction regs rule: rev_induct)
  case Nil
  then show ?case by (simp add: build_def new_builder_def entries_def queues_in_def no_conflict_def)
next
  case (snoc r regs)
  have reg: "bd_registry (build cfg regs) n = None \<longleftrightarrow> n \<notin> fst ` set (entries regs)" for n
    using build_fields [of cfg regs] by (simp add: map_of_eq_None_iff)
  show ?case
    using snoc build_fields [of cfg regs] reg
    by (cases r; simp add: build_snoc register_errors no_conflict_snoc; blast)
qed

lemma build_error_some:
  "bd_registration_error (build cfg regs) = Some e \<Longrightarrow>
   \<exists>n. e = conflicting_registration n \<and> n \<in> fst ` set (entries regs) \<union> fst ` set (queues_in regs)"
proof (induction regs rule: rev_induct)
  case Nil
  then show ?case by (simp add: build_def new_builder_def)
next
  case (snoc r regs)
  show ?case
  proof (cases "bd_registration_error (build cfg regs) = None")
    case True
    have reg: "bd_registry (build cfg regs) n = None \<longleftrightarrow> n \<notin> fst ` set (entries regs)" for n
      using build_fields [of cfg regs] by (simp add: map_of_eq_None_iff)
    from snoc.prems True show ?thesis
      by (cases r) (simp_all add: build_snoc register_errors snoc_fields split: if_splits; blast)+
  next
    case False
    then have "bd_registration_error (build cfg regs) = Some e"
      using snoc.prems by (cases r) (simp_all add: build_snoc register_errors split: if_splits)
    from snoc.IH [OF this] show ?thesis by (auto simp: snoc_fields)
  qed
qed

lemma build_queues: "no_conflict regs \<Longrightarrow> bd_queues (build cfg regs) = queues_in regs"
proof (induction regs rule: rev_induct)
  case Nil
  then show ?case by (simp add: build_def new_builder_def queues_in_def)
next
  case (snoc r regs)
  then show ?case using build_fields [of cfg regs]
    by (cases r) (auto simp: build_snoc register_errors no_conflict_snoc snoc_fields)
qed

text \<open>What a successful launch went through.\<close>

lemma launch_InrE:
  assumes "launch le b w = (Inr d, w')"
  obtains pc where "bd_registration_error b = None"
    and "process_config_with_env (le_hash le) (bd_config b) (le_vars le) = Inr pc"
    and "run_migrations (le_postgres le) (le_files le) (pc_database_schema pc) (wd_server w) = (Inr (), wd_server w')"
    and "recover_pending_workflows (le_serde le) (dh_inner d) (le_start le) [di_executor_id (dh_inner d)] (wd_db w) =
         ((dh_recovered d, dh_tasks d), wd_db w')"
    and "dh_inner d = launched_inner pc (bd_registry b)"
    and "dh_queues d = with_internal_queue (le_one_second le) (le_two_minutes le) (bd_queues b)"
    and "dh_background d = spawned_background pc
           (config_from (le_vars le ''DBOS_DOMAIN'') (pc_conductor_api_key pc) (pc_conductor_url pc)
              (pc_app_name pc) (pc_conductor_executor_metadata pc)) (dh_queues d) (bd_schedules b)"
  using assms
  by (auto simp: launch_def Let_def split: option.splits sum.splits prod.splits if_splits)

text \<open>
  C25. A builder with a workflow or a queue registered twice does not launch: the error names a
  registered name and nothing is read or written. Without a conflict, a launch that succeeds has
  every registration: each workflow resolves to its handler and limit, there is a runner for each
  queue and for the internal queue, and a scheduler for each schedule, and it leaves the schema
  migrated.
\<close>
theorem launch_runs_what_was_registered:
  assumes "has_schema (wd_server w) \<or> k = 0"
    and "versions (wd_server w) = version_rows k \<or> versions (wd_server w) = None \<and> k = 0" and "0 \<le> k"
  shows "(\<not> no_conflict regs \<longrightarrow>
      (\<exists>n. launch le (build cfg regs) w = (Inl (Failed (conflicting_registration n)), w) \<and>
        n \<in> fst ` set (entries regs) \<union> fst ` set (queues_in regs))) \<and>
    (launch le (build cfg regs) w = (Inr d, w') \<longrightarrow>
      no_conflict regs \<and> \<not> should_migrate (wd_server w') \<and>
      di_registry (dh_inner d) = map_of (entries regs) \<and>
      (\<forall>q. RegQueue q \<in> set regs \<longrightarrow> QueueTask q \<in> set (dh_background d)) \<and>
      (\<exists>q. QueueTask q \<in> set (dh_background d) \<and> (INTERNAL_QUEUE_NAME, q) \<in> set (dh_queues d)) \<and>
      (\<forall>n c h. RegScheduled n c h \<in> set regs \<longrightarrow> SchedulerTask n c \<in> set (dh_background d)))"
proof (rule conjI; rule impI)
  show "\<exists>n. launch le (build cfg regs) w = (Inl (Failed (conflicting_registration n)), w) \<and>
        n \<in> fst ` set (entries regs) \<union> fst ` set (queues_in regs)" if conf: "\<not> no_conflict regs"
  proof -
    obtain e where "bd_registration_error (build cfg regs) = Some e"
      using conf build_error_none [of cfg regs] by (cases "bd_registration_error (build cfg regs)") auto
    with build_error_some [OF this] show ?thesis by (auto simp: launch_def)
  qed
  assume l: "launch le (build cfg regs) w = (Inr d, w')"
  show "no_conflict regs \<and> \<not> should_migrate (wd_server w') \<and>
      di_registry (dh_inner d) = map_of (entries regs) \<and>
      (\<forall>q. RegQueue q \<in> set regs \<longrightarrow> QueueTask q \<in> set (dh_background d)) \<and>
      (\<exists>q. QueueTask q \<in> set (dh_background d) \<and> (INTERNAL_QUEUE_NAME, q) \<in> set (dh_queues d)) \<and>
      (\<forall>n c h. RegScheduled n c h \<in> set regs \<longrightarrow> SchedulerTask n c \<in> set (dh_background d))"
  proof (rule launch_InrE [OF l])
    fix pc
    assume a: "bd_registration_error (build cfg regs) = None"
      "run_migrations (le_postgres le) (le_files le) (pc_database_schema pc) (wd_server w) = (Inr (), wd_server w')"
      "dh_inner d = launched_inner pc (bd_registry (build cfg regs))"
      "dh_queues d = with_internal_queue (le_one_second le) (le_two_minutes le) (bd_queues (build cfg regs))"
      "dh_background d = spawned_background pc
           (config_from (le_vars le ''DBOS_DOMAIN'') (pc_conductor_api_key pc) (pc_conductor_url pc)
              (pc_app_name pc) (pc_conductor_executor_metadata pc)) (dh_queues d) (bd_schedules (build cfg regs))"
    have nc: "no_conflict regs" using a(1) build_error_none by blast
    have mig: "\<not> should_migrate (wd_server w')"
      using run_migrations_recorded [OF assms a(2)] by simp
    have qs: "set (queues_in regs) \<subseteq> set (dh_queues d)"
      using a(4) build_queues [OF nc, of cfg] by (auto simp: with_internal_queue_def)
    have bg: "QueueTask ` snd ` set (dh_queues d) \<subseteq> set (dh_background d)"
      "(\<lambda>(n, c). SchedulerTask n c) ` set (bd_schedules (build cfg regs)) \<subseteq> set (dh_background d)"
      unfolding a(5) spawned_background_def by (auto simp: comp_def)
    have internal: "\<exists>q. (INTERNAL_QUEUE_NAME, q) \<in> set (dh_queues d)"
      unfolding a(4) with_internal_queue_def by auto
    have regq: "(wq_name q, q) \<in> set (queues_in regs)" if "RegQueue q \<in> set regs" for q
      using that by (force simp: queues_in_def)
    have sched: "(n, c) \<in> set (bd_schedules (build cfg regs))" if "RegScheduled n c h \<in> set regs" for n c h
      using that build_fields [of cfg regs] by force
    have runner: "QueueTask q \<in> set (dh_background d)" if "(n, q) \<in> set (dh_queues d)" for n q
      using that bg(1) by force
    show ?thesis
    proof (intro conjI allI impI)
      show "di_registry (dh_inner d) = map_of (entries regs)"
        using a(3) build_fields [of cfg regs] by (simp add: launched_inner_def)
      show "\<exists>q. QueueTask q \<in> set (dh_background d) \<and> (INTERNAL_QUEUE_NAME, q) \<in> set (dh_queues d)"
        using internal runner by blast
      show "QueueTask q \<in> set (dh_background d)" if "RegQueue q \<in> set regs" for q
        using regq [OF that] qs runner by blast
      show "SchedulerTask n c \<in> set (dh_background d)" if "RegScheduled n c h \<in> set regs" for n c h
        using bg(2) sched [OF that] by force
    qed (use nc mig in simp_all)
  qed
qed

text \<open>Two registrations of one name, and a launch with a queue and a schedule.\<close>

definition sample_launch :: "(string set \<times> nat, nat) launch_env" where
  "sample_launch =
     \<lparr>le_serde = mini_serde, le_hash = Inr ''v1'', le_vars = (\<lambda>_. None), le_connect = (\<lambda>_. None),
      le_postgres = log_postgres, le_files = (\<lambda>f. f), le_start = (\<lambda>_. sample_start ''x''),
      le_one_second = 1, le_two_minutes = 120\<rparr>"

definition sample_world :: "(string set \<times> nat) world" where
  "sample_world = \<lparr>wd_server = fresh_server (log_stage (build_migrations (\<lambda>f. f) ''dbos'') 0), wd_db = empty_db\<rparr>"

lemma sample_launches:
  "\<exists>d w'. launch sample_launch
     (build (new_config ''app'' ''postgres://h'')
        [RegScheduled ''a'' ''* * * * *'' (re_handler sample_entry)] :: (unit, nat) DbosBuilder) sample_world = (Inr d, w')"
proof -
  obtain s where mig: "run_migrations log_postgres (\<lambda>f. f) ''dbos'' (wd_server sample_world) = (Inr (), s)"
    using log_fresh_migrates by (auto simp: sample_world_def)
  have "detect_dialect ''postgres://h'' = Inr Postgres" by code_simp
  then show ?thesis
    using mig
    by (simp add: launch_def sample_launch_def build_def new_builder_def new_config_def register_scheduled_def
        register_workflow_def register_workflow_with_options_def process_config_with_env_def Let_def
        DEFAULT_SYSTEM_DB_SCHEMA_def split: prod.split)
qed

theorem launch_runs_what_was_registered_witness:
  "(\<exists>n. launch sample_launch
       (build (new_config ''app'' ''postgres://h'')
          [RegWorkflow ''a'' default_registration (re_handler sample_entry),
           RegScheduled ''a'' ''* * * * *'' (re_handler sample_entry)] :: (unit, nat) DbosBuilder) sample_world =
     (Inl (Failed (conflicting_registration n)), sample_world)) \<and>
   (\<exists>d w'. launch sample_launch
       (build (new_config ''app'' ''postgres://h'')
          [RegScheduled ''a'' ''* * * * *'' (re_handler sample_entry)] :: (unit, nat) DbosBuilder) sample_world =
     (Inr d, w') \<and> SchedulerTask ''a'' ''* * * * *'' \<in> set (dh_background d) \<and> \<not> should_migrate (wd_server w'))"
proof -
  let ?regs = "[RegWorkflow ''a'' default_registration (re_handler sample_entry),
    RegScheduled ''a'' ''* * * * *'' (re_handler sample_entry)] :: nat registration list"
  have bad: "\<not> no_conflict ?regs" by (simp add: no_conflict_def entries_def)
  have fresh: "versions (wd_server sample_world) = None" by (simp add: sample_world_def fresh_server_def)
  obtain d w' where ok: "launch sample_launch
     (build (new_config ''app'' ''postgres://h'')
        [RegScheduled ''a'' ''* * * * *'' (re_handler sample_entry)] :: (unit, nat) DbosBuilder) sample_world = (Inr d, w')"
    using sample_launches by blast
  have "\<exists>n. launch sample_launch (build (new_config ''app'' ''postgres://h'') ?regs :: (unit, nat) DbosBuilder)
      sample_world = (Inl (Failed (conflicting_registration n)), sample_world)"
    using launch_runs_what_was_registered [of sample_world 0, THEN conjunct1, rule_format, OF _ _ _ bad] fresh
    by auto
  then show ?thesis
    using launch_runs_what_was_registered [of sample_world 0, THEN conjunct2, rule_format, OF _ _ _ ok] fresh ok
    by auto
qed

end
