(* ===== verification/Dbos_MigrateTests.thy ===== *)
theory Dbos_MigrateTests
  imports Dbos_Migrate
begin

text \<open>
  The tests of \<open>db/migrate.rs\<close> that run against a live database, on the model of the runner. Each
  is a definition with the test's own steps and assertions over a Postgres whose answers are
  arguments, and each is proved from what the migration scripts are meant to do there
  (\<open>scripted_from\<close>). The schema is fresh at the start, so dropping it at the end is left out.
\<close>

subsection \<open>The helpers of the tests\<close>

record 'c probes =
  has_table :: "'c \<Rightarrow> string \<Rightarrow> bool"
  has_function :: "'c \<Rightarrow> string \<Rightarrow> bool"
  index_is_valid :: "'c \<Rightarrow> string \<Rightarrow> bool"

definition table_exists :: "'c probes \<Rightarrow> 'c server \<Rightarrow> string \<Rightarrow> bool" where
  "table_exists pr s table =
     (if table = ''dbos_migrations'' then migrations_table_exists s else has_table pr (catalog s) table)"

definition function_exists :: "'c probes \<Rightarrow> 'c server \<Rightarrow> string \<Rightarrow> bool" where
  "function_exists pr s func = has_function pr (catalog s) func"

definition version_row_count :: "'c server \<Rightarrow> int" where
  "version_row_count s = (case versions s of None \<Rightarrow> 0 | Some rows \<Rightarrow> int (length rows))"

definition set_version :: "int \<Rightarrow> 'c server \<Rightarrow> 'c server" where
  "set_version v s = s\<lparr>versions := map_option (map (\<lambda>_. v)) (versions s)\<rparr>"

text \<open>A launch in a process that nobody kills.\<close>

definition migrate :: "'c postgres \<Rightarrow> files \<Rightarrow> string \<Rightarrow> 'c server \<Rightarrow> (stop + unit) \<times> 'c server" where
  "migrate pg files schema s = run_migrations pg files schema (s\<lparr>lives := None\<rparr>)"

subsection \<open>What a launch does\<close>

text \<open>
  From version \<open>k\<close> on, each script takes the catalog from one stage to the next; a dirty catalog
  becomes a clean one when its invalid indexes are dropped.
\<close>

definition scripted_from ::
  "'c postgres \<Rightarrow> files \<Rightarrow> string \<Rightarrow> ('c \<Rightarrow> 'c \<Rightarrow> bool) \<Rightarrow> (int \<Rightarrow> 'c) \<Rightarrow> int \<Rightarrow> bool" where
  "scripted_from pg files schema dirty stage k \<longleftrightarrow>
     repairs pg schema dirty \<and> (\<forall>v. dirty (stage v) (stage v)) \<and>
     (\<forall>m \<in> set (build_migrations files schema). k < mig_version m \<longrightarrow> scripted pg dirty stage m)"

lemma migrate_from:
  assumes "scripted_from pg files schema dirty stage k" and "at_version dirty stage k s" and "0 \<le> k" and "k \<le> 40"
  obtains s' where "migrate pg files schema s = (Inr (), s')" and "has_schema s'" and "versions s' = Some [40]"
    and "catalog s' = stage 40"
proof -
  obtain r s' where run: "migrate pg files schema s = (r, s')" by fastforce
  have "resumes dirty stage k 40 (s\<lparr>lives := None\<rparr>) (run_migrations pg files schema (s\<lparr>lives := None\<rparr>))"
    by (rule run_migrations_resumes) (use assms in \<open>auto simp: scripted_from_def\<close>)
  then have "r = Inr ()" "at_version dirty stage 40 s'"
    using run by (auto simp: resumes_def migrate_def)
  then have "r = Inr ()" "has_schema s'" "versions s' = Some [40]" "catalog s' = stage 40"
    by (auto simp: at_version_def ONLINE_VERSIONS_def split: option.splits)
  with that run show ?thesis by simp
qed

lemma at_version_fresh: "at_version dirty stage 0 (fresh_server (stage 0))"
  by (simp add: at_version_def fresh_server_def ONLINE_VERSIONS_def)

lemma migrate_fresh:
  assumes "scripted_from pg files schema dirty stage 0"
  obtains s where "migrate pg files schema (fresh_server (stage 0)) = (Inr (), s)" and "has_schema s"
    and "versions s = Some [40]" and "catalog s = stage 40"
  using migrate_from [OF assms at_version_fresh] by auto

lemma at_version_rewound:
  assumes "has_schema s" and "versions s = Some [40]" and "0 < k"
    and "if k + 1 \<in> set ONLINE_VERSIONS
         then dirty (catalog s) (stage k) \<or> dirty (catalog s) (stage (k + 1)) else catalog s = stage k"
  shows "at_version dirty stage k (set_version k s)"
  using assms by (auto simp: at_version_def set_version_def)

lemmas version_simps = read_version_def read_version_opt_def version_row_count_def set_version_def
  should_migrate_def SCHEMA_VERSION_def

subsection \<open>The tests\<close>

definition fresh_migration_builds_full_schema_at_version_40 ::
  "'c postgres \<Rightarrow> files \<Rightarrow> 'c probes \<Rightarrow> string \<Rightarrow> 'c \<Rightarrow> bool" where
  "fresh_migration_builds_full_schema_at_version_40 pg files pr schema c \<longleftrightarrow>
     (case migrate pg files schema (fresh_server c) of
        (Inl e, s) \<Rightarrow> False
      | (Inr _, s) \<Rightarrow>
          read_version s = 40 \<and> version_row_count s = 1 \<and>
          list_all (table_exists pr s)
            [''workflow_status'', ''operation_outputs'', ''notifications'', ''workflow_events'', ''streams'',
             ''queues'', ''dbos_migrations''] \<and>
          list_all (function_exists pr s)
            [''enqueue_workflow'', ''notifications_function'', ''streams_function''])"

lemma fresh_migration_builds_full_schema_at_version_40:
  assumes "scripted_from pg files schema dirty stage 0"
    and "list_all (has_table pr (stage 40))
      [''workflow_status'', ''operation_outputs'', ''notifications'', ''workflow_events'', ''streams'', ''queues'']"
    and "list_all (has_function pr (stage 40)) [''enqueue_workflow'', ''notifications_function'', ''streams_function'']"
  shows "fresh_migration_builds_full_schema_at_version_40 pg files pr schema (stage 0)"
proof -
  obtain s where "migrate pg files schema (fresh_server (stage 0)) = (Inr (), s)" "has_schema s"
    "versions s = Some [40]" "catalog s = stage 40"
    by (rule migrate_fresh [OF assms(1)])
  with assms(2,3) show ?thesis
    by (simp add: fresh_migration_builds_full_schema_at_version_40_def version_simps table_exists_def
        function_exists_def)
qed

definition rerun_is_a_noop :: "'c postgres \<Rightarrow> files \<Rightarrow> string \<Rightarrow> 'c \<Rightarrow> bool" where
  "rerun_is_a_noop pg files schema c \<longleftrightarrow>
     (case migrate pg files schema (fresh_server c) of
        (Inl e, s) \<Rightarrow> False
      | (Inr _, s) \<Rightarrow>
          (case migrate pg files schema s of
             (Inl e, s') \<Rightarrow> False
           | (Inr _, s') \<Rightarrow> read_version s' = 40 \<and> version_row_count s' = 1))"

lemma rerun_is_a_noop:
  assumes "scripted_from pg files schema dirty stage 0"
  shows "rerun_is_a_noop pg files schema (stage 0)"
proof -
  obtain s where s: "migrate pg files schema (fresh_server (stage 0)) = (Inr (), s)" "has_schema s"
    "versions s = Some [40]" by (rule migrate_fresh [OF assms])
  moreover have "migrate pg files schema s = (Inr (), s\<lparr>lives := None\<rparr>)"
    unfolding migrate_def by (rule run_migrations_done [of _ 40]) (use s in auto)
  ultimately show ?thesis by (simp add: rerun_is_a_noop_def version_simps)
qed

definition should_migrate_transitions :: "'c postgres \<Rightarrow> files \<Rightarrow> string \<Rightarrow> 'c \<Rightarrow> bool" where
  "should_migrate_transitions pg files schema c \<longleftrightarrow>
     should_migrate (fresh_server c) \<and>
     (case migrate pg files schema (fresh_server c) of
        (Inl e, s) \<Rightarrow> False
      | (Inr _, s) \<Rightarrow> \<not> should_migrate s \<and> should_migrate (set_version (SCHEMA_VERSION - 1) s))"

lemma should_migrate_transitions:
  assumes "scripted_from pg files schema dirty stage 0"
  shows "should_migrate_transitions pg files schema (stage 0)"
proof -
  obtain s where "migrate pg files schema (fresh_server (stage 0)) = (Inr (), s)" "has_schema s"
    "versions s = Some [40]" by (rule migrate_fresh [OF assms])
  then show ?thesis
    by (simp add: should_migrate_transitions_def version_simps fresh_server_def)
qed

definition online_migrations_are_idempotent :: "'c postgres \<Rightarrow> files \<Rightarrow> string \<Rightarrow> 'c \<Rightarrow> bool" where
  "online_migrations_are_idempotent pg files schema c \<longleftrightarrow>
     (case migrate pg files schema (fresh_server c) of
        (Inl e, s) \<Rightarrow> False
      | (Inr _, s) \<Rightarrow>
          (case migrate pg files schema (set_version 21 s) of
             (Inl e, s') \<Rightarrow> False
           | (Inr _, s') \<Rightarrow> read_version s' = 40))"

text \<open>The scripts from version 22 on work on the finished catalog, too: \<open>again\<close> is what they do there.\<close>

lemma online_migrations_are_idempotent:
  assumes "scripted_from pg files schema dirty stage 0"
    and "scripted_from pg files schema dirty again 21" and "again 21 = stage 40"
  shows "online_migrations_are_idempotent pg files schema (stage 0)"
proof -
  obtain s where s: "migrate pg files schema (fresh_server (stage 0)) = (Inr (), s)" "has_schema s"
    "versions s = Some [40]" "catalog s = stage 40" by (rule migrate_fresh [OF assms(1)])
  have "dirty (again 21) (again 21)" using assms(2) by (simp add: scripted_from_def)
  with s assms(3) have "at_version dirty again 21 (set_version 21 s)"
    by (intro at_version_rewound) (auto simp: ONLINE_VERSIONS_def)
  then obtain s' where "migrate pg files schema (set_version 21 s) = (Inr (), s')" "versions s' = Some [40]"
    by (rule migrate_from [OF assms(2)]) auto
  with s show ?thesis by (simp add: online_migrations_are_idempotent_def version_simps)
qed


text \<open>A launch that meets a catalog script which fails stops there and leaves everything as it was.\<close>

lemma apply_migrations_append:
  "apply_migrations pg schema (pre @ ms) k cleaned = apply_migrations pg schema ms k cleaned"
  if "\<forall>m \<in> set pre. mig_version m \<le> k"
  using that by (induction pre) simp_all

lemma build_migrations_split:
  assumes "0 \<le> k" and "k < 40"
  obtains pre m post where "build_migrations files schema = pre @ m # post" and "\<forall>m \<in> set pre. mig_version m \<le> k"
    and "mig_version m = k + 1" and "mig_online m = (k + 1 \<in> set ONLINE_VERSIONS)"
proof -
  have "[0 + 1..40] = [1..k] @ [k + 1..40]" using assms upto_split1 [of 1 "k + 1" 40] upto_split2 [of 1 k 40] by simp
  also have "[k + 1..40] = (k + 1) # [k + 1 + 1..40]" using assms by (intro upto_rec1) simp
  finally have "map mig_version (build_migrations files schema) = [1..k] @ (k + 1) # [k + 1 + 1..40]"
    by (simp add: build_migrations_upto)
  then obtain pre m post where b: "build_migrations files schema = pre @ m # post"
    and pre: "map mig_version pre = [1..k]" and m: "mig_version m = k + 1"
    by (auto simp: map_eq_append_conv map_eq_Cons_conv)
  have "mig_version ` set pre = {1..k}" using arg_cong [OF pre, of set] by simp
  then have "\<forall>m \<in> set pre. mig_version m \<le> k" by force
  moreover have "mig_online m = (k + 1 \<in> set ONLINE_VERSIONS)"
    using build_migrations_online(1) [of m files schema] b m by simp
  ultimately show ?thesis using that b m by blast
qed

lemma migrate_fails:
  assumes "has_schema s" and "versions s = Some [k]" and "0 < k" and "k < 40" and "k + 1 \<notin> set ONLINE_VERSIONS"
    and fail: "\<And>m. m \<in> set (build_migrations files schema) \<Longrightarrow> mig_version m = k + 1 \<Longrightarrow>
      trim (mig_sql m) \<noteq> [] \<and> run_sql pg (mig_sql m) (catalog s) = Inl e"
  shows "migrate pg files schema s = (Inl (Failed (from_sqlx e)), s\<lparr>lives := None\<rparr>)"
proof -
  obtain pre m post where b: "build_migrations files schema = pre @ m # post"
    and pre: "\<forall>m \<in> set pre. mig_version m \<le> k" and m: "mig_version m = k + 1" "\<not> mig_online m"
    by (rule build_migrations_split [of k files schema]) (use assms in auto)
  let ?s = "s\<lparr>lives := None\<rparr>"
  have t: "tick ?s = ?s" by (simp add: tick_def)
  have "prepare ?s = (Inr k, ?s)"
    using assms t by (simp add: prepare_def commit_def transaction_def Let_def read_version_def
        read_version_opt_def unwrap_or_def)
  moreover have "apply_migrations pg schema (build_migrations files schema) k False ?s =
      (Inl (Failed (from_sqlx e)), ?s)"
    using fail [of m] m t
    by (simp add: b apply_migrations_append [OF pre] andthen_apply commit_def transaction_def execute_def)
  ultimately show ?thesis by (simp add: migrate_def run_migrations_def andthen_apply)
qed

definition version_not_bumped_on_failure :: "'c postgres \<Rightarrow> files \<Rightarrow> string \<Rightarrow> 'c \<Rightarrow> bool" where
  "version_not_bumped_on_failure pg files schema c \<longleftrightarrow>
     (case migrate pg files schema (fresh_server c) of
        (Inl e, s) \<Rightarrow> False
      | (Inr _, s) \<Rightarrow>
          (case migrate pg files schema (set_version 20 s) of
             (Inl (Failed e), s1) \<Rightarrow>
               str_contains (display e) ''already exists'' \<and> read_version s1 = 20 \<and>
               (case run_sql pg (''DROP TABLE '' @ sanitize_ident schema @ ''.queues'') (catalog s1) of
                  Inl e \<Rightarrow> False
                | Inr c1 \<Rightarrow>
                    (case migrate pg files schema (s1\<lparr>catalog := c1\<rparr>) of
                       (Inl e, s2) \<Rightarrow> False
                     | (Inr _, s2) \<Rightarrow> read_version s2 = 40))
           | _ \<Rightarrow> False))"

lemma queues_exists_message:
  "str_contains (display (from_sqlx (Database (Some ''42P07'')
     (''relation '' @ [CHR 0x22] @ ''queues'' @ [CHR 0x22] @ '' already exists'')))) ''already exists''"
  by code_simp

lemma version_not_bumped_on_failure:
  assumes "scripted_from pg files schema dirty stage 0"
    and fail: "\<And>m. m \<in> set (build_migrations files schema) \<Longrightarrow> mig_version m = 21 \<Longrightarrow>
      trim (mig_sql m) \<noteq> [] \<and> run_sql pg (mig_sql m) (stage 40) = Inl (Database (Some ''42P07'')
        (''relation '' @ [CHR 0x22] @ ''queues'' @ [CHR 0x22] @ '' already exists''))"
    and dropped: "run_sql pg (''DROP TABLE '' @ sanitize_ident schema @ ''.queues'') (stage 40) = Inr (again 20)"
    and "scripted_from pg files schema dirty again 20"
  shows "version_not_bumped_on_failure pg files schema (stage 0)"
proof -
  obtain s where s: "migrate pg files schema (fresh_server (stage 0)) = (Inr (), s)" "has_schema s"
    "versions s = Some [40]" "catalog s = stage 40" by (rule migrate_fresh [OF assms(1)])
  let ?e = "Database (Some ''42P07'')
    (''relation '' @ [CHR 0x22] @ ''queues'' @ [CHR 0x22] @ '' already exists'')"
  let ?s1 = "(set_version 20 s)\<lparr>lives := None\<rparr>"
  have run1: "migrate pg files schema (set_version 20 s) = (Inl (Failed (from_sqlx ?e)), ?s1)"
    by (rule migrate_fails [of _ 20]) (use s fail in \<open>auto simp: set_version_def ONLINE_VERSIONS_def\<close>)
  have "at_version dirty again 20 (?s1\<lparr>catalog := again 20\<rparr>)"
    using s by (simp add: at_version_def set_version_def ONLINE_VERSIONS_def)
  then obtain s2 where run2: "migrate pg files schema (?s1\<lparr>catalog := again 20\<rparr>) = (Inr (), s2)"
    and v2: "versions s2 = Some [40]"
    by (rule migrate_from [OF assms(4)]) auto
  have "read_version ?s1 = 20" "catalog ?s1 = stage 40" using s by (simp_all add: version_simps)
  then show ?thesis
    using s(1) run1 run2 v2 dropped queues_exists_message
    by (simp add: version_not_bumped_on_failure_def read_version_def read_version_opt_def del: append.simps append_assoc)
qed

definition resumes_after_invalid_index ::
  "'c postgres \<Rightarrow> files \<Rightarrow> 'c probes \<Rightarrow> string \<Rightarrow> 'c \<Rightarrow> bool" where
  "resumes_after_invalid_index pg files pr schema c \<longleftrightarrow>
     (let idx = sanitize_ident schema @ ''.idx_workflow_status_in_flight'';
          forge = ''UPDATE pg_index SET indisvalid = false WHERE indexrelid = '' @ [CHR 0x27] @ idx @
            [CHR 0x27] @ ''::regclass''
      in case migrate pg files schema (fresh_server c) of
           (Inl e, s) \<Rightarrow> False
         | (Inr _, s) \<Rightarrow>
             (case run_sql pg forge (catalog s) of
                Inl e \<Rightarrow> False
              | Inr c1 \<Rightarrow>
                  \<not> index_is_valid pr c1 idx \<and>
                  (case migrate pg files schema (set_version 31 (s\<lparr>catalog := c1\<rparr>)) of
                     (Inl e, s1) \<Rightarrow> False
                   | (Inr _, s1) \<Rightarrow> index_is_valid pr (catalog s1) idx \<and> read_version s1 = 40)))"

lemma resumes_after_invalid_index:
  fixes schema :: string
  defines "idx \<equiv> sanitize_ident schema @ ''.idx_workflow_status_in_flight''"
  assumes "scripted_from pg files schema dirty stage 0"
    and forged: "run_sql pg (''UPDATE pg_index SET indisvalid = false WHERE indexrelid = '' @ [CHR 0x27] @ idx @
        [CHR 0x27] @ ''::regclass'') (stage 40) = Inr forged"
      "\<not> index_is_valid pr forged idx" "dirty forged (again 31)"
    and "scripted_from pg files schema dirty again 31" and "index_is_valid pr (again 40) idx"
  shows "resumes_after_invalid_index pg files pr schema (stage 0)"
proof -
  obtain s where s: "migrate pg files schema (fresh_server (stage 0)) = (Inr (), s)" "has_schema s"
    "versions s = Some [40]" "catalog s = stage 40" by (rule migrate_fresh [OF assms(2)])
  have "at_version dirty again 31 (set_version 31 (s\<lparr>catalog := forged\<rparr>))"
    using s forged(3) by (intro at_version_rewound) (simp_all add: ONLINE_VERSIONS_def)
  then obtain s1 where "migrate pg files schema (set_version 31 (s\<lparr>catalog := forged\<rparr>)) = (Inr (), s1)"
    "versions s1 = Some [40]" "catalog s1 = again 40"
    by (rule migrate_from [OF assms(6)]) auto
  with s forged(1,2) assms(7) show ?thesis
    by (simp add: resumes_after_invalid_index_def idx_def Let_def version_simps)
qed

end
