(* ===== verification/Spec2Isabelle.thy ===== *)
theory Spec2Isabelle
  imports Dbos_Overlap Dbos_Cluster Dbos_QueueRunner Dbos_Scheduler Dbos_Listener Dbos_Runtime
    Dbos_UnitTests Dbos_MigrateTests
begin

text \<open>
  A model of the durable workflow runtime in \<open>crates/dbos/src/\<close>, with the theorems that make it
  correct.

  \<^bold>\<open>The program.\<close> The crate runs workflows whose progress is kept in a Postgres database. A
  workflow body calls durable operations through its context; each call takes the next step id,
  looks for its record in \<open>operation_outputs\<close>, returns the recorded result or does its work and
  records it. When an executor dies, recovery runs the body again, and the records make it reach
  the point where it stopped. Workflows are started directly, as children, from a schedule, or put
  on durable queues that executors drain under concurrency and rate limits. Mailboxes, events and
  streams connect workflows; a builder, a client, an admin server and a control-plane client are the
  ways in from outside; a migration runner installs the schema.

  \<^bold>\<open>The theories\<close>, from the bottom up (files under \<open>crates/dbos/src/\<close>):
  \<^item> \<open>Dbos_Prelude\<close>: the effect type of a fallible operation on a state and \<open>transaction\<close>, SQL's
    select, update, count, limit and keyed lookup on lists of rows, Rust's 32- and 64-bit casts, text
    operations, the collections \<open>eff_simps\<close> and its kin, and the locales \<open>codec\<close> (a round trip) and
    \<open>invariant_op\<close> (a set of operations that keep a property).
  \<^item> \<open>Dbos_Error\<close> (\<open>error.rs\<close>): codes, constructors, classification of database errors, display.
  \<^item> \<open>Dbos_Schema\<close> (\<open>migrations/\<close>): one record per table, the state \<open>sysdb\<close>, its keys, foreign keys,
    cascades and the deduplication index (\<open>db_wf\<close>).
  \<^item> \<open>Dbos_Status\<close>, \<open>Dbos_Steps\<close>, \<open>Dbos_Notifications\<close>, \<open>Dbos_Streams\<close>, \<open>Dbos_QueueDb\<close>,
    \<open>Dbos_Management\<close> (\<open>db/status.rs\<close>, \<open>db/steps.rs\<close>, \<open>db/notifications.rs\<close>, \<open>db/streams.rs\<close>,
    \<open>db/queue.rs\<close>, \<open>db/management.rs\<close>): one definition per database function. Their contracts are
    the locales \<open>write_once\<close> (step records), \<open>mailbox\<close> (a first-in first-out inbox) and \<open>append_log\<close>
    (streams), interpreted on the model's own definitions.
  \<^item> \<open>Dbos_Ident\<close>, \<open>Dbos_Migrate\<close> (\<open>db/mod.rs\<close>, \<open>db/migrate.rs\<close>): identifier quoting; rendering,
    ordering and running the migrations, with a process that may be killed.
  \<^item> \<open>Dbos_Serialize\<close>, \<open>Dbos_Config\<close> (\<open>serialize.rs\<close>, \<open>config.rs\<close>): payload formats and error
    envelopes; configuration, dialects and the masking of passwords.
  \<^item> \<open>Dbos_Retry\<close>, \<open>Dbos_Context\<close>, \<open>Dbos_Replay\<close> (\<open>runtime/step.rs\<close>, \<open>runtime/context.rs\<close>): retries,
    the durable operations, and programs over them: the replay theorem.
  \<^item> \<open>Dbos_Workflow\<close>, \<open>Dbos_Recovery\<close>, \<open>Dbos_QueueRunner\<close>, \<open>Dbos_Scheduler\<close> (\<open>runtime/workflow.rs\<close>,
    \<open>runtime/registry.rs\<close>, \<open>runtime/recovery.rs\<close>, \<open>runtime/queue.rs\<close>, \<open>runtime/scheduler.rs\<close>): starting
    and awaiting, the recovery pass, the poll loop with its slots, and the firing loop.
  \<^item> \<open>Dbos_System\<close>: all operations that write the database as one datatype of calls, the abstract
    status machine with the callers that own its arrows, and the invariants of every run.
  \<^item> \<open>Dbos_Claims\<close>: what the queues promise along a run of those calls, on top of the single dequeue:
    who is handed out how often, and how the eligible rows are worked off.
  \<^item> \<open>Dbos_Overlap\<close>: the dequeue transaction in its parts, each on its snapshot and with its row locks,
    interleaved with other dequeues and other writes; the atomic dequeue is one of its runs.
  \<^item> \<open>Dbos_Log\<close>, \<open>Dbos_Cluster\<close>: the records of a workflow as its log. A body read against a log
    (\<open>follow\<close>) is the abstract meaning of a run; \<open>lived\<close> is the runs of one process after another,
    \<open>cluster_step\<close> those of several incarnations on one database.
  \<^item> \<open>Dbos_Listener\<close> (\<open>runtime/listener.rs\<close> and the waits of \<open>runtime/context.rs\<close>): registrations,
    notifications and wake-ups as a step relation.
  \<^item> \<open>Dbos_Conductor\<close>, \<open>Dbos_Admin\<close>, \<open>Dbos_Client\<close>, \<open>Dbos_Runtime\<close> (\<open>runtime/conductor.rs\<close>,
    \<open>runtime/admin.rs\<close>, \<open>client.rs\<close>, \<open>runtime/mod.rs\<close>): the ways in, each handler composed of the
    operations above. The locale \<open>workflow_operator\<close> is the contract of cancel and resume, which
    the client and the runtime handle both provide.
  \<^item> \<open>Dbos_UnitTests\<close>, \<open>Dbos_MigrateTests\<close>: the in-file unit tests of \<open>error.rs\<close>, \<open>config.rs\<close>,
    \<open>serialize.rs\<close> and \<open>db/migrate.rs\<close>, each a definition that is proved to hold of the model; what
    serde, base64 and Postgres answer in them are the premises.

  \<^bold>\<open>What is shown.\<close> Replay: a crashed body that runs again reaches the same continuation and writes
  nothing twice; the records alone determine what a body returns, whatever crashes on the way, and a workflow
  that several executors run has one outcome unless one of them loses the race for a record; two runs at the same time, whose calls overlap, return the
  same unless one loses the race for a record; sends are exactly once; a sleep waits only for its
  rest; inside a step nothing is recorded. The database: keys,
  foreign keys, deduplication and status values hold after any sequence of calls; every call moves a
  status along the abstract machine; a finished workflow stays as it is, also under the admin server
  and the control plane. Starting: one runner per id; children and schedule ticks start once; an
  enqueue is refused exactly for a held deduplication id, and a client's enqueue is the runtime's but
  for the columns a client cannot know.
  Queues: every limit, the order, the slots; a workflow is handed out once unless it is enqueued
  again, also when the transactions overlap, successive dequeues refine a priority queue, and enough of them claim
  everything. Recovery: what a pass does with each workflow, and that
  the crash loop of a direct workflow ends in the dead-letter queue after its limit. Messages and streams: first in first
  out and once; a receive whose message has arrived is woken by its
  notification or, when the connection lost that, by the next tick; both stream readers deliver the log as
  they last saw it. Management:
  what a fork copies, what garbage collection spares, where a cancellation stops. Formats and text:
  round trips of values, errors, identifiers and URL segments; masking; configuration precedence.
  Migrations: a killed launch can always be repeated, and the version never goes back.

  Some theorems show where the code does not do what its comments say: an error that loses its code
  in replay (\<open>replayed_error_loses_code\<close>), a stream tail that is missed
  (\<open>reader_can_miss_the_tail\<close>), the stream of a delayed producer that reads as closed
  (\<open>delayed_producer_reads_closed\<close>), a recovery duty that moves to an executor which does not run the
  workflow (\<open>second_start_moves_recovery\<close>), concurrency and rate limits that overlapping dequeues
  exceed (\<open>overlap_exceeds_limits\<close>), a second run whose conflict on a step record replaces the
  recorded outcome (\<open>lost_race_replaces_outcome\<close>), slots kept by panicking tasks
  (\<open>dead_tasks_block_the_queue\<close>), a waiter nobody can wake (\<open>get_event_can_be_orphaned\<close>), a
  reconnection that wakes nobody (\<open>silent_reconnect_leaves_the_tick\<close>), a schema
  name that breaks migration 10 (\<open>migration_10_misquotes\<close>), passwords that are not masked
  (\<open>mask_leaks\<close>, \<open>detect_dialect_repeats_url\<close>), an unknown status that filters nothing
  (\<open>unknown_statuses_filter_nothing\<close>).

  \<^bold>\<open>Conventions.\<close> The database is a record of lists of rows in insertion order; an SQL statement is
  one atomic function on it, and a Rust transaction is \<open>transaction\<close>, which restores the state on an
  error. What another executor does between two statements is a function on the database, an
  argument, constrained only by the hypotheses of the theorem that needs it. The clock, fresh uuids
  and the environment are arguments. A wait is a function of the states it observes, one per round:
  a list that ends before the wait does gives \<open>None\<close>, so no bound is hidden in it; theorems say for
  which observations the wait returns. Timestamps are unbounded integers, as no operation comes near
  the end of 64 bits except on arguments the caller chooses; step ids, casts and offsets keep their
  width where it matters. Text is a list of characters below 256. The loops of the runner, scheduler,
  session and reconnection run over the list of what they meet, and stop with it. A killed migration
  run is a number of statements it survives (\<open>lives\<close>), and an index statement that is interrupted
  leaves what \<open>torn\<close> says. In \<open>lived\<close> and \<open>cluster_step\<close> a call of one incarnation is one step, and what
  others do while it runs is in its environment: between its step lookup and its transaction
  (\<open>en_race\<close>), before each observation of a wait (\<open>en_rounds\<close>) and inside the body of a step. They
  may add records of the workflow, also the one the call is about to write; a call that loses that
  race fails, and is the subject of \<open>lost_race_replaces_outcome\<close>.

  \<^bold>\<open>Parameters.\<close> Code outside the crate is an argument: JSON text and base64 (\<open>serde\<close>), the
  conversions of user types, floating-point delays, the cron library, time formats, the texts of the
  migration files and what they do to the catalog, the Postgres connection. Laws a theorem needs of
  them are its named hypotheses, and its witness instantiates them.

  \<^bold>\<open>Not modelled.\<close> Failures of the connection inside an operation (they surface as an error and, in
  a transaction, as no change); telemetry and log output (\<open>telemetry.rs\<close>), the re-exports of
  \<open>lib.rs\<close>; opening sockets, pools and TLS; the jitter of the sleeps; the integration tests of
  \<open>tests/\<close>. Transactions other than the dequeue are atomic.
\<close>

end
